(* ===== verification/KpsPrelude.thy ===== *)
theory KpsPrelude
  imports Main "HOL-Library.Word"
begin

text \<open>
  Shared vocabulary of the development: the Rust integer types as words, big-endian
  byte encodings, decimal and hexadecimal printing as the standard library does it,
  results and polls, and the two interface locales that several components instantiate
  (\<open>codec\<close>, an encoder with its decoder; \<open>machine\<close>, a step function with an invariant).
  The named collections \<open>nowrap\<close> and \<open>u64_simps\<close> hold the facts that turn machine
  arithmetic into arithmetic on natural numbers.
\<close>

section \<open>Machine integers\<close>

type_synonym u8 = "8 word"
type_synonym u16 = "16 word"
type_synonym u32 = "32 word"
type_synonym u64 = "64 word"
type_synonym bytes = "8 word list"

text \<open>
  Rust's \<open>+\<close> and \<open>-\<close> on \<open>u64\<close> wrap in a release build (and abort in a debug build).
  The model keeps the wrapping operations of the word type; the lemmas below give the
  conditions under which they are exact.
\<close>

named_theorems nowrap "conditions under which u64 arithmetic is exact"
named_theorems u64_simps "order on u64 as order on the naturals"

lemma unat_bound: "unat (w :: 'a::len word) < 2 ^ LENGTH('a)"
  by (rule unsigned_less)

lemma unat_add_exact [nowrap]:
  fixes a b :: "'a::len word"
  shows "unat a + unat b < 2 ^ LENGTH('a) \<Longrightarrow> unat (a + b) = unat a + unat b"
  by (simp add: unat_word_ariths)

lemma unat_sub_exact [nowrap]:
  fixes a b :: "'a::len word"
  shows "unat b \<le> unat a \<Longrightarrow> unat (a - b) = unat a - unat b"
  by (simp add: unat_sub word_le_nat_alt)

lemmas word_le_unat [u64_simps] = word_le_nat_alt
lemmas word_less_unat [u64_simps] = word_less_nat_alt

lemma unat_min_word [u64_simps]:
  fixes a b :: "'a::len word"
  shows "unat (min a b) = min (unat a) (unat b)"
  by (simp add: min_def word_le_nat_alt)

lemma unat_max_word [u64_simps]:
  fixes a b :: "'a::len word"
  shows "unat (max a b) = max (unat a) (unat b)"
  by (simp add: max_def word_le_nat_alt)

lemma unat_half [u64_simps]: "unat ((a :: u64) div 2) = unat a div 2"
  by (simp add: unat_div)

lemma unat_u64_lt: "unat (a :: u64) < 18446744073709551616"
  using unat_bound [of a] by simp

lemma unat_of_nat_small: "n < 2 ^ LENGTH('a) \<Longrightarrow> unat (of_nat n :: 'a::len word) = n"
  by (simp add: unat_of_nat take_bit_nat_eq_self)

section \<open>Big-endian byte strings\<close>

text \<open>The bytes of \<open>n\<close>, most significant first, in \<open>k\<close> bytes; and the number they denote.\<close>

primrec be_bytes :: "nat \<Rightarrow> nat \<Rightarrow> bytes" where
  "be_bytes 0 n = []"
| "be_bytes (Suc k) n = be_bytes k (n div 256) @ [of_nat (n mod 256)]"

definition be_nat :: "bytes \<Rightarrow> nat" where
  "be_nat bs = foldl (\<lambda>acc b. acc * 256 + unat b) 0 bs"

lemma be_nat_Nil [simp]: "be_nat [] = 0"
  by (simp add: be_nat_def)

lemma be_nat_snoc [simp]: "be_nat (bs @ [b]) = be_nat bs * 256 + unat b"
  by (simp add: be_nat_def)

lemma length_be_bytes [simp]: "length (be_bytes k n) = k"
  by (induction k arbitrary: n) auto

lemma unat_of_nat_byte [simp]: "unat (of_nat (n mod 256) :: u8) = n mod 256"
  by (rule unat_of_nat_small) simp

lemma be_nat_be_bytes: "be_nat (be_bytes k n) = n mod 256 ^ k"
proof (induction k arbitrary: n)
  case 0
  then show ?case by simp
next
  case (Suc k)
  have "be_nat (be_bytes (Suc k) n) = (n div 256 mod 256 ^ k) * 256 + n mod 256"
    by (simp add: Suc.IH)
  also have "\<dots> = n mod (256 * 256 ^ k)"
    by (simp add: mod_mult2_eq)
  finally show ?case by simp
qed

lemma be_nat_bound: "be_nat bs < 256 ^ length bs"
proof (induction bs rule: rev_induct)
  case Nil
  then show ?case by simp
next
  case (snoc b bs)
  have "unat b < 256" using unat_bound [of b] by simp
  with snoc.IH have "be_nat bs * 256 + unat b < 256 ^ length bs * 256"
    by linarith
  then show ?case by simp
qed

lemma be_bytes_be_nat: "be_bytes (length bs) (be_nat bs) = bs"
proof (induction bs rule: rev_induct)
  case Nil
  then show ?case by simp
next
  case (snoc b bs)
  have b: "unat b < 256" using unat_bound [of b] by simp
  have "(be_nat bs * 256 + unat b) div 256 = be_nat bs"
    and "(be_nat bs * 256 + unat b) mod 256 = unat b"
    using b by auto
  with snoc.IH show ?case by simp
qed

definition u32_to_be_bytes :: "u32 \<Rightarrow> bytes" where
  "u32_to_be_bytes v = be_bytes 4 (unat v)"

definition u32_from_be_bytes :: "bytes \<Rightarrow> u32" where
  "u32_from_be_bytes bs = of_nat (be_nat bs)"

definition u64_to_be_bytes :: "u64 \<Rightarrow> bytes" where
  "u64_to_be_bytes v = be_bytes 8 (unat v)"

definition u64_from_be_bytes :: "bytes \<Rightarrow> u64" where
  "u64_from_be_bytes bs = of_nat (be_nat bs)"

lemma length_u32_bytes [simp]: "length (u32_to_be_bytes v) = 4"
  by (simp add: u32_to_be_bytes_def)

lemma length_u64_bytes [simp]: "length (u64_to_be_bytes v) = 8"
  by (simp add: u64_to_be_bytes_def)

lemma u32_bytes_roundtrip [simp]: "u32_from_be_bytes (u32_to_be_bytes v) = v"
  using unat_bound [of v] by (simp add: u32_from_be_bytes_def u32_to_be_bytes_def be_nat_be_bytes)

lemma u64_bytes_roundtrip [simp]: "u64_from_be_bytes (u64_to_be_bytes v) = v"
  using unat_bound [of v] by (simp add: u64_from_be_bytes_def u64_to_be_bytes_def be_nat_be_bytes)

lemma u32_to_from_bytes [simp]:
  assumes "length bs = 4"
  shows "u32_to_be_bytes (u32_from_be_bytes bs) = bs"
proof -
  have "unat (of_nat (be_nat bs) :: u32) = be_nat bs"
    using be_nat_bound [of bs] assms by (intro unat_of_nat_small) simp
  with assms show ?thesis
    using be_bytes_be_nat [of bs] by (simp add: u32_from_be_bytes_def u32_to_be_bytes_def)
qed

lemma u64_to_from_bytes [simp]:
  assumes "length bs = 8"
  shows "u64_to_be_bytes (u64_from_be_bytes bs) = bs"
proof -
  have "unat (of_nat (be_nat bs) :: u64) = be_nat bs"
    using be_nat_bound [of bs] assms by (intro unat_of_nat_small) simp
  with assms show ?thesis
    using be_bytes_be_nat [of bs] by (simp add: u64_from_be_bytes_def u64_to_be_bytes_def)
qed

section \<open>Printing and parsing numbers, as the standard library does\<close>

definition digit_char :: "nat \<Rightarrow> char" where
  "digit_char d = char_of (48 + d)"

definition is_digit :: "char \<Rightarrow> bool" where
  "is_digit c \<longleftrightarrow> 48 \<le> (of_char c :: nat) \<and> (of_char c :: nat) \<le> 57"

definition digit_val :: "char \<Rightarrow> nat" where
  "digit_val c = of_char c - 48"

text \<open>\<open>Display\<close> of an unsigned integer.\<close>

fun show_nat :: "nat \<Rightarrow> string" where
  "show_nat n = (if n < 10 then [digit_char n]
                 else show_nat (n div 10) @ [digit_char (n mod 10)])"

declare show_nat.simps [simp del]

text \<open>The number a string of digits denotes.\<close>

definition digits_val :: "string \<Rightarrow> nat" where
  "digits_val s = foldl (\<lambda>acc c. acc * 10 + digit_val c) 0 s"

text \<open>
  \<open>str::parse\<close> of an unsigned integer below \<open>bound\<close>: an optional leading plus sign, then
  at least one digit and nothing else, and the value must fit.
\<close>

definition parse_uint :: "nat \<Rightarrow> string \<Rightarrow> nat option" where
  "parse_uint bound s =
     (let ds = (case s of c # cs \<Rightarrow> (if c = CHR ''+'' then cs else s) | [] \<Rightarrow> [])
      in if ds \<noteq> [] \<and> list_all is_digit ds \<and> digits_val ds < bound
         then Some (digits_val ds) else None)"

lemma digits_val_Nil [simp]: "digits_val [] = 0"
  by (simp add: digits_val_def)

lemma digits_val_snoc [simp]: "digits_val (s @ [c]) = digits_val s * 10 + digit_val c"
  by (simp add: digits_val_def)

lemma of_char_digit: "d < 10 \<Longrightarrow> of_char (digit_char d) = 48 + d"
  by (simp add: digit_char_def)

lemma digit_char_props [simp]:
  assumes "d < 10"
  shows "is_digit (digit_char d)" and "digit_val (digit_char d) = d"
  using of_char_digit [OF assms] assms by (simp_all add: is_digit_def digit_val_def)

lemma show_nat_digits: "list_all is_digit (show_nat n)"
proof (induction n rule: show_nat.induct)
  case (1 n)
  then show ?case by (subst show_nat.simps) simp
qed

lemma show_nat_val [simp]: "digits_val (show_nat n) = n"
proof (induction n rule: show_nat.induct)
  case (1 n)
  then show ?case
    using digits_val_snoc [of "[]"] by (subst show_nat.simps) simp
qed

lemma show_nat_nonempty [simp]: "show_nat n \<noteq> []"
  by (subst show_nat.simps) simp

lemma digit_not_plus: "is_digit c \<Longrightarrow> c \<noteq> CHR ''+''"
  by (auto simp: is_digit_def)

lemma digit_not_colon: "is_digit c \<Longrightarrow> c \<noteq> CHR '':''"
  by (auto simp: is_digit_def)

lemma show_nat_no_colon: "CHR '':'' \<notin> set (show_nat n)"
  using show_nat_digits [of n] by (auto simp: list_all_iff dest: digit_not_colon)

lemma parse_show_nat:
  assumes "n < bound"
  shows "parse_uint bound (show_nat n) = Some n"
proof (cases "show_nat n")
  case Nil
  then show ?thesis by simp
next
  case (Cons c cs)
  have "list_all is_digit (c # cs)" and val: "digits_val (c # cs) = n"
    using show_nat_digits [of n] show_nat_val [of n] Cons by simp_all
  moreover from this have "c \<noteq> CHR ''+''" by (simp add: digit_not_plus)
  ultimately show ?thesis
    using assms Cons by (simp add: parse_uint_def Let_def)
qed

text \<open>One byte in two lower-case or upper-case hexadecimal digits.\<close>

definition hex_digit :: "nat \<Rightarrow> nat \<Rightarrow> char" where
  "hex_digit base d = (if d < 10 then digit_char d else char_of (base + (d - 10)))"

definition hex2_lower :: "u8 \<Rightarrow> string" where
  "hex2_lower b = [hex_digit 97 (unat b div 16), hex_digit 97 (unat b mod 16)]"

definition hex2_upper :: "u8 \<Rightarrow> string" where
  "hex2_upper b = [hex_digit 65 (unat b div 16), hex_digit 65 (unat b mod 16)]"

section \<open>Polls\<close>

text \<open>\<open>std::task::Poll\<close>; a task that is to be woken is known by a number.\<close>

datatype 'a poll = Pending | Ready 'a

type_synonym waker = nat

section \<open>Sums over the entries of a finite map\<close>

text \<open>
  A \<open>HashMap\<close> is a partial function; \<open>map_total g m\<close> adds \<open>g\<close> over its values. The three
  update laws are what the accounting invariants use.
\<close>

definition map_total :: "('v \<Rightarrow> nat) \<Rightarrow> ('k \<rightharpoonup> 'v) \<Rightarrow> nat" where
  "map_total g m = (\<Sum>k\<in>dom m. g (the (m k)))"

lemma map_total_empty [simp]: "map_total g Map.empty = 0"
  by (simp add: map_total_def)

lemma map_total_delete:
  assumes "finite (dom m)" and "m k = Some v"
  shows "map_total g m = g v + map_total g (m(k := None))"
proof -
  have "dom m = insert k (dom m - {k})" using assms(2) by auto
  then have "map_total g m = g (the (m k)) + (\<Sum>j\<in>dom m - {k}. g (the (m j)))"
    unfolding map_total_def using assms(1) by (metis finite_Diff Diff_iff insertI1 sum.insert)
  also have "(\<Sum>j\<in>dom m - {k}. g (the (m j))) = map_total g (m(k := None))"
    unfolding map_total_def by (rule sum.cong) auto
  finally show ?thesis using assms(2) by simp
qed

lemma map_total_insert:
  assumes "finite (dom m)" and "m k = None"
  shows "map_total g (m(k \<mapsto> v)) = g v + map_total g m"
proof -
  have "m(k \<mapsto> v, k := None) = m" using assms(2) by auto
  then show ?thesis
    using map_total_delete [of "m(k \<mapsto> v)" k v g] assms(1) by simp
qed

lemma map_total_update:
  assumes "finite (dom m)" and "m k = Some v"
  shows "map_total g (m(k \<mapsto> v')) + g v = map_total g m + g v'"
proof -
  have "(m(k \<mapsto> v'))(k := None) = m(k := None)" by auto
  then show ?thesis
    using map_total_delete [of m k v g] map_total_delete [of "m(k \<mapsto> v')" k v' g] assms by simp
qed

lemma map_total_same:
  assumes "finite (dom m)" and "m k = Some v" and "g v' = g v"
  shows "map_total g (m(k \<mapsto> v')) = map_total g m"
  using map_total_update [OF assms(1,2), of g v'] assms(3) by simp

lemma map_total_member:
  assumes "finite (dom m)" and "m k = Some v"
  shows "g v \<le> map_total g m"
  using map_total_delete [OF assms, of g] by simp

section \<open>Interfaces shared by several components\<close>

text \<open>
  An encoder with its decoder: every value in the encoder's domain is read back. What
  follows for any such pair is proved once here.
\<close>

locale codec =
  fixes enc :: "'a \<Rightarrow> 'w"
    and dec :: "'w \<Rightarrow> 'e + 'a"
    and ok :: "'a \<Rightarrow> bool"
  assumes dec_enc: "ok x \<Longrightarrow> dec (enc x) = Inr x"
begin

lemma enc_inj: "ok x \<Longrightarrow> ok y \<Longrightarrow> enc x = enc y \<Longrightarrow> x = y"
  by (metis dec_enc sum.inject(2))

lemma dec_messages: "list_all ok xs \<Longrightarrow> map dec (map enc xs) = map Inr xs"
  by (simp add: list_all_iff dec_enc)

end

text \<open>
  A component driven by a sequence of calls. \<open>guard\<close> is the caller's contract; the
  invariant holds after every sequence that keeps it.
\<close>

primrec legal :: "('s \<Rightarrow> 'e \<Rightarrow> 's) \<Rightarrow> ('s \<Rightarrow> 'e \<Rightarrow> bool) \<Rightarrow> 's \<Rightarrow> 'e list \<Rightarrow> bool" where
  "legal step guard s [] = True"
| "legal step guard s (e # es) = (guard s e \<and> legal step guard (step s e) es)"

lemma legal_append:
  "legal step guard s (es @ fs) \<longleftrightarrow>
     legal step guard s es \<and> legal step guard (foldl step s es) fs"
  by (induction es arbitrary: s) auto

locale machine =
  fixes step :: "'s \<Rightarrow> 'e \<Rightarrow> 's"
    and guard :: "'s \<Rightarrow> 'e \<Rightarrow> bool"
    and inv :: "'s \<Rightarrow> bool"
  assumes step_inv: "inv s \<Longrightarrow> guard s e \<Longrightarrow> inv (step s e)"
begin

lemma run_inv: "inv s \<Longrightarrow> legal step guard s es \<Longrightarrow> inv (foldl step s es)"
  by (induction es arbitrary: s) (auto intro: step_inv)

lemma run_prefix_inv:
  "inv s \<Longrightarrow> legal step guard s (es @ fs) \<Longrightarrow> inv (foldl step s es)"
  by (induction es arbitrary: s) (auto intro: step_inv)

end

end
