(* ===== verification/KpsError.thy ===== *)
theory KpsError
  imports KpsPrelude
begin

text \<open>
  \<open>src/libs/rust/kps/src/error.rs\<close>: the error-code registry with its wire values, and the
  error types that connections and streams surface. The registry is an interface of the
  wire codecs (\<open>codec\<close> of the prelude); codes are ordered by wire value.
\<close>

section \<open>The registry\<close>

datatype ErrorCode =
    EcNone | EcCancelled | EcClosed | EcReset | EcTimeout | EcNetworkError
  | EcProtocolError | EcUnsupported | EcTooLarge | EcQueueFull | EcPermissionDenied
  | EcInternalError

fun to_wire :: "ErrorCode \<Rightarrow> u32" where
  "to_wire EcNone = 0"
| "to_wire EcCancelled = 1"
| "to_wire EcClosed = 2"
| "to_wire EcReset = 3"
| "to_wire EcTimeout = 4"
| "to_wire EcNetworkError = 5"
| "to_wire EcProtocolError = 6"
| "to_wire EcUnsupported = 7"
| "to_wire EcTooLarge = 8"
| "to_wire EcQueueFull = 9"
| "to_wire EcPermissionDenied = 10"
| "to_wire EcInternalError = 11"

definition from_wire :: "u32 \<Rightarrow> ErrorCode" where
  "from_wire v =
     (if v = 0 then EcNone
      else if v = 1 then EcCancelled
      else if v = 2 then EcClosed
      else if v = 3 then EcReset
      else if v = 4 then EcTimeout
      else if v = 5 then EcNetworkError
      else if v = 6 then EcProtocolError
      else if v = 7 then EcUnsupported
      else if v = 8 then EcTooLarge
      else if v = 9 then EcQueueFull
      else if v = 10 then EcPermissionDenied
      else EcInternalError)"

fun display_code :: "ErrorCode \<Rightarrow> string" where
  "display_code EcNone = ''none''"
| "display_code EcCancelled = ''cancelled''"
| "display_code EcClosed = ''closed''"
| "display_code EcReset = ''reset''"
| "display_code EcTimeout = ''timeout''"
| "display_code EcNetworkError = ''network-error''"
| "display_code EcProtocolError = ''protocol-error''"
| "display_code EcUnsupported = ''unsupported''"
| "display_code EcTooLarge = ''too-large''"
| "display_code EcQueueFull = ''queue-full''"
| "display_code EcPermissionDenied = ''permission-denied''"
| "display_code EcInternalError = ''internal-error''"

lemma from_to_wire [simp]: "from_wire (to_wire c) = c"
  by (cases c) (simp_all add: from_wire_def)

text \<open>The registry ordered as its \<open>repr(u32)\<close> discriminants are.\<close>

instantiation ErrorCode :: linorder
begin

definition less_eq_ErrorCode :: "ErrorCode \<Rightarrow> ErrorCode \<Rightarrow> bool" where
  "less_eq_ErrorCode a b \<longleftrightarrow> to_wire a \<le> to_wire b"

definition less_ErrorCode :: "ErrorCode \<Rightarrow> ErrorCode \<Rightarrow> bool" where
  "less_ErrorCode a b \<longleftrightarrow> to_wire a < to_wire b"

instance
proof
  fix a b c :: ErrorCode
  show "a \<le> a" by (simp add: less_eq_ErrorCode_def)
  show "a < b \<longleftrightarrow> a \<le> b \<and> \<not> b \<le> a"
    by (auto simp: less_eq_ErrorCode_def less_ErrorCode_def)
  show "a \<le> b \<or> b \<le> a" by (auto simp: less_eq_ErrorCode_def)
  assume "a \<le> b"
  then show "b \<le> c \<Longrightarrow> a \<le> c" by (auto simp: less_eq_ErrorCode_def)
  show "b \<le> a \<Longrightarrow> a = b"
    using \<open>a \<le> b\<close> from_to_wire [of a] from_to_wire [of b]
    by (metis less_eq_ErrorCode_def order_antisym)
qed

end

lemma to_wire_bound: "to_wire c \<le> 11"
  by (cases c) simp_all

text \<open>A code read from the wire is written back as it was exactly when it is in the registry.\<close>

lemma to_from_wire: "to_wire (from_wire v) = (if v \<le> 10 then v else 11)"
proof (cases "v \<le> 10")
  case True
  then have "unat v \<le> 10" by (simp add: word_le_nat_alt)
  then have "unat v \<in> {0, 1, 2, 3, 4, 5, 6, 7, 8, 9, 10}" by simp presburger
  then have "v \<in> {0, 1, 2, 3, 4, 5, 6, 7, 8, 9, 10}"
    by (auto simp: word_unat_eq_iff)
  then show ?thesis by (auto simp: from_wire_def)
next
  case False
  then show ?thesis by (auto simp: from_wire_def)
qed

interpretation error_code: codec to_wire "\<lambda>v. Inr (from_wire v) :: unit + ErrorCode" "\<lambda>_. True"
  by unfold_locales simp

section \<open>Errors\<close>

record StreamError =
  se_code :: ErrorCode
  se_remote :: bool

datatype Error =
    ErrAddress string
  | ErrIdentity string
  | ErrDial string
  | ErrConnClosed
  | ErrStreamClosed
  | ErrWriteClosed
  | ErrStream StreamError
  | ErrDatagramTooLarge nat
  | ErrIo string
  | ErrTransport string

text \<open>
  The \<open>Display\<close> texts of the error types. \<open>Io\<close> is transparent: the text of the
  underlying error, which the model carries.
\<close>

definition display_stream_error :: "StreamError \<Rightarrow> string" where
  "display_stream_error e =
     ''kps: stream reset (code '' @ show_nat (unat (to_wire (se_code e))) @ '')''"

fun display_error :: "Error \<Rightarrow> string" where
  "display_error (ErrAddress s) = ''kps: '' @ s"
| "display_error (ErrIdentity s) = ''kps: '' @ s"
| "display_error (ErrDial s) = ''kps: dial: '' @ s"
| "display_error ErrConnClosed = ''kps: connection closed''"
| "display_error ErrStreamClosed = ''kps: stream closed''"
| "display_error ErrWriteClosed = ''kps: write half closed''"
| "display_error (ErrStream e) = display_stream_error e"
| "display_error (ErrDatagramTooLarge n) =
     ''kps: datagram exceeds limit (max '' @ show_nat n @ '' bytes)''"
| "display_error (ErrIo s) = s"
| "display_error (ErrTransport s) = ''kps: '' @ s"

end
