(* ===== verification/KpsFraming.thy ===== *)
theory KpsFraming
  imports KpsError
begin

text \<open>
  \<open>src/libs/rust/kps/src/framing.rs\<close>: the frames of a stream's data channel and the typed
  messages of the control channel, encoded to and parsed from bytes; \<open>FlowLimits\<close> is
  the record of \<open>flow.rs\<close> that HELLO carries. Both codecs are instances of the prelude's
  \<open>codec\<close>; a parse failure carries the text of the violation.
\<close>

section \<open>Constants and types\<close>

record FlowLimits =
  max_stream_data :: u64
  max_data :: u64
  max_streams :: u64

definition DEFAULT_FLOW_LIMITS :: FlowLimits where
  "DEFAULT_FLOW_LIMITS =
     \<lparr>max_stream_data = push_bit 20 1, max_data = push_bit 20 8, max_streams = 100\<rparr>"

datatype FrameType = FtData | FtFin | FtReset | FtStopSending | FtMaxStreamData

fun frame_type_byte :: "FrameType \<Rightarrow> u8" where
  "frame_type_byte FtData = 0"
| "frame_type_byte FtFin = 1"
| "frame_type_byte FtReset = 2"
| "frame_type_byte FtStopSending = 3"
| "frame_type_byte FtMaxStreamData = 4"

definition MAX_WEBRTC_FRAME_SIZE :: nat where
  "MAX_WEBRTC_FRAME_SIZE = 16384"

definition MAX_FRAME_PAYLOAD :: nat where
  "MAX_FRAME_PAYLOAD = MAX_WEBRTC_FRAME_SIZE - 1"

definition MAX_OFFSET :: u64 where
  "MAX_OFFSET = push_bit 62 1 - 1"

definition WIRE_VERSION :: u8 where
  "WIRE_VERSION = 1"

lemma unat_MAX_OFFSET [simp]: "unat MAX_OFFSET = 4611686018427387903"
  by (simp add: MAX_OFFSET_def push_bit_eq_mult)

section \<open>Stream frames\<close>

definition encode_data :: "bytes \<Rightarrow> bytes" where
  "encode_data p = frame_type_byte FtData # p"

definition encode_fin :: bytes where
  "encode_fin = [frame_type_byte FtFin]"

definition encode_code :: "FrameType \<Rightarrow> ErrorCode \<Rightarrow> bytes" where
  "encode_code t code = frame_type_byte t # u32_to_be_bytes (to_wire code)"

definition encode_max_stream_data :: "u64 \<Rightarrow> bytes" where
  "encode_max_stream_data v = frame_type_byte FtMaxStreamData # u64_to_be_bytes v"

datatype ParsedFrame =
    PfData bytes
  | PfFin
  | PfReset ErrorCode
  | PfStopSending ErrorCode
  | PfMaxStreamData u64

definition parse_frame :: "bytes \<Rightarrow> string + ParsedFrame" where
  "parse_frame data =
     (case data of
        [] \<Rightarrow> Inl ''empty data-channel message''
      | t # payload \<Rightarrow>
          if length data > MAX_WEBRTC_FRAME_SIZE
          then Inl (''frame exceeds '' @ show_nat MAX_WEBRTC_FRAME_SIZE @ '' bytes (''
                    @ show_nat (length data) @ '')'')
          else if t = 0x00 then
            (if payload = [] then Inl ''empty DATA frame'' else Inr (PfData payload))
          else if t = 0x01 then
            (if payload \<noteq> [] then Inl ''FIN with payload'' else Inr PfFin)
          else if t = 0x02 \<or> t = 0x03 then
            (if length payload \<noteq> 4
             then Inl ''RESET/STOP_SENDING payload must be 4 bytes''
             else let code = from_wire (u32_from_be_bytes payload)
                  in if t = 0x02 then Inr (PfReset code) else Inr (PfStopSending code))
          else if t = 0x04 then
            (if length payload \<noteq> 8
             then Inl ''MAX_STREAM_DATA payload must be 8 bytes''
             else let v = u64_from_be_bytes payload
                  in if v > MAX_OFFSET then Inl ''MAX_STREAM_DATA above MAX_OFFSET''
                     else Inr (PfMaxStreamData v))
          else Inl (''unknown frame type 0x'' @ hex2_lower t))"

text \<open>
  The frame a sender writes for each kind (the encoder each \<open>ParsedFrame\<close> answers to),
  and the frames that stay inside the wire rules.
\<close>

fun encode_frame :: "ParsedFrame \<Rightarrow> bytes" where
  "encode_frame (PfData p) = encode_data p"
| "encode_frame PfFin = encode_fin"
| "encode_frame (PfReset c) = encode_code FtReset c"
| "encode_frame (PfStopSending c) = encode_code FtStopSending c"
| "encode_frame (PfMaxStreamData v) = encode_max_stream_data v"

fun frame_ok :: "ParsedFrame \<Rightarrow> bool" where
  "frame_ok (PfData p) \<longleftrightarrow> 1 \<le> length p \<and> length p \<le> MAX_FRAME_PAYLOAD"
| "frame_ok (PfMaxStreamData v) \<longleftrightarrow> v \<le> MAX_OFFSET"
| "frame_ok _ \<longleftrightarrow> True"

section \<open>Control messages\<close>

definition encode_conn_close :: "ErrorCode \<Rightarrow> bytes" where
  "encode_conn_close code = 0x00 # u32_to_be_bytes (to_wire code)"

definition encode_hello :: "FlowLimits \<Rightarrow> bytes" where
  "encode_hello l =
     0x01 # WIRE_VERSION # u64_to_be_bytes (max_stream_data l)
       @ u64_to_be_bytes (max_data l) @ u64_to_be_bytes (max_streams l)"

definition encode_max_data :: "u64 \<Rightarrow> bytes" where
  "encode_max_data v = 0x02 # u64_to_be_bytes v"

definition encode_max_streams :: "u64 \<Rightarrow> bytes" where
  "encode_max_streams v = 0x03 # u64_to_be_bytes v"

datatype ControlMsg =
    CtlClose ErrorCode
  | CtlHello u8 FlowLimits
  | CtlMaxData u64
  | CtlMaxStreams u64

text \<open>\<open>slice data a b\<close> is Rust's \<open>&data[a..b]\<close>, used only with \<open>b\<close> within the length.\<close>

definition slice :: "'a list \<Rightarrow> nat \<Rightarrow> nat \<Rightarrow> 'a list" where
  "slice xs a b = take (b - a) (drop a xs)"

definition decode_control :: "bytes \<Rightarrow> string + ControlMsg" where
  "decode_control data =
     (case data of
        [] \<Rightarrow> Inl ''empty control message''
      | t # _ \<Rightarrow>
          if t = 0x00 then
            (if length data \<noteq> 5 then Inl ''CONNECTION_CLOSE must be 5 bytes''
             else Inr (CtlClose (from_wire (u32_from_be_bytes (slice data 1 5)))))
          else if t = 0x01 then
            (if length data \<noteq> 26 then Inl ''HELLO must be 26 bytes''
             else let limits = \<lparr>max_stream_data = u64_from_be_bytes (slice data 2 10),
                                max_data = u64_from_be_bytes (slice data 10 18),
                                max_streams = u64_from_be_bytes (slice data 18 26)\<rparr>
                  in if max_stream_data limits > MAX_OFFSET \<or> max_data limits > MAX_OFFSET
                        \<or> max_streams limits > MAX_OFFSET
                     then Inl ''HELLO credit above MAX_OFFSET''
                     else Inr (CtlHello (data ! 1) limits))
          else if t = 0x02 \<or> t = 0x03 then
            (if length data \<noteq> 9 then Inl ''MAX_DATA/MAX_STREAMS must be 9 bytes''
             else let v = u64_from_be_bytes (slice data 1 9)
                  in if v > MAX_OFFSET then Inl ''credit above MAX_OFFSET''
                     else if t = 0x02 then Inr (CtlMaxData v) else Inr (CtlMaxStreams v))
          else Inl (''unknown control message type 0x'' @ hex2_lower t))"

fun encode_control :: "ControlMsg \<Rightarrow> bytes" where
  "encode_control (CtlClose c) = encode_conn_close c"
| "encode_control (CtlHello v l) = encode_hello l"
| "encode_control (CtlMaxData v) = encode_max_data v"
| "encode_control (CtlMaxStreams v) = encode_max_streams v"

definition limits_ok :: "FlowLimits \<Rightarrow> bool" where
  "limits_ok l \<longleftrightarrow> max_stream_data l \<le> MAX_OFFSET \<and> max_data l \<le> MAX_OFFSET
                  \<and> max_streams l \<le> MAX_OFFSET"

fun control_ok :: "ControlMsg \<Rightarrow> bool" where
  "control_ok (CtlHello v l) \<longleftrightarrow> v = WIRE_VERSION \<and> limits_ok l"
| "control_ok (CtlMaxData v) \<longleftrightarrow> v \<le> MAX_OFFSET"
| "control_ok (CtlMaxStreams v) \<longleftrightarrow> v \<le> MAX_OFFSET"
| "control_ok (CtlClose c) \<longleftrightarrow> True"

section \<open>The grammar of the wire rules\<close>

text \<open>
  The tables of the protocol document, as relations between a message and its meaning.
  The parsers are proved to decide exactly these relations.
\<close>

inductive frame_grammar :: "bytes \<Rightarrow> ParsedFrame \<Rightarrow> bool" where
  gr_data: "1 \<le> length p \<Longrightarrow> length p \<le> MAX_FRAME_PAYLOAD \<Longrightarrow> frame_grammar (0x00 # p) (PfData p)"
| gr_fin: "frame_grammar [0x01] PfFin"
| gr_reset: "frame_grammar (0x02 # u32_to_be_bytes v) (PfReset (from_wire v))"
| gr_stop: "frame_grammar (0x03 # u32_to_be_bytes v) (PfStopSending (from_wire v))"
| gr_credit: "v \<le> MAX_OFFSET \<Longrightarrow> frame_grammar (0x04 # u64_to_be_bytes v) (PfMaxStreamData v)"

inductive control_grammar :: "bytes \<Rightarrow> ControlMsg \<Rightarrow> bool" where
  gr_close: "control_grammar (0x00 # u32_to_be_bytes v) (CtlClose (from_wire v))"
| gr_hello: "limits_ok l \<Longrightarrow>
    control_grammar (0x01 # ver # u64_to_be_bytes (max_stream_data l)
       @ u64_to_be_bytes (max_data l) @ u64_to_be_bytes (max_streams l)) (CtlHello ver l)"
| gr_max_data: "v \<le> MAX_OFFSET \<Longrightarrow> control_grammar (0x02 # u64_to_be_bytes v) (CtlMaxData v)"
| gr_max_streams: "v \<le> MAX_OFFSET \<Longrightarrow> control_grammar (0x03 # u64_to_be_bytes v) (CtlMaxStreams v)"

lemmas frame_consts = MAX_WEBRTC_FRAME_SIZE_def MAX_FRAME_PAYLOAD_def
lemmas encoder_defs = encode_data_def encode_fin_def encode_code_def encode_max_stream_data_def
lemmas control_encoder_defs = encode_conn_close_def encode_hello_def encode_max_data_def
  encode_max_streams_def

lemma grammar_parses: "frame_grammar w f \<Longrightarrow> parse_frame w = Inr f"
proof (induction rule: frame_grammar.induct)
  case (gr_data p)
  then show ?case by (cases p) (auto simp: parse_frame_def frame_consts)
qed (auto simp: parse_frame_def frame_consts Let_def)

lemma parsed_in_grammar:
  assumes "parse_frame w = Inr f"
  shows "frame_grammar w f"
proof (cases w)
  case Nil
  with assms show ?thesis by (simp add: parse_frame_def)
next
  case (Cons t payload)
  have len: "length payload \<le> MAX_FRAME_PAYLOAD"
    using assms Cons by (auto simp: parse_frame_def frame_consts split: if_splits)
  consider "t = 0" | "t = 1" | "t = 2" | "t = 3" | "t = 4"
    using assms Cons by (auto simp: parse_frame_def Let_def split: if_splits)
  then show ?thesis
  proof cases
    case 1
    with assms Cons have "payload \<noteq> []" and "f = PfData payload"
      by (auto simp: parse_frame_def split: if_splits)
    with 1 Cons len show ?thesis by (cases payload) (auto intro: gr_data)
  next
    case 2
    with assms Cons show ?thesis
      by (auto simp: parse_frame_def intro: gr_fin split: if_splits)
  next
    case 3
    with assms Cons have "length payload = 4" and "f = PfReset (from_wire (u32_from_be_bytes payload))"
      by (auto simp: parse_frame_def Let_def split: if_splits)
    with 3 Cons show ?thesis using gr_reset [of "u32_from_be_bytes payload"] by simp
  next
    case 4
    with assms Cons have "length payload = 4"
      and "f = PfStopSending (from_wire (u32_from_be_bytes payload))"
      by (auto simp: parse_frame_def Let_def split: if_splits)
    with 4 Cons show ?thesis using gr_stop [of "u32_from_be_bytes payload"] by simp
  next
    case 5
    with assms Cons have "length payload = 8" and "u64_from_be_bytes payload \<le> MAX_OFFSET"
      and "f = PfMaxStreamData (u64_from_be_bytes payload)"
      by (auto simp: parse_frame_def Let_def split: if_splits)
    with 5 Cons show ?thesis using gr_credit [of "u64_from_be_bytes payload"] by simp
  qed
qed

lemma parse_frame_grammar: "parse_frame w = Inr f \<longleftrightarrow> frame_grammar w f"
  by (blast intro: grammar_parses parsed_in_grammar)

lemma encode_frame_grammar:
  assumes "frame_ok f"
  shows "frame_grammar (encode_frame f) f"
proof (cases f)
  case (PfReset c)
  then show ?thesis using gr_reset [of "to_wire c"] by (simp add: encode_code_def)
next
  case (PfStopSending c)
  then show ?thesis using gr_stop [of "to_wire c"] by (simp add: encode_code_def)
qed (use assms in \<open>auto simp: encoder_defs intro: frame_grammar.intros\<close>)

interpretation frame: codec encode_frame parse_frame frame_ok
  by unfold_locales (simp add: parse_frame_grammar encode_frame_grammar)

lemma parsed_frame_ok: "parse_frame w = Inr f \<Longrightarrow> frame_ok f"
  by (auto simp: parse_frame_grammar elim: frame_grammar.cases)

lemma parsed_frame_size: "parse_frame w = Inr f \<Longrightarrow> length w \<le> MAX_WEBRTC_FRAME_SIZE"
  by (auto simp: parse_frame_grammar frame_consts elim!: frame_grammar.cases)

lemma hello_slices:
  assumes "length a = 8" and "length b = 8" and "length c = 8"
  shows "slice (t # v # a @ b @ c) 2 10 = a" and "slice (t # v # a @ b @ c) 10 18 = b"
    and "slice (t # v # a @ b @ c) 18 26 = c"
  using assms by (simp_all add: slice_def numeral_eq_Suc)

lemma slice_tail: "length xs = n \<Longrightarrow> slice (t # xs) 1 (Suc n) = xs"
  by (simp add: slice_def)

lemma slice_tail_num [simp]:
  "length xs = 4 \<Longrightarrow> slice (t # xs) (Suc 0) 5 = xs"
  "length xs = 8 \<Longrightarrow> slice (t # xs) (Suc 0) 9 = xs"
  using slice_tail [of xs 4 t] slice_tail [of xs 8 t] by simp_all

lemma control_grammar_decodes: "control_grammar w m \<Longrightarrow> decode_control w = Inr m"
proof (induction rule: control_grammar.induct)
  case (gr_hello l ver)
  then show ?case
    by (auto simp: decode_control_def Let_def limits_ok_def hello_slices)
qed (auto simp: decode_control_def Let_def)

lemma hello_split:
  assumes "length rest = 24"
  obtains a b c where "rest = a @ b @ c" "length a = 8" "length b = 8" "length c = 8"
proof -
  have "rest = take 8 rest @ take 8 (drop 8 rest) @ drop 16 rest"
    using append_take_drop_id [of 8 rest] append_take_drop_id [of 8 "drop 8 rest"] by simp
  with assms that [of "take 8 rest" "take 8 (drop 8 rest)" "drop 16 rest"] show thesis by simp
qed

lemma decoded_hello_in_grammar:
  assumes "decode_control (1 # payload) = Inr m"
  shows "control_grammar (1 # payload) m"
proof -
  from assms have "length payload = 25"
    by (auto simp: decode_control_def Let_def split: if_splits)
  then obtain v rest where p: "payload = v # rest" and "length rest = 24"
    by (cases payload) auto
  then obtain a b c where r: "rest = a @ b @ c" and len: "length a = 8" "length b = 8" "length c = 8"
    by (blast elim: hello_split)
  define l where "l = \<lparr>max_stream_data = u64_from_be_bytes a, max_data = u64_from_be_bytes b,
                       max_streams = u64_from_be_bytes c\<rparr>"
  have "m = CtlHello v l" and ok: "limits_ok l"
    using assms len unfolding p r l_def limits_ok_def
    by (auto simp: decode_control_def Let_def hello_slices split: if_splits)
  with gr_hello [OF ok, of v] len show ?thesis by (simp add: p r l_def)
qed

lemma decoded_in_control_grammar:
  assumes "decode_control w = Inr m"
  shows "control_grammar w m"
proof (cases w)
  case Nil
  with assms show ?thesis by (simp add: decode_control_def)
next
  case (Cons t payload)
  consider "t = 0" | "t = 1" | "t = 2" | "t = 3"
    using assms Cons by (auto simp: decode_control_def Let_def split: if_splits)
  then show ?thesis
  proof cases
    case 1
    with assms Cons have "length payload = 4" by (auto simp: decode_control_def split: if_splits)
    with 1 assms Cons show ?thesis
      using gr_close [of "u32_from_be_bytes payload"] by (simp add: decode_control_def)
  next
    case 2
    with assms Cons show ?thesis by (simp add: decoded_hello_in_grammar)
  next
    case 3
    with assms Cons have "length payload = 8"
      by (auto simp: decode_control_def Let_def split: if_splits)
    with 3 assms Cons show ?thesis
      using gr_max_data [of "u64_from_be_bytes payload"]
      by (auto simp: decode_control_def Let_def split: if_splits)
  next
    case 4
    with assms Cons have "length payload = 8"
      by (auto simp: decode_control_def Let_def split: if_splits)
    with 4 assms Cons show ?thesis
      using gr_max_streams [of "u64_from_be_bytes payload"]
      by (auto simp: decode_control_def Let_def split: if_splits)
  qed
qed

lemma decode_control_grammar: "decode_control w = Inr m \<longleftrightarrow> control_grammar w m"
  by (blast intro: control_grammar_decodes decoded_in_control_grammar)

lemma encode_control_grammar:
  assumes "control_ok m"
  shows "control_grammar (encode_control m) m"
proof (cases m)
  case (CtlClose c)
  then show ?thesis using gr_close [of "to_wire c"] by (simp add: encode_conn_close_def)
qed (use assms in \<open>auto simp: control_encoder_defs intro: control_grammar.intros\<close>)

interpretation control: codec encode_control decode_control control_ok
  by unfold_locales (simp add: decode_control_grammar encode_control_grammar)

text \<open>What a decoded message guarantees to the handlers: every credit value is in range.\<close>

fun control_in_range :: "ControlMsg \<Rightarrow> bool" where
  "control_in_range (CtlHello v l) \<longleftrightarrow> limits_ok l"
| "control_in_range (CtlMaxData v) \<longleftrightarrow> v \<le> MAX_OFFSET"
| "control_in_range (CtlMaxStreams v) \<longleftrightarrow> v \<le> MAX_OFFSET"
| "control_in_range (CtlClose c) \<longleftrightarrow> True"

lemma decoded_control_in_range: "decode_control w = Inr m \<Longrightarrow> control_in_range m"
  by (auto simp: decode_control_grammar elim: control_grammar.cases)

lemma default_limits_ok [simp]: "limits_ok DEFAULT_FLOW_LIMITS"
  by (simp add: limits_ok_def DEFAULT_FLOW_LIMITS_def word_le_nat_alt push_bit_eq_mult)

end
