(* ===== verification/KpsFlow.thy ===== *)
theory KpsFlow
  imports KpsFraming
begin

text \<open>
  \<open>src/libs/rust/kps/src/flow.rs\<close>: the credit engine. One record holds what the mutex
  guards (\<open>FlowState\<close>), extended by what the engine owns beside it (\<open>ConnFlow\<close>): the
  local limits, the queue of advertisements to the control channel, and a log of the
  wake-ups given (\<open>woken\<close>, \<open>notified\<close>), so that a lost wake-up is a statement about
  states. Every method is one definition over the locked state; a blocked reservation is
  \<open>Pending\<close>.
\<close>

section \<open>State\<close>

definition sat :: "u64 \<Rightarrow> u64" where
  "sat v = min v MAX_OFFSET"

record StreamState =
  send_sent :: u64
  send_reserved :: u64
  peer_max_explicit :: u64
  send_failed :: bool
  local_max :: u64
  received :: u64
  consumed :: u64
  advertised_at :: u64
  cancelled :: bool

definition StreamState_default :: StreamState where
  "StreamState_default =
     \<lparr>send_sent = 0, send_reserved = 0, peer_max_explicit = 0, send_failed = False,
      local_max = 0, received = 0, consumed = 0, advertised_at = 0, cancelled = False\<rparr>"

record FlowState =
  failed :: "StreamError option"
  is_failed :: bool
  peer_init_stream_data :: u64
  peer_max_data :: u64
  peer_max_streams :: u64
  conn_sent :: u64
  conn_reserved :: u64
  streams_opened :: u64
  streams_reserved :: u64
  local_max_data :: u64
  conn_received :: u64
  conn_consumed :: u64
  conn_advertised_at :: u64
  peer_opened_streams :: u64
  peer_retired_streams :: u64
  advertised_max_streams :: u64
  streams :: "u64 \<rightharpoonup> StreamState"
  next_id :: u64
  wakers :: "waker list"

record ConnFlow = FlowState +
  local_limits :: FlowLimits
  advert_tx :: "bytes list"
  woken :: "waker list"
  notified :: nat

definition ConnFlow_new :: "FlowLimits \<Rightarrow> ConnFlow" where
  "ConnFlow_new l =
     \<lparr>failed = None, is_failed = False,
      peer_init_stream_data = 0, peer_max_data = 0, peer_max_streams = 0,
      conn_sent = 0, conn_reserved = 0, streams_opened = 0, streams_reserved = 0,
      local_max_data = max_data l, conn_received = 0, conn_consumed = 0,
      conn_advertised_at = 0, peer_opened_streams = 0, peer_retired_streams = 0,
      advertised_max_streams = max_streams l, streams = Map.empty, next_id = 0, wakers = [],
      local_limits = l, advert_tx = [], woken = [], notified = 0\<rparr>"

definition wake_locked :: "ConnFlow \<Rightarrow> ConnFlow" where
  "wake_locked f = f\<lparr>wakers := [], woken := woken f @ wakers f, notified := Suc (notified f)\<rparr>"

definition put_stream :: "u64 \<Rightarrow> StreamState \<Rightarrow> ConnFlow \<Rightarrow> ConnFlow" where
  "put_stream i s f = f\<lparr>streams := (streams f)(i \<mapsto> s)\<rparr>"

lemma wake_locked_simps [simp]:
  "failed (wake_locked f) = failed f"
  "is_failed (wake_locked f) = is_failed f"
  "peer_init_stream_data (wake_locked f) = peer_init_stream_data f"
  "peer_max_data (wake_locked f) = peer_max_data f"
  "peer_max_streams (wake_locked f) = peer_max_streams f"
  "conn_sent (wake_locked f) = conn_sent f"
  "conn_reserved (wake_locked f) = conn_reserved f"
  "streams_opened (wake_locked f) = streams_opened f"
  "streams_reserved (wake_locked f) = streams_reserved f"
  "local_max_data (wake_locked f) = local_max_data f"
  "conn_received (wake_locked f) = conn_received f"
  "conn_consumed (wake_locked f) = conn_consumed f"
  "conn_advertised_at (wake_locked f) = conn_advertised_at f"
  "peer_opened_streams (wake_locked f) = peer_opened_streams f"
  "peer_retired_streams (wake_locked f) = peer_retired_streams f"
  "advertised_max_streams (wake_locked f) = advertised_max_streams f"
  "streams (wake_locked f) = streams f"
  "next_id (wake_locked f) = next_id f"
  "local_limits (wake_locked f) = local_limits f"
  "advert_tx (wake_locked f) = advert_tx f"
  "wakers (wake_locked f) = []"
  "woken (wake_locked f) = woken f @ wakers f"
  "notified (wake_locked f) = Suc (notified f)"
  by (simp_all add: wake_locked_def)

lemma put_stream_simps [simp]:
  "failed (put_stream i s f) = failed f"
  "is_failed (put_stream i s f) = is_failed f"
  "peer_init_stream_data (put_stream i s f) = peer_init_stream_data f"
  "peer_max_data (put_stream i s f) = peer_max_data f"
  "peer_max_streams (put_stream i s f) = peer_max_streams f"
  "conn_sent (put_stream i s f) = conn_sent f"
  "conn_reserved (put_stream i s f) = conn_reserved f"
  "streams_opened (put_stream i s f) = streams_opened f"
  "streams_reserved (put_stream i s f) = streams_reserved f"
  "local_max_data (put_stream i s f) = local_max_data f"
  "conn_received (put_stream i s f) = conn_received f"
  "conn_consumed (put_stream i s f) = conn_consumed f"
  "conn_advertised_at (put_stream i s f) = conn_advertised_at f"
  "peer_opened_streams (put_stream i s f) = peer_opened_streams f"
  "peer_retired_streams (put_stream i s f) = peer_retired_streams f"
  "advertised_max_streams (put_stream i s f) = advertised_max_streams f"
  "next_id (put_stream i s f) = next_id f"
  "wakers (put_stream i s f) = wakers f"
  "local_limits (put_stream i s f) = local_limits f"
  "advert_tx (put_stream i s f) = advert_tx f"
  "woken (put_stream i s f) = woken f"
  "notified (put_stream i s f) = notified f"
  "streams (put_stream i s f) = (streams f)(i \<mapsto> s)"
  by (simp_all add: put_stream_def)

section \<open>Failure and the peer's limits\<close>

definition flow_fail :: "StreamError option \<Rightarrow> ConnFlow \<Rightarrow> ConnFlow" where
  "flow_fail err f =
     (if \<not> is_failed f then wake_locked (f\<lparr>is_failed := True, failed := err\<rparr>) else f)"

definition failure :: "ConnFlow \<Rightarrow> Error" where
  "failure f = (case failed f of Some se \<Rightarrow> ErrStream se | None \<Rightarrow> ErrConnClosed)"

definition on_peer_hello :: "FlowLimits \<Rightarrow> ConnFlow \<Rightarrow> ConnFlow" where
  "on_peer_hello l f =
     wake_locked (f\<lparr>peer_init_stream_data := max_stream_data l, peer_max_data := max_data l,
                    peer_max_streams := max_streams l\<rparr>)"

definition on_peer_max_data :: "u64 \<Rightarrow> ConnFlow \<Rightarrow> ConnFlow" where
  "on_peer_max_data v f =
     (if v > peer_max_data f then wake_locked (f\<lparr>peer_max_data := v\<rparr>) else f)"

definition on_peer_max_streams :: "u64 \<Rightarrow> ConnFlow \<Rightarrow> ConnFlow" where
  "on_peer_max_streams v f =
     (if v > peer_max_streams f then wake_locked (f\<lparr>peer_max_streams := v\<rparr>) else f)"

section \<open>Stream registration\<close>

definition new_stream :: "ConnFlow \<Rightarrow> u64 \<times> ConnFlow" where
  "new_stream f =
     (let i = next_id f + 1
      in (i, put_stream i (StreamState_default\<lparr>local_max := max_stream_data (local_limits f)\<rparr>)
               (f\<lparr>next_id := i\<rparr>)))"

definition drop_stream :: "u64 \<Rightarrow> ConnFlow \<Rightarrow> ConnFlow" where
  "drop_stream i f =
     (case streams f i of
        Some s \<Rightarrow> wake_locked (f\<lparr>streams := (streams f)(i := None),
                                  conn_reserved := conn_reserved f - send_reserved s\<rparr>)
      | None \<Rightarrow> f)"

section \<open>Sender: byte credit\<close>

definition poll_reserve :: "waker \<Rightarrow> u64 \<Rightarrow> u64 \<Rightarrow> ConnFlow \<Rightarrow> (Error + u64) poll \<times> ConnFlow" where
  "poll_reserve w i want f =
     (if is_failed f then (Ready (Inl (failure f)), f)
      else
        let peer_init = peer_init_stream_data f;
            conn_avail = peer_max_data f - conn_sent f - conn_reserved f
        in case streams f i of
             None \<Rightarrow> (Ready (Inl ErrStreamClosed), f)
           | Some s \<Rightarrow>
               if send_failed s then (Ready (Inl ErrStreamClosed), f)
               else
                 let peer_max = max (peer_max_explicit s) peer_init;
                     stream_avail = peer_max - send_sent s - send_reserved s;
                     grant = min (min stream_avail conn_avail) want
                 in if grant \<ge> 1
                    then (Ready (Inr grant),
                          (put_stream i (s\<lparr>send_reserved := send_reserved s + grant\<rparr>) f)
                            \<lparr>conn_reserved := conn_reserved f + grant\<rparr>)
                    else (Pending, f\<lparr>wakers := wakers f @ [w]\<rparr>))"

definition commit :: "u64 \<Rightarrow> u64 \<Rightarrow> ConnFlow \<Rightarrow> ConnFlow" where
  "commit i n f =
     (case streams f i of
        Some s \<Rightarrow> (put_stream i (s\<lparr>send_reserved := send_reserved s - n,
                                    send_sent := send_sent s + n\<rparr>) f)
                    \<lparr>conn_reserved := conn_reserved f - n, conn_sent := conn_sent f + n\<rparr>
      | None \<Rightarrow> f)"

definition release :: "u64 \<Rightarrow> u64 \<Rightarrow> ConnFlow \<Rightarrow> ConnFlow" where
  "release i n f =
     wake_locked
       (case streams f i of
          Some s \<Rightarrow> (put_stream i (s\<lparr>send_reserved := send_reserved s - n\<rparr>) f)
                      \<lparr>conn_reserved := conn_reserved f - n\<rparr>
        | None \<Rightarrow> f)"

definition fail_send :: "u64 \<Rightarrow> ConnFlow \<Rightarrow> ConnFlow" where
  "fail_send i f =
     (case streams f i of
        Some s \<Rightarrow> if \<not> send_failed s
                  then wake_locked (put_stream i (s\<lparr>send_failed := True\<rparr>) f) else f
      | None \<Rightarrow> f)"

definition on_peer_max_stream_data :: "u64 \<Rightarrow> u64 \<Rightarrow> ConnFlow \<Rightarrow> ConnFlow" where
  "on_peer_max_stream_data i v f =
     (case streams f i of
        Some s \<Rightarrow> if v > peer_max_explicit s
                  then wake_locked (put_stream i (s\<lparr>peer_max_explicit := v\<rparr>) f) else f
      | None \<Rightarrow> f)"

section \<open>Sender: stream slots\<close>

text \<open>One pass of the waiting loop; \<open>Pending\<close> is the wait for the next notification.\<close>

definition reserve_stream_slot :: "ConnFlow \<Rightarrow> (Error + unit) poll \<times> ConnFlow" where
  "reserve_stream_slot f =
     (if is_failed f then (Ready (Inl (failure f)), f)
      else if streams_opened f + streams_reserved f < peer_max_streams f
      then (Ready (Inr ()), f\<lparr>streams_reserved := streams_reserved f + 1\<rparr>)
      else (Pending, f))"

definition commit_stream_slot :: "ConnFlow \<Rightarrow> ConnFlow" where
  "commit_stream_slot f =
     f\<lparr>streams_reserved := streams_reserved f - 1, streams_opened := streams_opened f + 1\<rparr>"

definition release_stream_slot :: "ConnFlow \<Rightarrow> ConnFlow" where
  "release_stream_slot f = wake_locked (f\<lparr>streams_reserved := streams_reserved f - 1\<rparr>)"

section \<open>Receiver: byte credit\<close>

definition on_data_received :: "u64 \<Rightarrow> u64 \<Rightarrow> ConnFlow \<Rightarrow> (string + unit) \<times> ConnFlow" where
  "on_data_received i n f =
     (case streams f i of
        None \<Rightarrow> (Inr (), f)
      | Some s \<Rightarrow>
          if received s + n > local_max s then (Inl ''peer exceeded MAX_STREAM_DATA'', f)
          else if conn_received f + n > local_max_data f then (Inl ''peer exceeded MAX_DATA'', f)
          else (Inr (), (put_stream i (s\<lparr>received := received s + n\<rparr>) f)
                          \<lparr>conn_received := conn_received f + n\<rparr>))"

text \<open>The stream's half of \<open>on_consumed\<close>: the counters, and the advertisement if it is due.\<close>

definition consume_stream :: "u64 \<Rightarrow> u64 \<Rightarrow> StreamState \<Rightarrow> u64 option \<times> StreamState" where
  "consume_stream window n s =
     (let s1 = s\<lparr>consumed := consumed s + n\<rparr>
      in if \<not> cancelled s1 \<and> consumed s1 - advertised_at s1 \<ge> window div 2
         then let s2 = s1\<lparr>advertised_at := consumed s1, local_max := sat (consumed s1 + window)\<rparr>
              in (Some (local_max s2), s2)
         else (None, s1))"

text \<open>The connection's half.\<close>

definition consume_conn :: "u64 \<Rightarrow> ConnFlow \<Rightarrow> ConnFlow" where
  "consume_conn n f =
     (let f1 = f\<lparr>conn_consumed := conn_consumed f + n\<rparr>
      in if conn_consumed f1 - conn_advertised_at f1 \<ge> max_data (local_limits f1) div 2
         then let f2 = f1\<lparr>conn_advertised_at := conn_consumed f1,
                          local_max_data := sat (conn_consumed f1 + max_data (local_limits f1))\<rparr>
              in f2\<lparr>advert_tx := advert_tx f2 @ [encode_max_data (local_max_data f2)]\<rparr>
         else f1)"

definition on_consumed :: "u64 \<Rightarrow> u64 \<Rightarrow> ConnFlow \<Rightarrow> u64 option \<times> ConnFlow" where
  "on_consumed i n f =
     (case streams f i of
        Some s \<Rightarrow> (let (adv, s') = consume_stream (max_stream_data (local_limits f)) n s
                   in (adv, consume_conn n (put_stream i s' f)))
      | None \<Rightarrow> (None, consume_conn n f))"

definition mark_cancelled :: "u64 \<Rightarrow> ConnFlow \<Rightarrow> ConnFlow" where
  "mark_cancelled i f =
     (case streams f i of
        Some s \<Rightarrow> put_stream i (s\<lparr>cancelled := True\<rparr>) f
      | None \<Rightarrow> f)"

section \<open>Receiver: stream count\<close>

definition peer_stream_opened :: "ConnFlow \<Rightarrow> (string + unit) \<times> ConnFlow" where
  "peer_stream_opened f =
     (if peer_opened_streams f \<ge> advertised_max_streams f
      then (Inl ''peer exceeded MAX_STREAMS'', f)
      else (Inr (), f\<lparr>peer_opened_streams := peer_opened_streams f + 1\<rparr>))"

definition peer_stream_retired :: "ConnFlow \<Rightarrow> ConnFlow" where
  "peer_stream_retired f =
     (let f1 = f\<lparr>peer_retired_streams := peer_retired_streams f + 1\<rparr>;
          f2 = f1\<lparr>advertised_max_streams :=
                    sat (max_streams (local_limits f1) + peer_retired_streams f1)\<rparr>
      in f2\<lparr>advert_tx := advert_tx f2 @ [encode_max_streams (advertised_max_streams f2)]\<rparr>)"

end
