(* ===== verification/KpsFlowInv.thy ===== *)
theory KpsFlowInv
  imports KpsFlow
begin

text \<open>
  The invariant of the credit engine and its preservation by every method. The engine's
  calls are the events of one machine (\<open>flow_step\<close>), with the callers' contract as its
  guard (\<open>flow_guard\<close>); \<open>flow_inv\<close> has a sender part, a receiver part and a part on
  stream counts, each stated over the naturals so that it also says that no counter of
  the engine ever wraps.
\<close>

section \<open>Invariant\<close>

text \<open>The peer's effective window for a stream, and the sender's obligations.\<close>

definition eff_max :: "ConnFlow \<Rightarrow> StreamState \<Rightarrow> u64" where
  "eff_max f s = max (peer_max_explicit s) (peer_init_stream_data f)"

definition send_stream_ok :: "ConnFlow \<Rightarrow> StreamState \<Rightarrow> bool" where
  "send_stream_ok f s \<longleftrightarrow>
     unat (send_sent s) + unat (send_reserved s) \<le> unat (eff_max f s)
     \<and> peer_max_explicit s \<le> MAX_OFFSET"

definition send_inv :: "ConnFlow \<Rightarrow> bool" where
  "send_inv f \<longleftrightarrow>
     finite (dom (streams f))
     \<and> peer_init_stream_data f \<le> MAX_OFFSET \<and> peer_max_data f \<le> MAX_OFFSET
     \<and> unat (conn_sent f) + unat (conn_reserved f) \<le> unat (peer_max_data f)
     \<and> (\<forall>i s. streams f i = Some s \<longrightarrow> send_stream_ok f s)
     \<and> map_total (\<lambda>s. unat (send_reserved s)) (streams f) = unat (conn_reserved f)"

text \<open>
  The receiver: what was received stays within the enforced limit, the limit is the last
  advertised offset plus the window, and what is consumed but not yet advertised stays
  below half a window.
\<close>

definition recv_stream_ok :: "u64 \<Rightarrow> StreamState \<Rightarrow> bool" where
  "recv_stream_ok window s \<longleftrightarrow>
     received s \<le> local_max s \<and> consumed s \<le> received s \<and> advertised_at s \<le> consumed s
     \<and> local_max s = sat (advertised_at s + window)
     \<and> (cancelled s \<or> unat (consumed s) - unat (advertised_at s) < max 1 (unat window div 2))"

definition unread :: "StreamState \<Rightarrow> nat" where
  "unread s = unat (received s) - unat (consumed s)"

definition recv_inv :: "ConnFlow \<Rightarrow> bool" where
  "recv_inv f \<longleftrightarrow>
     finite (dom (streams f)) \<and> limits_ok (local_limits f)
     \<and> conn_received f \<le> local_max_data f \<and> conn_advertised_at f \<le> conn_consumed f
     \<and> local_max_data f = sat (conn_advertised_at f + max_data (local_limits f))
     \<and> unat (conn_consumed f) - unat (conn_advertised_at f)
         < max 1 (unat (max_data (local_limits f)) div 2)
     \<and> unat (conn_consumed f) + map_total unread (streams f) \<le> unat (conn_received f)
     \<and> (\<forall>i s. streams f i = Some s \<longrightarrow> recv_stream_ok (max_stream_data (local_limits f)) s)"

definition count_inv :: "ConnFlow \<Rightarrow> bool" where
  "count_inv f \<longleftrightarrow>
     limits_ok (local_limits f) \<and> peer_max_streams f \<le> MAX_OFFSET
     \<and> unat (streams_opened f) + unat (streams_reserved f) \<le> unat (peer_max_streams f)
     \<and> peer_retired_streams f \<le> peer_opened_streams f
     \<and> peer_opened_streams f \<le> advertised_max_streams f
     \<and> advertised_max_streams f = sat (max_streams (local_limits f) + peer_retired_streams f)
     \<and> (\<forall>i s. streams f i = Some s \<longrightarrow> i \<le> next_id f)"

definition flow_inv :: "ConnFlow \<Rightarrow> bool" where
  "flow_inv f \<longleftrightarrow> send_inv f \<and> recv_inv f \<and> count_inv f"

section \<open>The engine as a machine\<close>

datatype flow_op =
    FlFail "StreamError option"
  | FlPeerHello FlowLimits
  | FlPeerMaxData u64
  | FlPeerMaxStreams u64
  | FlNewStream
  | FlDropStream u64
  | FlPollReserve waker u64 u64
  | FlCommit u64 u64
  | FlRelease u64 u64
  | FlFailSend u64
  | FlPeerMaxStreamData u64 u64
  | FlReserveSlot
  | FlCommitSlot
  | FlReleaseSlot
  | FlDataReceived u64 u64
  | FlConsumed u64 u64
  | FlMarkCancelled u64
  | FlPeerOpened
  | FlPeerRetired

fun flow_step :: "ConnFlow \<Rightarrow> flow_op \<Rightarrow> ConnFlow" where
  "flow_step f (FlFail e) = flow_fail e f"
| "flow_step f (FlPeerHello l) = on_peer_hello l f"
| "flow_step f (FlPeerMaxData v) = on_peer_max_data v f"
| "flow_step f (FlPeerMaxStreams v) = on_peer_max_streams v f"
| "flow_step f FlNewStream = snd (new_stream f)"
| "flow_step f (FlDropStream i) = drop_stream i f"
| "flow_step f (FlPollReserve w i n) = snd (poll_reserve w i n f)"
| "flow_step f (FlCommit i n) = commit i n f"
| "flow_step f (FlRelease i n) = release i n f"
| "flow_step f (FlFailSend i) = fail_send i f"
| "flow_step f (FlPeerMaxStreamData i v) = on_peer_max_stream_data i v f"
| "flow_step f FlReserveSlot = snd (reserve_stream_slot f)"
| "flow_step f FlCommitSlot = commit_stream_slot f"
| "flow_step f FlReleaseSlot = release_stream_slot f"
| "flow_step f (FlDataReceived i n) = snd (on_data_received i n f)"
| "flow_step f (FlConsumed i n) = snd (on_consumed i n f)"
| "flow_step f (FlMarkCancelled i) = mark_cancelled i f"
| "flow_step f FlPeerOpened = snd (peer_stream_opened f)"
| "flow_step f FlPeerRetired = peer_stream_retired f"

text \<open>
  The callers' contract: decoded credit is in range, HELLO comes first and once, a
  commit or release gives back what was reserved, consumption follows reception, and a
  stream retires once.
\<close>

fun flow_guard :: "ConnFlow \<Rightarrow> flow_op \<Rightarrow> bool" where
  "flow_guard f (FlPeerHello l) \<longleftrightarrow>
     limits_ok l \<and> peer_init_stream_data f = 0 \<and> peer_max_data f = 0 \<and> peer_max_streams f = 0"
| "flow_guard f (FlPeerMaxData v) \<longleftrightarrow> v \<le> MAX_OFFSET"
| "flow_guard f (FlPeerMaxStreams v) \<longleftrightarrow> v \<le> MAX_OFFSET"
| "flow_guard f (FlPeerMaxStreamData i v) \<longleftrightarrow> v \<le> MAX_OFFSET"
| "flow_guard f FlNewStream \<longleftrightarrow> next_id f < 18446744073709551615"
| "flow_guard f (FlCommit i n) \<longleftrightarrow>
     (case streams f i of Some s \<Rightarrow> n \<le> send_reserved s | None \<Rightarrow> True)"
| "flow_guard f (FlRelease i n) \<longleftrightarrow>
     (case streams f i of Some s \<Rightarrow> n \<le> send_reserved s | None \<Rightarrow> True)"
| "flow_guard f FlCommitSlot \<longleftrightarrow> 0 < streams_reserved f"
| "flow_guard f FlReleaseSlot \<longleftrightarrow> 0 < streams_reserved f"
| "flow_guard f (FlDataReceived i n) \<longleftrightarrow> unat n \<le> MAX_FRAME_PAYLOAD"
| "flow_guard f (FlConsumed i n) \<longleftrightarrow>
     (case streams f i of
        Some s \<Rightarrow> unat (consumed s) + unat n \<le> unat (received s)
      | None \<Rightarrow> unat (conn_consumed f) + unat n + map_total unread (streams f)
                 \<le> unat (conn_received f))"
| "flow_guard f FlPeerRetired \<longleftrightarrow> peer_retired_streams f < peer_opened_streams f"
| "flow_guard f _ \<longleftrightarrow> True"

section \<open>What each part of the invariant does not depend on\<close>

lemma sat_unat [u64_simps]: "unat (sat v) = min (unat v) 4611686018427387903"
  by (simp add: sat_def unat_min_word)

lemma send_inv_frame [simp]:
  "send_inv (f\<lparr>local_max_data := a\<rparr>) = send_inv f"
  "send_inv (f\<lparr>conn_received := a\<rparr>) = send_inv f"
  "send_inv (f\<lparr>conn_consumed := a\<rparr>) = send_inv f"
  "send_inv (f\<lparr>conn_advertised_at := a\<rparr>) = send_inv f"
  "send_inv (f\<lparr>peer_opened_streams := a\<rparr>) = send_inv f"
  "send_inv (f\<lparr>peer_retired_streams := a\<rparr>) = send_inv f"
  "send_inv (f\<lparr>advertised_max_streams := a\<rparr>) = send_inv f"
  "send_inv (f\<lparr>streams_opened := a\<rparr>) = send_inv f"
  "send_inv (f\<lparr>streams_reserved := a\<rparr>) = send_inv f"
  "send_inv (f\<lparr>peer_max_streams := a\<rparr>) = send_inv f"
  "send_inv (f\<lparr>next_id := a\<rparr>) = send_inv f"
  "send_inv (f\<lparr>wakers := ws\<rparr>) = send_inv f"
  "send_inv (f\<lparr>advert_tx := q\<rparr>) = send_inv f"
  "send_inv (f\<lparr>is_failed := b\<rparr>) = send_inv f"
  "send_inv (f\<lparr>failed := e\<rparr>) = send_inv f"
  "send_inv (wake_locked f) = send_inv f"
  by (simp_all add: send_inv_def send_stream_ok_def eff_max_def wake_locked_def)

lemma recv_inv_frame [simp]:
  "recv_inv (f\<lparr>conn_sent := a\<rparr>) = recv_inv f"
  "recv_inv (f\<lparr>conn_reserved := a\<rparr>) = recv_inv f"
  "recv_inv (f\<lparr>peer_init_stream_data := a\<rparr>) = recv_inv f"
  "recv_inv (f\<lparr>peer_max_data := a\<rparr>) = recv_inv f"
  "recv_inv (f\<lparr>peer_opened_streams := a\<rparr>) = recv_inv f"
  "recv_inv (f\<lparr>peer_retired_streams := a\<rparr>) = recv_inv f"
  "recv_inv (f\<lparr>advertised_max_streams := a\<rparr>) = recv_inv f"
  "recv_inv (f\<lparr>streams_opened := a\<rparr>) = recv_inv f"
  "recv_inv (f\<lparr>streams_reserved := a\<rparr>) = recv_inv f"
  "recv_inv (f\<lparr>peer_max_streams := a\<rparr>) = recv_inv f"
  "recv_inv (f\<lparr>next_id := a\<rparr>) = recv_inv f"
  "recv_inv (f\<lparr>wakers := ws\<rparr>) = recv_inv f"
  "recv_inv (f\<lparr>advert_tx := q\<rparr>) = recv_inv f"
  "recv_inv (f\<lparr>is_failed := b\<rparr>) = recv_inv f"
  "recv_inv (f\<lparr>failed := e\<rparr>) = recv_inv f"
  "recv_inv (wake_locked f) = recv_inv f"
  by (simp_all add: recv_inv_def wake_locked_def)

lemma count_inv_frame [simp]:
  "count_inv (f\<lparr>conn_sent := a\<rparr>) = count_inv f"
  "count_inv (f\<lparr>conn_reserved := a\<rparr>) = count_inv f"
  "count_inv (f\<lparr>peer_init_stream_data := a\<rparr>) = count_inv f"
  "count_inv (f\<lparr>peer_max_data := a\<rparr>) = count_inv f"
  "count_inv (f\<lparr>local_max_data := a\<rparr>) = count_inv f"
  "count_inv (f\<lparr>conn_received := a\<rparr>) = count_inv f"
  "count_inv (f\<lparr>conn_consumed := a\<rparr>) = count_inv f"
  "count_inv (f\<lparr>conn_advertised_at := a\<rparr>) = count_inv f"
  "count_inv (f\<lparr>wakers := ws\<rparr>) = count_inv f"
  "count_inv (f\<lparr>advert_tx := q\<rparr>) = count_inv f"
  "count_inv (f\<lparr>is_failed := b\<rparr>) = count_inv f"
  "count_inv (f\<lparr>failed := e\<rparr>) = count_inv f"
  "count_inv (wake_locked f) = count_inv f"
  by (simp_all add: count_inv_def wake_locked_def)

lemma send_inv_put:
  assumes "streams f i = Some s" and "send_inv f"
    and "send_stream_ok f s'" and "send_reserved s' = send_reserved s"
  shows "send_inv (put_stream i s' f)"
  using assms by (auto simp: send_inv_def put_stream_def send_stream_ok_def eff_max_def map_total_same)

lemma recv_inv_put:
  assumes "streams f i = Some s" and "recv_inv f"
    and "recv_stream_ok (max_stream_data (local_limits f)) s'" and "unread s' = unread s"
  shows "recv_inv (put_stream i s' f)"
  using assms by (auto simp: recv_inv_def put_stream_def map_total_same)

lemma count_inv_put:
  assumes "streams f i = Some s" and "count_inv f"
  shows "count_inv (put_stream i s' f)"
  using assms by (auto simp: count_inv_def put_stream_def)


section \<open>The sender's part\<close>

text \<open>Replacing one stream's record together with the connection's send counters.\<close>

lemma send_inv_put_counters:
  assumes "streams f i = Some s" and inv: "send_inv f" and "send_stream_ok f s'"
    and "unat r + unat (send_reserved s) = unat (conn_reserved f) + unat (send_reserved s')"
    and "unat c + unat r \<le> unat (peer_max_data f)"
  shows "send_inv ((put_stream i s' f)\<lparr>conn_reserved := r, conn_sent := c\<rparr>)"
proof -
  have "map_total (\<lambda>s. unat (send_reserved s)) ((streams f)(i \<mapsto> s')) = unat r"
    using map_total_update [of "streams f" i s "\<lambda>s. unat (send_reserved s)" s'] assms
    by (simp add: send_inv_def)
  with assms show ?thesis
    by (auto simp: send_inv_def send_stream_ok_def eff_max_def put_stream_def)
qed

lemma send_inv_put_reserved:
  assumes "streams f i = Some s" and "send_inv f" and "send_stream_ok f s'"
    and "unat r + unat (send_reserved s) = unat (conn_reserved f) + unat (send_reserved s')"
    and "unat (conn_sent f) + unat r \<le> unat (peer_max_data f)"
  shows "send_inv ((put_stream i s' f)\<lparr>conn_reserved := r\<rparr>)"
proof -
  have "(put_stream i s' f)\<lparr>conn_reserved := r, conn_sent := conn_sent f\<rparr>
          = (put_stream i s' f)\<lparr>conn_reserved := r\<rparr>"
    by (cases f) (simp add: put_stream_def)
  with send_inv_put_counters [OF assms] show ?thesis by simp
qed

lemma send_inv_stream:
  assumes "send_inv f" and "streams f i = Some s"
  shows "send_stream_ok f s" and "unat (send_reserved s) \<le> unat (conn_reserved f)"
  using assms map_total_member [of "streams f" i s "\<lambda>s. unat (send_reserved s)"]
  by (auto simp: send_inv_def)

lemma eff_max_bound: "send_inv f \<Longrightarrow> send_stream_ok f s \<Longrightarrow> unat (eff_max f s) \<le> 4611686018427387903"
  by (auto simp: send_inv_def send_stream_ok_def eff_max_def u64_simps)

lemma send_inv_fail [intro]: "send_inv f \<Longrightarrow> send_inv (flow_fail e f)"
  by (simp add: flow_fail_def)

lemma send_inv_hello:
  assumes "send_inv f" "flow_guard f (FlPeerHello l)"
  shows "send_inv (on_peer_hello l f)"
  using assms
  by (auto simp: on_peer_hello_def send_inv_def limits_ok_def 
     send_stream_ok_def eff_max_def u64_simps max.coboundedI1)

lemma send_inv_max_data:
  assumes "send_inv f" "v \<le> MAX_OFFSET"
  shows "send_inv (on_peer_max_data v f)"
  using assms by (auto simp: on_peer_max_data_def send_inv_def send_stream_ok_def eff_max_def u64_simps)

lemma send_inv_new_stream:
  assumes "send_inv f" "count_inv f" "next_id f < 18446744073709551615"
  shows "send_inv (snd (new_stream f))"
proof -
  have "unat (next_id f + 1) = unat (next_id f) + 1"
    using assms(3) by (simp add: nowrap u64_simps)
  then have "streams f (next_id f + 1) = None"
    using assms(2) by (cases "streams f (next_id f + 1)") (auto simp: count_inv_def u64_simps)
  with assms show ?thesis
    by (auto simp: new_stream_def Let_def send_inv_def put_stream_def StreamState_default_def
        send_stream_ok_def eff_max_def map_total_insert)
qed

lemma send_inv_drop:
  assumes "send_inv f"
  shows "send_inv (drop_stream i f)"
proof (cases "streams f i")
  case None
  with assms show ?thesis by (simp add: drop_stream_def)
next
  case (Some s)
  with assms map_total_delete [of "streams f" i s "\<lambda>s. unat (send_reserved s)"]
  show ?thesis
    by (auto simp: drop_stream_def send_inv_def send_stream_ok_def eff_max_def unat_sub_exact)
qed


text \<open>What a live reservation is granted.\<close>

definition reserve_grant :: "ConnFlow \<Rightarrow> StreamState \<Rightarrow> u64 \<Rightarrow> u64" where
  "reserve_grant f s want =
     min (min (eff_max f s - send_sent s - send_reserved s)
              (peer_max_data f - conn_sent f - conn_reserved f)) want"

lemma poll_reserve_live:
  assumes "\<not> is_failed f" "streams f i = Some s" "\<not> send_failed s"
  shows "poll_reserve w i want f =
           (let g = reserve_grant f s want in
            if g \<ge> 1
            then (Ready (Inr g),
                  (put_stream i (s\<lparr>send_reserved := send_reserved s + g\<rparr>) f)
                    \<lparr>conn_reserved := conn_reserved f + g\<rparr>)
            else (Pending, f\<lparr>wakers := wakers f @ [w]\<rparr>))"
  using assms by (simp add: poll_reserve_def Let_def reserve_grant_def eff_max_def)

lemma poll_reserve_dead:
  "\<not> (\<not> is_failed f \<and> (\<exists>s. streams f i = Some s \<and> \<not> send_failed s)) \<Longrightarrow>
   snd (poll_reserve w i want f) = f"
  by (auto simp: poll_reserve_def Let_def split: option.splits)

lemma reserve_grant_unat:
  assumes inv: "send_inv f" and s: "streams f i = Some s"
  shows "unat (reserve_grant f s want) =
           min (min (unat (eff_max f s) - unat (send_sent s) - unat (send_reserved s))
             (unat (peer_max_data f) - unat (conn_sent f) - unat (conn_reserved f))) (unat want)"
    and "unat (send_sent s) + unat (send_reserved s) + unat (reserve_grant f s want) \<le> unat (eff_max f s)"
    and "unat (conn_sent f) + unat (conn_reserved f) + unat (reserve_grant f s want) \<le> unat (peer_max_data f)"
proof -
  have a: "unat (send_sent s) + unat (send_reserved s) \<le> unat (eff_max f s)"
    and b: "unat (conn_sent f) + unat (conn_reserved f) \<le> unat (peer_max_data f)"
    using send_inv_stream [OF inv s] inv by (auto simp: send_stream_ok_def send_inv_def)
  have "unat (eff_max f s - send_sent s - send_reserved s)
          = unat (eff_max f s) - unat (send_sent s) - unat (send_reserved s)"
    using a by (simp add: nowrap)
  moreover have "unat (peer_max_data f - conn_sent f - conn_reserved f)
          = unat (peer_max_data f) - unat (conn_sent f) - unat (conn_reserved f)"
    using b by (simp add: nowrap)
  ultimately show g: "unat (reserve_grant f s want) =
      min (min (unat (eff_max f s) - unat (send_sent s) - unat (send_reserved s))
             (unat (peer_max_data f) - unat (conn_sent f) - unat (conn_reserved f))) (unat want)"
    by (simp add: reserve_grant_def u64_simps)
  show "unat (send_sent s) + unat (send_reserved s) + unat (reserve_grant f s want) \<le> unat (eff_max f s)"
    and "unat (conn_sent f) + unat (conn_reserved f) + unat (reserve_grant f s want) \<le> unat (peer_max_data f)"
    using a b unfolding g by linarith+
qed

lemma send_inv_conn_bound: "send_inv f \<Longrightarrow> unat (conn_sent f) + unat (conn_reserved f) \<le> unat (peer_max_data f)
   \<and> unat (peer_max_data f) \<le> 4611686018427387903"
  by (auto simp: send_inv_def u64_simps)

lemma send_inv_reserve:
  assumes inv: "send_inv f"
  shows "send_inv (snd (poll_reserve w i want f))"
proof (cases "\<not> is_failed f \<and> (\<exists>s. streams f i = Some s \<and> \<not> send_failed s)")
  case False
  with inv show ?thesis by (simp add: poll_reserve_dead)
next
  case True
  then obtain s where s: "streams f i = Some s" and live: "\<not> is_failed f" "\<not> send_failed s" by blast
  let ?g = "reserve_grant f s want"
  let ?s' = "s\<lparr>send_reserved := send_reserved s + ?g\<rparr>"
  note gr = reserve_grant_unat [OF inv s, of want]
  have sok: "send_stream_ok f s" using send_inv_stream [OF inv s] by simp
  have "unat (send_reserved s + ?g) = unat (send_reserved s) + unat ?g"
    using gr(2) eff_max_bound [OF inv sok] by (simp add: nowrap)
  moreover have "unat (conn_reserved f + ?g) = unat (conn_reserved f) + unat ?g"
    using gr(3) send_inv_conn_bound [OF inv] by (simp add: nowrap)
  ultimately have "send_inv ((put_stream i ?s' f)\<lparr>conn_reserved := conn_reserved f + ?g\<rparr>)"
    using sok gr(2,3) by (intro send_inv_put_reserved [OF s inv]) (simp_all add: send_stream_ok_def eff_max_def)
  then show ?thesis
    using inv by (simp add: poll_reserve_live [OF live(1) s live(2)] Let_def)
qed

lemma send_inv_commit:
  assumes inv: "send_inv f" and "flow_guard f (FlCommit i n)"
  shows "send_inv (commit i n f)"
proof (cases "streams f i")
  case None
  with inv show ?thesis by (simp add: commit_def)
next
  case (Some s)
  have n: "unat n \<le> unat (send_reserved s)" using assms(2) Some by (simp add: u64_simps)
  note st = send_inv_stream [OF inv Some]
  have "unat (send_sent s + n) = unat (send_sent s) + unat n"
    using n st eff_max_bound [OF inv st(1)] by (simp add: nowrap send_stream_ok_def)
  moreover have "unat (conn_sent f + n) = unat (conn_sent f) + unat n"
    using n st send_inv_conn_bound [OF inv] by (simp add: nowrap)
  ultimately have "send_inv ((put_stream i (s\<lparr>send_reserved := send_reserved s - n,
      send_sent := send_sent s + n\<rparr>) f)
        \<lparr>conn_reserved := conn_reserved f - n, conn_sent := conn_sent f + n\<rparr>)"
    using n st send_inv_conn_bound [OF inv]
    by (intro send_inv_put_counters [OF Some inv])
       (auto simp: send_stream_ok_def eff_max_def unat_sub_exact)
  then show ?thesis using Some by (simp add: commit_def)
qed

lemma send_inv_release:
  assumes inv: "send_inv f" and "flow_guard f (FlRelease i n)"
  shows "send_inv (release i n f)"
proof (cases "streams f i")
  case None
  with inv show ?thesis by (simp add: release_def)
next
  case (Some s)
  have n: "unat n \<le> unat (send_reserved s)" using assms(2) Some by (simp add: u64_simps)
  note st = send_inv_stream [OF inv Some]
  have "send_inv ((put_stream i (s\<lparr>send_reserved := send_reserved s - n\<rparr>) f)
     \<lparr>conn_reserved := conn_reserved f - n\<rparr>)"
    using n st send_inv_conn_bound [OF inv] 
    by (intro send_inv_put_reserved [OF Some inv])
       (auto simp: send_stream_ok_def eff_max_def unat_sub_exact)
  then show ?thesis using Some by (simp add: release_def)
qed

lemma send_inv_fail_send: "send_inv f \<Longrightarrow> send_inv (fail_send i f)"
  by (auto simp: fail_send_def send_stream_ok_def eff_max_def
      intro!: send_inv_put dest: send_inv_stream split: option.splits)

lemma send_inv_max_stream_data:
  "send_inv f \<Longrightarrow> v \<le> MAX_OFFSET \<Longrightarrow> send_inv (on_peer_max_stream_data i v f)"
  by (auto simp: on_peer_max_stream_data_def send_stream_ok_def eff_max_def u64_simps
      intro!: send_inv_put dest: send_inv_stream split: option.splits)

section \<open>The receiver's part\<close>

lemma unat_window_sum:
  "unat (a :: u64) \<le> 4611686018427387903 \<Longrightarrow> unat b \<le> 4611686018427387903 \<Longrightarrow>
   unat (a + b) = unat a + unat b"
  by (simp add: nowrap)

lemma recv_stream_bounds:
  assumes "recv_stream_ok w s"
  shows "unat (received s) \<le> 4611686018427387903" "unat (consumed s) \<le> unat (received s)"
    "unat (advertised_at s) \<le> unat (consumed s)" "unat (received s) \<le> unat (local_max s)"
  using assms by (auto simp: recv_stream_ok_def u64_simps)

lemma recv_inv_bounds:
  assumes "recv_inv f"
  shows "unat (conn_received f) \<le> 4611686018427387903"
    "unat (conn_consumed f) \<le> unat (conn_received f)"
    "unat (conn_advertised_at f) \<le> unat (conn_consumed f)"
    "unat (max_data (local_limits f)) \<le> 4611686018427387903"
    "unat (max_stream_data (local_limits f)) \<le> 4611686018427387903"
  using assms by (auto simp: recv_inv_def limits_ok_def u64_simps)

text \<open>Consuming \<open>n\<close> received bytes keeps a stream's part and takes \<open>n\<close> off its unread bytes.\<close>

lemma consume_stream_ok:
  assumes ok: "recv_stream_ok w s" and n: "unat (consumed s) + unat n \<le> unat (received s)"
    and w: "unat w \<le> 4611686018427387903" and c: "consume_stream w n s = (adv, s')"
  shows "recv_stream_ok w s'" and "unread s' = unread s - unat n" and "unat n \<le> unread s"
    and "received s' = received s"
proof -
  note b = recv_stream_bounds [OF ok]
  have cn: "unat (consumed s + n) = unat (consumed s) + unat n"
    using n b by (simp add: nowrap)
  have d: "unat (consumed s + n - advertised_at s) = unat (consumed s) + unat n - unat (advertised_at s)"
    using b cn by (simp add: unat_sub_exact)
  show "received s' = received s"
    using c by (auto simp: consume_stream_def Let_def split: if_splits)
  show "unread s' = unread s - unat n"
    using c cn by (auto simp: consume_stream_def Let_def unread_def split: if_splits)
  show "unat n \<le> unread s" using n by (simp add: unread_def)
  have adv_le: "unat (local_max s) \<le> min (unat (consumed s) + unat n + unat w) 4611686018427387903"
    using ok b w by (auto simp: recv_stream_ok_def u64_simps unat_window_sum)
  have cw: "unat (consumed s + n + w) = unat (consumed s) + unat n + unat w"
    using n b w by (subst unat_window_sum) (simp_all add: cn)
  show "recv_stream_ok w s'"
  proof (cases "\<not> cancelled s \<and> consumed s + n - advertised_at s \<ge> w div 2")
    case True
    then have "s' = s\<lparr>consumed := consumed s + n, advertised_at := consumed s + n,
                      local_max := sat (consumed s + n + w)\<rparr>"
      using c by (simp add: consume_stream_def Let_def)
    then show ?thesis
      using n b adv_le by (simp add: recv_stream_ok_def u64_simps cn cw less_max_iff_disj)
  next
    case False
    then have "s' = s\<lparr>consumed := consumed s + n\<rparr>"
      using c by (auto simp: consume_stream_def Let_def split: if_splits)
    moreover have "cancelled s \<or> unat (consumed s) + unat n - unat (advertised_at s) < unat w div 2"
      using False d by (auto simp: u64_simps not_le)
    ultimately show ?thesis
      using ok n b by (auto simp: recv_stream_ok_def u64_simps cn)
  qed
qed

lemma recv_inv_consume_conn:
  assumes "recv_inv f" and "unat (conn_consumed f) + unat n + map_total unread (streams f) \<le> unat (conn_received f)"
  shows "recv_inv (consume_conn n f)"
proof -
  note b = recv_inv_bounds [OF assms(1)]
  let ?w = "max_data (local_limits f)"
  have cn: "unat (conn_consumed f + n) = unat (conn_consumed f) + unat n"
    using assms(2) b by (simp add: nowrap)
  have d: "unat (conn_consumed f + n - conn_advertised_at f)
             = unat (conn_consumed f) + unat n - unat (conn_advertised_at f)"
    using b cn by (simp add: unat_sub_exact)
  have old: "unat (conn_received f) \<le> min (unat (conn_consumed f) + unat n + unat ?w) 4611686018427387903"
    using assms(1) b by (auto simp: recv_inv_def u64_simps unat_window_sum)
  have cw: "unat (conn_consumed f + n + ?w) = unat (conn_consumed f) + unat n + unat ?w"
    using assms(2) b by (subst unat_window_sum) (simp_all add: cn)
  show ?thesis
  proof (cases "conn_consumed f + n - conn_advertised_at f \<ge> ?w div 2")
    case True
    then show ?thesis
      using assms old by (auto simp: consume_conn_def Let_def recv_inv_def u64_simps cn cw)
  next
    case False
    then have "unat (conn_consumed f) + unat n - unat (conn_advertised_at f) < unat ?w div 2"
      using d by (simp add: u64_simps)
    with False show ?thesis
      using assms b by (auto simp: consume_conn_def Let_def recv_inv_def u64_simps cn)
  qed
qed

lemma map_total_unread_put:
  assumes "finite (dom (streams f))" "streams f i = Some s"
  shows "map_total unread ((streams f)(i \<mapsto> s')) + unread s = map_total unread (streams f) + unread s'"
  using map_total_update [OF assms, of unread s'] .

lemma recv_inv_stream: "recv_inv f \<Longrightarrow> streams f i = Some s \<Longrightarrow> recv_stream_ok (max_stream_data (local_limits f)) s"
  by (simp add: recv_inv_def)

lemma recv_inv_consumed:
  assumes inv: "recv_inv f" and g: "flow_guard f (FlConsumed i n)"
  shows "recv_inv (snd (on_consumed i n f))"
proof (cases "streams f i")
  case None
  with assms show ?thesis by (simp add: on_consumed_def recv_inv_consume_conn)
next
  case (Some s)
  obtain adv s' where c: "consume_stream (max_stream_data (local_limits f)) n s = (adv, s')"
    by fastforce
  note ok = consume_stream_ok [OF recv_inv_stream [OF inv Some] _ recv_inv_bounds(5) [OF inv] c]
  have n: "unat (consumed s) + unat n \<le> unat (received s)" using g Some by simp
  have fin: "finite (dom (streams f))" using inv by (simp add: recv_inv_def)
  have tot: "map_total unread ((streams f)(i \<mapsto> s')) + unat n = map_total unread (streams f)"
    using map_total_unread_put [OF fin Some, of s'] ok(2,3) [OF n]
      map_total_member [OF fin Some, of unread] by linarith
  then have "recv_inv (put_stream i s' f)"
    using inv ok(1) [OF n] by (auto simp: recv_inv_def put_stream_def)
  then have "recv_inv (consume_conn n (put_stream i s' f))"
    using inv tot by (intro recv_inv_consume_conn) (simp_all add: recv_inv_def)
  then show ?thesis using Some c by (simp add: on_consumed_def)
qed

text \<open>Reception: accepted exactly when both windows have room, and then exact.\<close>

lemma on_data_received_cases:
  assumes inv: "recv_inv f" and s: "streams f i = Some s" and n: "unat n \<le> MAX_FRAME_PAYLOAD"
  shows "on_data_received i n f =
    (if unat (local_max s) < unat (received s) + unat n then (Inl ''peer exceeded MAX_STREAM_DATA'', f)
     else if unat (local_max_data f) < unat (conn_received f) + unat n then (Inl ''peer exceeded MAX_DATA'', f)
     else (Inr (), (put_stream i (s\<lparr>received := received s + n\<rparr>) f)\<lparr>conn_received := conn_received f + n\<rparr>))"
    and "unat (received s + n) = unat (received s) + unat n"
    and "unat (conn_received f + n) = unat (conn_received f) + unat n"
proof -
  note b = recv_stream_bounds [OF recv_inv_stream [OF inv s]] recv_inv_bounds [OF inv]
  show r: "unat (received s + n) = unat (received s) + unat n"
    and c: "unat (conn_received f + n) = unat (conn_received f) + unat n"
    using b n by (simp_all add: nowrap frame_consts)
  show "on_data_received i n f =
    (if unat (local_max s) < unat (received s) + unat n then (Inl ''peer exceeded MAX_STREAM_DATA'', f)
     else if unat (local_max_data f) < unat (conn_received f) + unat n then (Inl ''peer exceeded MAX_DATA'', f)
     else (Inr (), (put_stream i (s\<lparr>received := received s + n\<rparr>) f)\<lparr>conn_received := conn_received f + n\<rparr>))"
    using s by (simp add: on_data_received_def word_less_nat_alt r c)
qed

lemma recv_inv_data_received:
  assumes inv: "recv_inv f" and g: "flow_guard f (FlDataReceived i n)"
  shows "recv_inv (snd (on_data_received i n f))"
proof (cases "streams f i")
  case None
  with inv show ?thesis by (simp add: on_data_received_def)
next
  case (Some s)
  have n: "unat n \<le> MAX_FRAME_PAYLOAD" using g by simp
  note cs = on_data_received_cases [OF inv Some n]
  note b = recv_stream_bounds [OF recv_inv_stream [OF inv Some]]
  let ?s' = "s\<lparr>received := received s + n\<rparr>"
  have fin: "finite (dom (streams f))" using inv by (simp add: recv_inv_def)
  have "unread ?s' = unread s + unat n" using b by (simp add: unread_def cs(2))
  then have tot: "map_total unread ((streams f)(i \<mapsto> ?s')) = map_total unread (streams f) + unat n"
    using map_total_unread_put [OF fin Some, of ?s'] by linarith
  have "recv_inv ((put_stream i ?s' f)\<lparr>conn_received := conn_received f + n\<rparr>)"
    if "unat (received s) + unat n \<le> unat (local_max s)"
      and "unat (conn_received f) + unat n \<le> unat (local_max_data f)"
  proof -
    have "recv_stream_ok (max_stream_data (local_limits f)) ?s'"
      using that(1) recv_inv_stream [OF inv Some]
      by (auto simp: recv_stream_ok_def word_le_nat_alt cs(2))
    then show ?thesis
      using that(2) inv tot by (auto simp: recv_inv_def word_le_nat_alt cs(3))
  qed
  then show ?thesis using inv by (simp add: cs(1) not_less)
qed

lemma recv_inv_new_stream:
  assumes "recv_inv f" "streams f (next_id f + 1) = None"
  shows "recv_inv (snd (new_stream f))"
proof -
  have "sat (max_stream_data (local_limits f)) = max_stream_data (local_limits f)"
    using assms(1) by (simp add: recv_inv_def limits_ok_def sat_def min_def)
  then have "recv_stream_ok (max_stream_data (local_limits f))
      (StreamState_default\<lparr>local_max := max_stream_data (local_limits f)\<rparr>)"
    by (simp add: recv_stream_ok_def StreamState_default_def less_max_iff_disj)
  moreover have "unread (StreamState_default\<lparr>local_max := v\<rparr>) = 0" for v
    by (simp add: unread_def StreamState_default_def)
  ultimately show ?thesis
    using assms by (auto simp: new_stream_def Let_def recv_inv_def map_total_insert)
qed

lemma recv_inv_drop:
  assumes "recv_inv f"
  shows "recv_inv (drop_stream i f)"
proof (cases "streams f i")
  case None
  with assms show ?thesis by (simp add: drop_stream_def)
next
  case (Some s)
  with assms map_total_delete [of "streams f" i s unread]
  show ?thesis by (auto simp: drop_stream_def recv_inv_def)
qed

lemma recv_stream_ok_cancelled: "recv_stream_ok w s \<Longrightarrow> recv_stream_ok w (s\<lparr>cancelled := True\<rparr>)"
  by (auto simp: recv_stream_ok_def)

lemma recv_stream_frame [simp]:
  "recv_stream_ok w (s\<lparr>send_sent := a\<rparr>) = recv_stream_ok w s"
  "recv_stream_ok w (s\<lparr>send_reserved := a\<rparr>) = recv_stream_ok w s"
  "recv_stream_ok w (s\<lparr>peer_max_explicit := a\<rparr>) = recv_stream_ok w s"
  "recv_stream_ok w (s\<lparr>send_failed := b\<rparr>) = recv_stream_ok w s"
  "unread (s\<lparr>send_sent := a\<rparr>) = unread s"
  "unread (s\<lparr>send_reserved := a\<rparr>) = unread s"
  "unread (s\<lparr>peer_max_explicit := a\<rparr>) = unread s"
  "unread (s\<lparr>send_failed := b\<rparr>) = unread s"
  by (simp_all add: recv_stream_ok_def unread_def)

lemma recv_inv_mark_cancelled: "recv_inv f \<Longrightarrow> recv_inv (mark_cancelled i f)"
  by (auto simp: mark_cancelled_def unread_def
      intro!: recv_inv_put recv_stream_ok_cancelled dest: recv_inv_stream split: option.splits)

section \<open>Stream counts\<close>

lemma count_inv_max_streams: "count_inv f \<Longrightarrow> v \<le> MAX_OFFSET \<Longrightarrow> count_inv (on_peer_max_streams v f)"
  by (auto simp: on_peer_max_streams_def count_inv_def u64_simps)

lemma count_inv_new_stream:
  assumes "count_inv f" "next_id f < 18446744073709551615"
  shows "count_inv (snd (new_stream f))" and "streams f (next_id f + 1) = None"
proof -
  have i: "unat (next_id f + 1) = unat (next_id f) + 1"
    using assms(2) by (simp add: nowrap u64_simps)
  then show "streams f (next_id f + 1) = None"
    using assms(1) by (cases "streams f (next_id f + 1)") (auto simp: count_inv_def u64_simps)
  have "\<And>j s. streams f j = Some s \<Longrightarrow> unat j \<le> unat (next_id f) + 1"
    using assms(1) by (auto simp: count_inv_def u64_simps intro: le_SucI)
  then show "count_inv (snd (new_stream f))"
    using assms(1) by (auto simp: new_stream_def Let_def count_inv_def word_le_nat_alt i)
qed

lemma count_inv_slots:
  assumes "count_inv f"
  shows "unat (streams_opened f + streams_reserved f) = unat (streams_opened f) + unat (streams_reserved f)"
    "unat (streams_opened f) + unat (streams_reserved f) \<le> unat (peer_max_streams f)"
    "unat (peer_max_streams f) \<le> 4611686018427387903"
  using assms by (auto simp: count_inv_def word_le_nat_alt intro!: unat_window_sum)

lemma count_inv_reserve_slot: 
  assumes "count_inv f" shows "count_inv (snd (reserve_stream_slot f))"
proof (cases "streams_opened f + streams_reserved f < peer_max_streams f")
  case True
  note b = count_inv_slots [OF assms]
  have lt: "unat (streams_opened f) + unat (streams_reserved f) < unat (peer_max_streams f)"
    using True by (simp add: word_less_nat_alt b(1))
  then have "unat (streams_reserved f + 1) = unat (streams_reserved f) + 1"
    using b(3) by (simp add: nowrap)
  with lt assms show ?thesis by (auto simp: reserve_stream_slot_def count_inv_def)
next
  case False
  with assms show ?thesis by (simp add: reserve_stream_slot_def)
qed

lemma count_inv_commit_slot:
  assumes "count_inv f" "0 < streams_reserved f" shows "count_inv (commit_stream_slot f)"
proof -
  note b = count_inv_slots [OF assms(1)]
  have "unat (streams_opened f + 1) = unat (streams_opened f) + 1"
    using b by (simp add: nowrap)
  moreover have "unat (streams_reserved f - 1) = unat (streams_reserved f) - 1" "0 < unat (streams_reserved f)"
    using assms(2) by (simp_all add: word_less_nat_alt unat_sub_exact)
  ultimately show ?thesis using assms(1) by (auto simp: commit_stream_slot_def count_inv_def)
qed

lemma count_inv_release_slot:
  assumes "count_inv f" "0 < streams_reserved f" shows "count_inv (release_stream_slot f)"
proof -
  have "unat (streams_reserved f - 1) = unat (streams_reserved f) - 1" "0 < unat (streams_reserved f)"
    using assms(2) by (simp_all add: word_less_nat_alt unat_sub_exact)
  then show ?thesis using assms(1) by (auto simp: release_stream_slot_def count_inv_def)
qed

lemma count_inv_peer_bounds:
  assumes "count_inv f"
  shows "unat (peer_retired_streams f) \<le> unat (peer_opened_streams f)"
    "unat (peer_opened_streams f) \<le> unat (advertised_max_streams f)"
    "unat (advertised_max_streams f) =
       min (unat (max_streams (local_limits f)) + unat (peer_retired_streams f)) 4611686018427387903"
  using assms by (auto simp: count_inv_def limits_ok_def u64_simps unat_window_sum)

lemma count_inv_peer_opened:
  assumes "count_inv f" shows "count_inv (snd (peer_stream_opened f))"
proof (cases "peer_opened_streams f \<ge> advertised_max_streams f")
  case False
  note b = count_inv_peer_bounds [OF assms]
  have "unat (peer_opened_streams f + 1) = unat (peer_opened_streams f) + 1"
    using b False by (simp add: nowrap word_le_nat_alt)
  with False b assms show ?thesis by (auto simp: peer_stream_opened_def count_inv_def word_le_nat_alt)
next
  case True
  with assms show ?thesis by (simp add: peer_stream_opened_def)
qed

lemma count_inv_peer_retired:
  assumes "count_inv f" "peer_retired_streams f < peer_opened_streams f"
  shows "count_inv (peer_stream_retired f)"
proof -
  note b = count_inv_peer_bounds [OF assms(1)]
  have lt: "unat (peer_retired_streams f) < unat (peer_opened_streams f)"
    using assms(2) by (simp add: word_less_nat_alt)
  have r: "unat (peer_retired_streams f + 1) = unat (peer_retired_streams f) + 1"
    using b lt by (simp add: nowrap)
  have m: "unat (max_streams (local_limits f)) \<le> 4611686018427387903"
    using assms(1) by (auto simp: count_inv_def limits_ok_def u64_simps)
  have "unat (max_streams (local_limits f) + (peer_retired_streams f + 1))
          = unat (max_streams (local_limits f)) + unat (peer_retired_streams f) + 1"
    using b lt m by (subst unat_window_sum) (simp_all add: r)
  with r b lt assms(1) show ?thesis
    by (auto simp: peer_stream_retired_def Let_def count_inv_def word_le_nat_alt sat_unat)
qed

section \<open>Every call keeps the invariant\<close>

lemmas flow_op_defs = flow_fail_def on_peer_hello_def on_peer_max_data_def on_peer_max_streams_def
  drop_stream_def commit_def release_def fail_send_def on_peer_max_stream_data_def
  reserve_stream_slot_def commit_stream_slot_def release_stream_slot_def mark_cancelled_def
  peer_stream_opened_def peer_stream_retired_def

lemmas flow_splits = option.splits if_splits prod.splits

lemma send_inv_drop_frame: "send_inv f \<Longrightarrow> streams f i = Some s \<Longrightarrow> finite (dom (streams f))"
  by (simp add: send_inv_def)

lemma send_inv_consume_conn [simp]: "send_inv (consume_conn n f) = send_inv f"
  by (simp add: consume_conn_def Let_def)

lemma count_inv_consume_conn [simp]: "count_inv (consume_conn n f) = count_inv f"
  by (simp add: consume_conn_def Let_def)

lemma consume_stream_send:
  "consume_stream w n s = (adv, s') \<Longrightarrow>
   send_sent s' = send_sent s \<and> send_reserved s' = send_reserved s
   \<and> peer_max_explicit s' = peer_max_explicit s \<and> send_failed s' = send_failed s"
  by (auto simp: consume_stream_def Let_def split: if_splits)

lemma send_inv_consumed: "send_inv f \<Longrightarrow> send_inv (snd (on_consumed i n f))"
  by (auto simp: on_consumed_def send_stream_ok_def eff_max_def
      intro!: send_inv_put dest!: consume_stream_send dest: send_inv_stream split: flow_splits)

lemma send_inv_data_received: "send_inv f \<Longrightarrow> send_inv (snd (on_data_received i n f))"
  by (auto simp: on_data_received_def send_stream_ok_def eff_max_def
      intro!: send_inv_put dest: send_inv_stream split: flow_splits)

lemma send_inv_mark_cancelled: "send_inv f \<Longrightarrow> send_inv (mark_cancelled i f)"
  by (auto simp: mark_cancelled_def send_stream_ok_def eff_max_def
      intro!: send_inv_put dest: send_inv_stream split: flow_splits)

lemma send_inv_flow_step:
  assumes inv: "send_inv f" "count_inv f" and g: "flow_guard f e"
  shows "send_inv (flow_step f e)"
proof (cases e)
  case (FlPeerMaxStreams v)
  with inv show ?thesis by (simp add: on_peer_max_streams_def)
next
  case FlReserveSlot
  with inv show ?thesis by (simp add: reserve_stream_slot_def)
next
  case FlPeerOpened
  with inv show ?thesis by (simp add: peer_stream_opened_def)
qed (use inv g in \<open>simp_all add: send_inv_fail send_inv_hello send_inv_max_data send_inv_new_stream
    send_inv_drop send_inv_reserve send_inv_commit send_inv_release send_inv_fail_send
    send_inv_max_stream_data commit_stream_slot_def release_stream_slot_def
    send_inv_consumed send_inv_data_received send_inv_mark_cancelled
    peer_stream_retired_def Let_def\<close>)

lemma recv_inv_send_side:
  assumes "recv_inv f"
  shows "recv_inv (commit i n f)" "recv_inv (release i n f)" "recv_inv (fail_send i f)"
    "recv_inv (on_peer_max_stream_data i v f)" "recv_inv (snd (poll_reserve w i n f))"
  using assms
  by (auto simp: flow_op_defs poll_reserve_def Let_def
      intro!: recv_inv_put dest: recv_inv_stream split: flow_splits)

lemma recv_inv_flow_step:
  assumes inv: "recv_inv f" "count_inv f" and g: "flow_guard f e"
  shows "recv_inv (flow_step f e)"
proof (cases e)
  case FlReserveSlot
  with inv show ?thesis by (simp add: reserve_stream_slot_def)
next
  case FlPeerOpened
  with inv show ?thesis by (simp add: peer_stream_opened_def)
next
  case FlNewStream
  with inv g show ?thesis by (simp add: recv_inv_new_stream count_inv_new_stream)
next
  case (FlDataReceived i n)
  with inv g show ?thesis by (simp add: recv_inv_data_received)
next
  case (FlConsumed i n)
  with inv g show ?thesis by (simp add: recv_inv_consumed del: flow_guard.simps)
qed (use inv g in \<open>simp_all add: flow_fail_def on_peer_hello_def on_peer_max_data_def
    on_peer_max_streams_def recv_inv_drop recv_inv_send_side commit_stream_slot_def
    release_stream_slot_def recv_inv_mark_cancelled peer_stream_retired_def Let_def\<close>)

lemma count_inv_stream_side:
  assumes "count_inv f"
  shows "count_inv (commit i n f)" "count_inv (release i n f)" "count_inv (fail_send i f)"
    "count_inv (on_peer_max_stream_data i v f)" "count_inv (snd (poll_reserve w i n f))"
    "count_inv (snd (on_data_received i n f))" "count_inv (snd (on_consumed i n f))"
    "count_inv (mark_cancelled i f)" "count_inv (drop_stream i f)"
  using assms
  by (auto simp: flow_op_defs poll_reserve_def on_data_received_def on_consumed_def Let_def
      intro!: count_inv_put split: flow_splits)
     (auto simp: count_inv_def)

lemma count_inv_flow_step:
  assumes inv: "count_inv f" and g: "flow_guard f e"
  shows "count_inv (flow_step f e)"
proof (cases e)
  case (FlPeerHello l)
  with inv g show ?thesis
    by (auto simp: on_peer_hello_def count_inv_def limits_ok_def)
qed (use inv g in \<open>simp_all add: flow_fail_def on_peer_max_data_def count_inv_max_streams
    count_inv_new_stream count_inv_stream_side count_inv_reserve_slot count_inv_commit_slot
    count_inv_release_slot count_inv_peer_opened count_inv_peer_retired\<close>)

lemma flow_step_inv: "flow_inv f \<Longrightarrow> flow_guard f e \<Longrightarrow> flow_inv (flow_step f e)"
  by (simp add: flow_inv_def send_inv_flow_step recv_inv_flow_step count_inv_flow_step
      del: flow_step.simps flow_guard.simps)

lemma flow_new_inv: "limits_ok l \<Longrightarrow> flow_inv (ConnFlow_new l)"
  by (auto simp: flow_inv_def send_inv_def recv_inv_def count_inv_def ConnFlow_new_def sat_def
      limits_ok_def min_def less_max_iff_disj)

interpretation flow: machine flow_step flow_guard flow_inv
  by unfold_locales (rule flow_step_inv)

section \<open>Blocked reservations and wake-ups\<close>

definition stream_avail :: "ConnFlow \<Rightarrow> StreamState \<Rightarrow> u64" where
  "stream_avail f s = eff_max f s - send_sent s - send_reserved s"

definition conn_avail :: "ConnFlow \<Rightarrow> u64" where
  "conn_avail f = peer_max_data f - conn_sent f - conn_reserved f"

text \<open>A reservation that would wait now, and a stream opening that would wait now.\<close>

definition blocked :: "ConnFlow \<Rightarrow> u64 \<Rightarrow> u64 \<Rightarrow> bool" where
  "blocked f i want \<longleftrightarrow> fst (poll_reserve 0 i want f) = Pending"

definition slot_blocked :: "ConnFlow \<Rightarrow> bool" where
  "slot_blocked f \<longleftrightarrow> fst (reserve_stream_slot f) = Pending"

lemma word_ge_1: "(1 :: u64) \<le> g \<longleftrightarrow> g \<noteq> 0"
  by (simp add: word_le_nat_alt Suc_le_eq unat_gt_0)

lemma min_word_0: "min a b = (0 :: u64) \<longleftrightarrow> a = 0 \<or> b = 0"
  by (auto simp: min_def word_le_nat_alt unat_eq_zero)

lemma blocked_iff:
  "blocked f i want \<longleftrightarrow>
     \<not> is_failed f \<and> (\<exists>s. streams f i = Some s \<and> \<not> send_failed s
        \<and> (want = 0 \<or> stream_avail f s = 0 \<or> conn_avail f = 0))"
  by (auto simp: blocked_def poll_reserve_def Let_def stream_avail_def conn_avail_def eff_max_def
      word_ge_1 min_word_0 split: option.splits)

lemma slot_blocked_iff:
  "slot_blocked f \<longleftrightarrow>
     \<not> is_failed f \<and> \<not> streams_opened f + streams_reserved f < peer_max_streams f"
  by (simp add: slot_blocked_def reserve_stream_slot_def)

text \<open>A step that woke everybody.\<close>

definition woke_all :: "ConnFlow \<Rightarrow> ConnFlow \<Rightarrow> bool" where
  "woke_all f f' \<longleftrightarrow>
     wakers f' = [] \<and> woken f' = woken f @ wakers f \<and> notified f' = Suc (notified f)"

lemma woke_all_wake_locked:
  "wakers g = wakers f \<Longrightarrow> woken g = woken f \<Longrightarrow> notified g = notified f \<Longrightarrow> woke_all f (wake_locked g)"
  by (simp add: woke_all_def)

lemma reserve_keeps_blocked:
  assumes inv: "send_inv f" and b: "blocked f i want"
  shows "blocked (snd (poll_reserve w j n f)) i want"
proof (cases "\<not> is_failed f \<and> (\<exists>s. streams f j = Some s \<and> \<not> send_failed s)")
  case False
  with b show ?thesis by (simp add: poll_reserve_dead)
next
  case True
  then obtain t where t: "streams f j = Some t" and live: "\<not> is_failed f" "\<not> send_failed t" by blast
  let ?g = "reserve_grant f t n"
  have c: "conn_avail f = 0 \<Longrightarrow> ?g = 0" and s: "stream_avail f t = 0 \<Longrightarrow> ?g = 0"
    by (auto simp: reserve_grant_def conn_avail_def stream_avail_def min_word_0)
  show ?thesis
  proof (cases "?g = 0")
    case True
    with b show ?thesis
      by (simp add: poll_reserve_live [OF live(1) t live(2)] Let_def blocked_iff
          stream_avail_def conn_avail_def eff_max_def)
  next
    case False
    with c s have "conn_avail f \<noteq> 0" "stream_avail f t \<noteq> 0" by auto
    with b t False show ?thesis
      by (auto simp: poll_reserve_live [OF live(1) t live(2)] Let_def blocked_iff
          stream_avail_def conn_avail_def eff_max_def word_ge_1)
  qed
qed

lemma commit_keeps_blocked:
  assumes "blocked f i want"
  shows "blocked (commit j n f) i want"
  using assms
  by (auto simp: commit_def blocked_iff stream_avail_def conn_avail_def eff_max_def algebra_simps
      split: option.splits)

lemma consumed_keeps_blocked:
  assumes "blocked f i want"
  shows "blocked (snd (on_consumed j n f)) i want"
  using assms
  by (auto simp: on_consumed_def consume_stream_def consume_conn_def Let_def blocked_iff
      stream_avail_def conn_avail_def eff_max_def split: option.splits if_splits)

lemma blocked_or_woken:
  assumes inv: "send_inv f" "count_inv f" and b: "blocked f i want" and g: "flow_guard f e"
  shows "woke_all f (flow_step f e) \<or> blocked (flow_step f e) i want"
proof (cases e)
  case (FlPollReserve w j n)
  with inv b show ?thesis by (simp add: reserve_keeps_blocked)
next
  case (FlCommit j n)
  with inv b show ?thesis by (simp add: commit_keeps_blocked)
next
  case (FlConsumed j n)
  with inv b show ?thesis by (simp add: consumed_keeps_blocked)
next
  case FlNewStream
  with inv g have "streams f (next_id f + 1) = None" by (simp add: count_inv_new_stream)
  with FlNewStream b show ?thesis
    by (auto simp: new_stream_def Let_def blocked_iff stream_avail_def conn_avail_def eff_max_def)
qed (use b in \<open>auto simp: flow_op_defs on_data_received_def Let_def blocked_iff stream_avail_def
      conn_avail_def eff_max_def woke_all_def split: option.splits if_splits\<close>)

lemma slot_blocked_or_woken:
  assumes b: "slot_blocked f"
  shows "woke_all f (flow_step f e) \<or> slot_blocked (flow_step f e)"
proof (cases e)
  case FlCommitSlot
  with b show ?thesis
    by (auto simp: commit_stream_slot_def slot_blocked_iff)
next
  case (FlPollReserve w j n)
  with b show ?thesis
    by (auto simp: poll_reserve_def Let_def slot_blocked_iff split: option.splits)
next
  case (FlConsumed j n)
  with b show ?thesis
    by (auto simp: on_consumed_def consume_conn_def Let_def slot_blocked_iff split: option.splits prod.splits)
qed (use b in \<open>auto simp: flow_op_defs new_stream_def on_data_received_def Let_def slot_blocked_iff
      woke_all_def split: option.splits if_splits\<close>)

section \<open>Limits only grow\<close>

text \<open>Every limit of the engine, granted or received, is at least what it was.\<close>

definition limits_grow :: "ConnFlow \<Rightarrow> ConnFlow \<Rightarrow> bool" where
  "limits_grow f f' \<longleftrightarrow>
     peer_max_data f \<le> peer_max_data f' \<and> peer_max_streams f \<le> peer_max_streams f'
     \<and> peer_init_stream_data f \<le> peer_init_stream_data f'
     \<and> local_max_data f \<le> local_max_data f'
     \<and> advertised_max_streams f \<le> advertised_max_streams f'
     \<and> (\<forall>i s s'. streams f i = Some s \<longrightarrow> streams f' i = Some s' \<longrightarrow>
          local_max s \<le> local_max s' \<and> peer_max_explicit s \<le> peer_max_explicit s')"

lemma limits_grow_refl [simp]: "limits_grow f f"
  by (simp add: limits_grow_def)

lemma limits_grow_wake [simp]: "limits_grow f (wake_locked g) = limits_grow f g"
  by (simp add: limits_grow_def)

lemma consume_stream_grows:
  assumes ok: "recv_stream_ok w s" and n: "unat (consumed s) + unat n \<le> unat (received s)"
    and w: "unat w \<le> 4611686018427387903" and c: "consume_stream w n s = (adv, s')"
  shows "local_max s \<le> local_max s'"
proof -
  note b = recv_stream_bounds [OF ok]
  have cn: "unat (consumed s + n) = unat (consumed s) + unat n"
    using n b by (simp add: nowrap)
  have "unat (consumed s + n + w) = unat (consumed s) + unat n + unat w"
    using n b w by (subst unat_window_sum) (simp_all add: cn)
  moreover have "unat (local_max s) \<le> min (unat (consumed s) + unat n + unat w) 4611686018427387903"
    using ok b w by (auto simp: recv_stream_ok_def u64_simps unat_window_sum)
  ultimately show ?thesis
    using c by (auto simp: consume_stream_def Let_def word_le_nat_alt sat_unat split: if_splits)
qed

lemma consume_conn_grows:
  assumes inv: "recv_inv f" and n: "unat (conn_consumed f) + unat n \<le> unat (conn_received f)"
  shows "local_max_data f \<le> local_max_data (consume_conn n f)"
proof -
  note b = recv_inv_bounds [OF inv]
  let ?w = "max_data (local_limits f)"
  have cn: "unat (conn_consumed f + n) = unat (conn_consumed f) + unat n"
    using n b by (simp add: nowrap)
  have "unat (conn_consumed f + n + ?w) = unat (conn_consumed f) + unat n + unat ?w"
    using n b by (subst unat_window_sum) (simp_all add: cn)
  moreover have "unat (local_max_data f) \<le> min (unat (conn_consumed f) + unat n + unat ?w) 4611686018427387903"
    using inv b by (auto simp: recv_inv_def u64_simps unat_window_sum)
  ultimately show ?thesis
    by (auto simp: consume_conn_def Let_def word_le_nat_alt sat_unat)
qed

lemma consume_conn_others [simp]:
  "peer_max_data (consume_conn n f) = peer_max_data f"
  "peer_max_streams (consume_conn n f) = peer_max_streams f"
  "peer_init_stream_data (consume_conn n f) = peer_init_stream_data f"
  "advertised_max_streams (consume_conn n f) = advertised_max_streams f"
  "streams (consume_conn n f) = streams f"
  "conn_received (consume_conn n f) = conn_received f"
  "conn_consumed (consume_conn n f) = conn_consumed f + n"
  "local_limits (consume_conn n f) = local_limits f"
  by (simp_all add: consume_conn_def Let_def)

lemma consumed_grows:
  assumes inv: "recv_inv f" and g: "flow_guard f (FlConsumed i n)"
  shows "limits_grow f (snd (on_consumed i n f))"
proof (cases "streams f i")
  case None
  with g have "unat (conn_consumed f) + unat n \<le> unat (conn_received f)" by simp
  from consume_conn_grows [OF inv this] None show ?thesis
    by (simp add: on_consumed_def limits_grow_def)
next
  case (Some s)
  obtain adv s' where c: "consume_stream (max_stream_data (local_limits f)) n s = (adv, s')"
    by fastforce
  have n: "unat (consumed s) + unat n \<le> unat (received s)" using g Some by simp
  have fin: "finite (dom (streams f))" using inv by (simp add: recv_inv_def)
  have cc: "unat (conn_consumed f) + unat n \<le> unat (conn_received f)"
    using map_total_member [OF fin Some, of unread] n inv by (auto simp: recv_inv_def unread_def)
  have grow: "local_max s \<le> local_max s'"
    using consume_stream_grows [OF recv_inv_stream [OF inv Some] n recv_inv_bounds(5) [OF inv] c] .
  have "local_max_data (consume_conn n (put_stream i s' f)) = local_max_data (consume_conn n f)"
    by (simp add: consume_conn_def Let_def)
  then have "local_max_data f \<le> local_max_data (consume_conn n (put_stream i s' f))"
    using consume_conn_grows [OF inv cc] by simp
  with grow Some c consume_stream_send [OF c] show ?thesis
    by (auto simp: on_consumed_def limits_grow_def)
qed

lemma peer_retired_grows:
  assumes "count_inv f" "peer_retired_streams f < peer_opened_streams f"
  shows "advertised_max_streams f \<le> advertised_max_streams (peer_stream_retired f)"
proof -
  have "count_inv (peer_stream_retired f)" by (rule count_inv_peer_retired [OF assms])
  from count_inv_peer_bounds(3) [OF this] count_inv_peer_bounds(3) [OF assms(1)]
  have "unat (advertised_max_streams (peer_stream_retired f)) =
      min (unat (max_streams (local_limits f)) + unat (peer_retired_streams f + 1)) 4611686018427387903"
    "unat (advertised_max_streams f) =
      min (unat (max_streams (local_limits f)) + unat (peer_retired_streams f)) 4611686018427387903"
    by (simp_all add: peer_stream_retired_def Let_def)
  moreover have "unat (peer_retired_streams f + 1) = unat (peer_retired_streams f) + 1"
    using count_inv_peer_bounds [OF assms(1)] assms(2) by (simp add: nowrap word_less_nat_alt)
  ultimately show ?thesis by (simp add: word_le_nat_alt)
qed

lemma flow_step_grows:
  assumes inv: "flow_inv f" and g: "flow_guard f e"
  shows "limits_grow f (flow_step f e)"
proof (cases e)
  case (FlConsumed i n)
  with inv g show ?thesis by (simp add: consumed_grows flow_inv_def del: flow_guard.simps)
next
  case FlPeerRetired
  with inv g show ?thesis
    using peer_retired_grows [of f]
    by (simp add: flow_inv_def limits_grow_def) (simp add: peer_stream_retired_def Let_def)
next
  case FlNewStream
  with inv g have "streams f (next_id f + 1) = None" by (simp add: count_inv_new_stream flow_inv_def)
  with FlNewStream show ?thesis by (auto simp: new_stream_def Let_def limits_grow_def)
next
  case (FlPollReserve w i n)
  then show ?thesis
    by (auto simp: poll_reserve_def Let_def limits_grow_def split: option.splits)
next
  case (FlPeerMaxStreamData i v)
  then show ?thesis
    by (auto simp: on_peer_max_stream_data_def limits_grow_def split: option.splits)
next
  case (FlPeerHello l)
  with g show ?thesis by (auto simp: on_peer_hello_def limits_grow_def)
qed (use g in \<open>auto simp: flow_op_defs on_data_received_def limits_grow_def split: option.splits\<close>)

end
