(* ===== verification/KpsFlowProps.thy ===== *)
theory KpsFlowProps
  imports KpsFlowInv
begin

text \<open>
  The properties of the credit engine, over the invariant of \<open>KpsFlowInv\<close>, each with a
  run of the engine that meets its hypotheses. \<open>demo\<close> is the engine after a HELLO and
  one stream, with 100 bytes reserved for it.
\<close>

definition demo :: ConnFlow where
  "demo = foldl flow_step (ConnFlow_new DEFAULT_FLOW_LIMITS)
     [FlPeerHello DEFAULT_FLOW_LIMITS, FlNewStream, FlPollReserve 7 1 100]"

lemmas engine_eval = flow_op_defs new_stream_def poll_reserve_def on_data_received_def
  on_consumed_def consume_stream_def consume_conn_def put_stream_def wake_locked_def
  ConnFlow_new_def StreamState_default_def DEFAULT_FLOW_LIMITS_def limits_ok_def sat_def
  Let_def push_bit_eq_mult MAX_OFFSET_def min_def max_def

lemma demo_eval:
  "demo = \<lparr>failed = None, is_failed = False,
      peer_init_stream_data = 1048576, peer_max_data = 8388608, peer_max_streams = 100,
      conn_sent = 0, conn_reserved = 100, streams_opened = 0, streams_reserved = 0,
      local_max_data = 8388608, conn_received = 0, conn_consumed = 0,
      conn_advertised_at = 0, peer_opened_streams = 0, peer_retired_streams = 0,
      advertised_max_streams = 100,
      streams = [1 \<mapsto> \<lparr>send_sent = 0, send_reserved = 100, peer_max_explicit = 0,
        send_failed = False, local_max = 1048576, received = 0, consumed = 0,
        advertised_at = 0, cancelled = False\<rparr>], next_id = 1, wakers = [],
      local_limits = DEFAULT_FLOW_LIMITS, advert_tx = [], woken = [], notified = 1\<rparr>"
  by (simp add: demo_def engine_eval)

lemma demo_legal:
  "legal flow_step flow_guard (ConnFlow_new DEFAULT_FLOW_LIMITS)
     [FlPeerHello DEFAULT_FLOW_LIMITS, FlNewStream, FlPollReserve 7 1 100]"
  by (simp add: engine_eval)

lemma demo_inv: "flow_inv demo"
  unfolding demo_def
  by (rule flow.run_inv [OF flow_new_inv [OF default_limits_ok] demo_legal])

text \<open>
  C1: Whatever sequence of calls the engine receives, if each call keeps the callers'
  contract then the engine's invariant holds afterwards: at both levels what was sent or
  reserved stays within the peer's limit, the connection's reservation is the sum of its
  streams' reservations, what was received stays within the enforced limits, consumption
  never overtakes reception, and no counter wraps.
\<close>

theorem flow_run_invariant:
  assumes "limits_ok l" and "legal flow_step flow_guard (ConnFlow_new l) es"
  shows "flow_inv (foldl flow_step (ConnFlow_new l) es)"
  using flow_new_inv [OF assms(1)] assms(2) by (rule flow.run_inv)

theorem flow_run_invariant_witness:
  "flow_inv (foldl flow_step (ConnFlow_new DEFAULT_FLOW_LIMITS)
     [FlPeerHello DEFAULT_FLOW_LIMITS, FlNewStream, FlPollReserve 7 1 100])"
  by (rule flow_run_invariant [OF default_limits_ok demo_legal])

text \<open>
  C2: A reservation on a live stream is granted at once if and only if at least one byte
  is available, and the grant is exactly the least of the request, the stream's remaining
  window and the connection's remaining window; afterwards the connection's reservation
  has grown by the grant and is still within the peer's limit.
\<close>

theorem poll_reserve_exact:
  assumes "flow_inv f" and "\<not> is_failed f" and "streams f i = Some s" and "\<not> send_failed s"
    and "g = min (min (unat (eff_max f s) - unat (send_sent s) - unat (send_reserved s))
                      (unat (peer_max_data f) - unat (conn_sent f) - unat (conn_reserved f)))
                 (unat want)"
  shows "fst (poll_reserve w i want f) = (if g = 0 then Pending else Ready (Inr (of_nat g)))
    \<and> unat (conn_reserved (snd (poll_reserve w i want f))) = unat (conn_reserved f) + g
    \<and> unat (conn_sent f) + unat (conn_reserved f) + g \<le> unat (peer_max_data f)"
proof -
  have inv: "send_inv f" using assms(1) by (simp add: flow_inv_def)
  let ?g = "reserve_grant f s want"
  have g: "unat ?g = g" using reserve_grant_unat(1) [OF inv assms(3), of want] assms(5) by simp
  have le: "unat (conn_sent f) + unat (conn_reserved f) + g \<le> unat (peer_max_data f)"
    using reserve_grant_unat(3) [OF inv assms(3), of want] g by simp
  then have "unat (conn_reserved f + ?g) = unat (conn_reserved f) + g"
    using send_inv_conn_bound [OF inv] g by (simp add: nowrap)
  moreover have "?g = of_nat g" and "?g \<ge> 1 \<longleftrightarrow> g \<noteq> 0"
    using g by (auto simp: word_ge_1 unat_eq_zero unat_gt_0)
  ultimately show ?thesis
    using le by (simp add: poll_reserve_live [OF assms(2-4)] Let_def)
qed

theorem poll_reserve_exact_witness:
  "fst (poll_reserve 3 1 5000000 demo) = Ready (Inr 1048476)
   \<and> unat (conn_reserved (snd (poll_reserve 3 1 5000000 demo))) = 1048576"
  using poll_reserve_exact [OF demo_inv, of 1 "the (streams demo 1)" 1048476 5000000 3]
  by (simp add: demo_eval eff_max_def)

text \<open>
  C3: No wake-up is lost for a writer waiting for credit: if a reservation would wait, and
  after any further call of the engine it would no longer wait (credit arrived, or it now
  fails), then that call woke every registered waiter.
\<close>

theorem no_lost_wakeup:
  assumes "flow_inv f" and "flow_guard f e"
    and "blocked f i want" and "\<not> blocked (flow_step f e) i want"
  shows "woke_all f (flow_step f e)"
  using blocked_or_woken [of f i want e] assms by (simp add: flow_inv_def)

definition demo_full :: ConnFlow where
  "demo_full = snd (poll_reserve 8 1 1 (snd (poll_reserve 7 1 5000000 demo)))"

lemma demo_full_inv: "flow_inv demo_full"
  using flow_step_inv [OF flow_step_inv [OF demo_inv, of "FlPollReserve 7 1 5000000"],
      of "FlPollReserve 8 1 1"]
  by (simp add: demo_full_def)

theorem no_lost_wakeup_witness:
  "wakers demo_full = [8] \<and> woke_all demo_full (flow_step demo_full (FlPeerMaxStreamData 1 2000000))"
proof
  show "wakers demo_full = [8]"
    by (simp add: demo_full_def demo_eval engine_eval)
  have "blocked demo_full 1 1"
    and "\<not> blocked (flow_step demo_full (FlPeerMaxStreamData 1 2000000)) 1 1"
    by (simp_all add: blocked_def demo_full_def demo_eval engine_eval)
  with demo_full_inv show "woke_all demo_full (flow_step demo_full (FlPeerMaxStreamData 1 2000000))"
    by (intro no_lost_wakeup [where i = 1 and want = 1]) (simp_all add: MAX_OFFSET_def push_bit_eq_mult)
qed

text \<open>
  No wake-up is lost for an opener waiting for a stream slot: if it would wait before
  a call and not after it, that call notified all waiters.
\<close>

theorem no_lost_slot_wakeup:
  assumes "slot_blocked f" and "\<not> slot_blocked (flow_step f e)"
  shows "notified (flow_step f e) = Suc (notified f)"
  using slot_blocked_or_woken [OF assms(1), of e] assms(2) by (auto simp: woke_all_def)

theorem no_lost_slot_wakeup_witness:
  "notified (flow_step (ConnFlow_new DEFAULT_FLOW_LIMITS) (FlPeerHello DEFAULT_FLOW_LIMITS)) = Suc 0"
  using no_lost_slot_wakeup [of "ConnFlow_new DEFAULT_FLOW_LIMITS" "FlPeerHello DEFAULT_FLOW_LIMITS"]
  by (simp add: slot_blocked_iff engine_eval)

text \<open>
  C5: Inbound DATA is accepted if and only if it fits both receive windows, measured
  exactly (nothing wraps); when it does not fit nothing changes and the violated limit is
  reported, the stream's before the connection's; when it fits both counters advance by
  its length.
\<close>

theorem data_received_exact:
  assumes "flow_inv f" and "streams f i = Some s" and "unat n \<le> MAX_FRAME_PAYLOAD"
  shows "on_data_received i n f =
    (if unat (local_max s) < unat (received s) + unat n then (Inl ''peer exceeded MAX_STREAM_DATA'', f)
     else if unat (local_max_data f) < unat (conn_received f) + unat n
     then (Inl ''peer exceeded MAX_DATA'', f)
     else (Inr (), (put_stream i (s\<lparr>received := of_nat (unat (received s) + unat n)\<rparr>) f)
                     \<lparr>conn_received := of_nat (unat (conn_received f) + unat n)\<rparr>))"
  using on_data_received_cases(1) [of f i s n] assms
  by (simp add: flow_inv_def)

theorem data_received_exact_witness:
  "on_data_received 1 16383 demo =
     (Inr (), (put_stream 1 ((the (streams demo 1))\<lparr>received := 16383\<rparr>) demo)\<lparr>conn_received := 16383\<rparr>)"
  using data_received_exact [OF demo_inv, of 1 "the (streams demo 1)" 16383]
  by (simp add: demo_eval frame_consts)

text \<open>
  A reading receiver never strands a conforming sender: once everything received on a
  live stream has been consumed, the enforced (and last advertised) limit leaves more than
  the window minus half the window, unless it already stands at \<open>MAX_OFFSET\<close>; likewise
  for the connection's limit.
\<close>

theorem drained_receiver_leaves_credit:
  assumes "flow_inv f"
  shows "(\<forall>i s. streams f i = Some s \<and> \<not> cancelled s \<and> consumed s = received s \<longrightarrow>
            local_max s = MAX_OFFSET \<or>
            unat (received s) + unat (max_stream_data (local_limits f))
              < unat (local_max s) + max 1 (unat (max_stream_data (local_limits f)) div 2))
    \<and> (conn_consumed f = conn_received f \<longrightarrow>
            local_max_data f = MAX_OFFSET \<or>
            unat (conn_received f) + unat (max_data (local_limits f))
              < unat (local_max_data f) + max 1 (unat (max_data (local_limits f)) div 2))"
proof -
  have inv: "recv_inv f" using assms by (simp add: flow_inv_def)
  note wb = recv_inv_bounds [OF inv]
  have half: "sat (a + w) = MAX_OFFSET \<or> unat c + unat w < unat (sat (a + w)) + max 1 (unat w div 2)"
    if "unat a \<le> unat c" "unat c - unat a < max 1 (unat w div 2)"
      "unat c \<le> 4611686018427387903" "unat w \<le> 4611686018427387903" for a c w :: u64
  proof -
    have "unat (sat (a + w)) = min (unat a + unat w) (unat MAX_OFFSET)"
      using that by (simp add: sat_unat unat_window_sum)
    then show ?thesis using that by (auto simp: min_def word_unat_eq_iff split: if_splits)
  qed
  have "local_max s = MAX_OFFSET \<or> unat (received s) + unat (max_stream_data (local_limits f))
              < unat (local_max s) + max 1 (unat (max_stream_data (local_limits f)) div 2)"
    if "streams f i = Some s" "\<not> cancelled s" "consumed s = received s" for i s
  proof -
    note ok = recv_inv_stream [OF inv that(1)]
    from half [of "advertised_at s" "consumed s" "max_stream_data (local_limits f)"] that
      recv_stream_bounds [OF ok] ok wb
    show ?thesis by (auto simp: recv_stream_ok_def)
  qed
  moreover have "local_max_data f = MAX_OFFSET \<or> unat (conn_received f) + unat (max_data (local_limits f))
              < unat (local_max_data f) + max 1 (unat (max_data (local_limits f)) div 2)"
    if "conn_consumed f = conn_received f"
    using half [of "conn_advertised_at f" "conn_consumed f" "max_data (local_limits f)"] that wb inv
    by (auto simp: recv_inv_def)
  ultimately show ?thesis by blast
qed

theorem drained_receiver_leaves_credit_witness:
  "unat (received (the (streams demo 1))) + 1048576
     < unat (local_max (the (streams demo 1))) + 524288"
  using drained_receiver_leaves_credit [OF demo_inv]
  by (simp add: demo_eval DEFAULT_FLOW_LIMITS_def push_bit_eq_mult MAX_OFFSET_def)

text \<open>
  Limits are monotone: no call ever lowers a limit granted to the peer or a limit the
  peer granted, so an update that would decrease a limit has no effect.
\<close>

theorem limits_monotone:
  assumes "flow_inv f" and "flow_guard f e"
  shows "limits_grow f (flow_step f e)"
  using assms by (rule flow_step_grows)

theorem limits_monotone_witness:
  "limits_grow demo (flow_step demo (FlPeerMaxData 5)) \<and> peer_max_data (flow_step demo (FlPeerMaxData 5)) = 8388608"
  using limits_monotone [OF demo_inv, of "FlPeerMaxData 5"]
  by (simp add: demo_eval engine_eval)

end
