(* ===== verification/KpsStream.thy ===== *)
theory KpsStream
  imports KpsFlowInv
begin

text \<open>
  \<open>src/libs/rust/kps/src/stream.rs\<close>: a byte stream over one data channel. The record
  \<open>State\<close> is what the mutex guards; \<open>Shared\<close> extends it by the credit engine the stream
  shares with its connection, the lifecycle queue and a log of the effects on the outside
  (fatal hook, wake-ups, close tasks); \<open>WebrtcStream\<close> adds the handle's ordered DATA queue,
  the grant it holds, the position of the writer task, and the history the properties speak
  about (\<open>wire_out\<close>, \<open>arrived\<close>, \<open>accepted\<close>, \<open>delivered\<close>, \<open>lost_credit\<close>).

  What tokio and the WebRTC stack answer (whether the DATA queue has room, the result of a
  send, the buffered amount) is an argument of the operation that asks. Every operation is
  one definition; one that awaits in the middle is one definition per stretch between awaits.
\<close>

section \<open>State\<close>

definition WRITE_BUFFER_LOW :: nat where
  "WRITE_BUFFER_LOW = 1048576"

datatype Terminal = TermFin | TermReset

record State =
  inbuf :: "bytes list"
  peer_fin :: bool
  peer_reset :: "StreamError option"
  peer_stop :: "StreamError option"
  local_terminal :: "Terminal option"
  local_terminal_sent :: bool
  read_cancel :: bool
  drop_data :: bool
  dc_open :: bool
  dc_closed :: bool
  retired_fired :: bool
  st_closed :: bool
  read_waker :: "waker option"

text \<open>
  The hooks are closures of the connection: \<open>retired\<close> returns the peer's slot when the
  stream is peer-initiated, \<open>is_teardown\<close> reads the connection's flag, \<open>fatal\<close> is logged
  for the connection to act on.
\<close>

record Shared = State +
  sh_flow :: ConnFlow
  sh_id :: u64
  peer_initiated :: bool
  is_teardown :: bool
  life_q :: "bytes list"
  fatal_calls :: "(ErrorCode \<times> string) list"
  retired_calls :: nat
  reads_woken :: "waker list"
  open_notified :: nat
  closed_notified :: nat
  buf_low_notified :: nat
  close_tasks :: nat

text \<open>
  Where the writer task stands: before the channel opens, at its \<open>select!\<close>, awaiting the
  send of a lifecycle frame, waiting for buffer space with a DATA-queue frame, awaiting the
  send of that frame, or ended. The flag of a send says that the transport has the frame.
\<close>

datatype writer =
    WrWaiting
  | WrIdle
  | WrLife bytes bool
  | WrHold bytes u64
  | WrData bytes u64 bool
  | WrDone

record WebrtcStream = Shared +
  data_q :: "(bytes \<times> u64) list"
  pending_grant :: u64
  writer_at :: writer
  handle_live :: bool
  close_write_pending :: bool
  wire_out :: "bytes list"
  arrived :: "bytes list"
  accepted :: bytes
  delivered :: bytes
  lost_credit :: nat

definition Stream_new :: "bool \<Rightarrow> bool \<Rightarrow> bool \<Rightarrow> ConnFlow \<Rightarrow> WebrtcStream" where
  "Stream_new peer_init teardown chan_open f =
     (let (i, f') = new_stream f
      in \<lparr>inbuf = [], peer_fin = False, peer_reset = None, peer_stop = None,
          local_terminal = None, local_terminal_sent = False, read_cancel = False,
          drop_data = False, dc_open = chan_open, dc_closed = False, retired_fired = False,
          st_closed = False, read_waker = None,
          sh_flow = f', sh_id = i, peer_initiated = peer_init, is_teardown = teardown,
          life_q = [], fatal_calls = [], retired_calls = 0, reads_woken = [],
          open_notified = 0, closed_notified = 0, buf_low_notified = 0, close_tasks = 0,
          data_q = [], pending_grant = 0, writer_at = WrWaiting, handle_live = True,
          close_write_pending = False, wire_out = [], arrived = [], accepted = [],
          delivered = [], lost_credit = 0\<rparr>)"

definition peer_terminal :: "WebrtcStream \<Rightarrow> bool" where
  "peer_terminal s \<longleftrightarrow> peer_fin s \<or> peer_reset s \<noteq> None"

section \<open>Shared: frames from the peer\<close>

definition wake_reader :: "WebrtcStream \<Rightarrow> WebrtcStream" where
  "wake_reader s =
     (case read_waker s of
        Some w \<Rightarrow> s\<lparr>read_waker := None, reads_woken := reads_woken s @ [w]\<rparr>
      | None \<Rightarrow> s)"

definition fatal_hook :: "string \<Rightarrow> WebrtcStream \<Rightarrow> WebrtcStream" where
  "fatal_hook msg s = s\<lparr>fatal_calls := fatal_calls s @ [(EcProtocolError, msg)]\<rparr>"

definition on_flow :: "(ConnFlow \<Rightarrow> ConnFlow) \<Rightarrow> WebrtcStream \<Rightarrow> WebrtcStream" where
  "on_flow g s = s\<lparr>sh_flow := g (sh_flow s)\<rparr>"

text \<open>A send on the unbounded lifecycle queue; it is lost once the writer task has ended.\<close>

definition life_send :: "bytes \<Rightarrow> WebrtcStream \<Rightarrow> WebrtcStream" where
  "life_send m s = (if writer_at s = WrDone then s else s\<lparr>life_q := life_q s @ [m]\<rparr>)"

definition shared_consumed :: "u64 \<Rightarrow> WebrtcStream \<Rightarrow> WebrtcStream" where
  "shared_consumed n s =
     (let (adv, f) = on_consumed (sh_id s) n (sh_flow s);
          s1 = s\<lparr>sh_flow := f\<rparr>
      in case adv of Some a \<Rightarrow> life_send (encode_max_stream_data a) s1 | None \<Rightarrow> s1)"

text \<open>\<open>if discarded > 0\<close>: bytes thrown away count as consumed.\<close>

definition discard_consumed :: "u64 \<Rightarrow> WebrtcStream \<Rightarrow> WebrtcStream" where
  "discard_consumed n s = (if n > 0 then shared_consumed n s else s)"

definition retired_hook :: "WebrtcStream \<Rightarrow> WebrtcStream" where
  "retired_hook s =
     (if peer_initiated s then on_flow peer_stream_retired s else s)
       \<lparr>retired_calls := Suc (retired_calls s)\<rparr>"

definition maybe_retire :: "WebrtcStream \<Rightarrow> WebrtcStream" where
  "maybe_retire s =
     (let wire_complete = local_terminal_sent s \<and> (peer_fin s \<or> peer_reset s \<noteq> None);
          drained = (inbuf s = []);
          fire = (wire_complete \<and> drained \<and> dc_closed s \<and> \<not> retired_fired s);
          s1 = (if fire then s\<lparr>retired_fired := True\<rparr> else s)
      in if \<not> wire_complete \<or> \<not> drained then s1
         else if \<not> dc_closed s then s1\<lparr>close_tasks := Suc (close_tasks s1)\<rparr>
         else if fire then retired_hook (on_flow (drop_stream (sh_id s1)) s1)
         else s1)"

definition inbuf_bytes :: "WebrtcStream \<Rightarrow> nat" where
  "inbuf_bytes s = sum_list (map length (inbuf s))"

definition on_data_frame :: "bytes \<Rightarrow> WebrtcStream \<Rightarrow> WebrtcStream" where
  "on_data_frame payload s =
     (let n = of_nat (length payload)
      in if peer_fin s \<or> peer_reset s \<noteq> None then fatal_hook ''DATA after terminal frame'' s
         else case on_data_received (sh_id s) n (sh_flow s) of
                (Inl msg, f) \<Rightarrow> fatal_hook msg (s\<lparr>sh_flow := f\<rparr>)
              | (Inr _, f) \<Rightarrow>
                  let s1 = s\<lparr>sh_flow := f\<rparr>
                  in if read_cancel s1 then shared_consumed n s1
                     else wake_reader (s1\<lparr>inbuf := inbuf s1 @ [payload]\<rparr>))"

definition on_fin_frame :: "WebrtcStream \<Rightarrow> WebrtcStream" where
  "on_fin_frame s =
     (if peer_fin s \<or> peer_reset s \<noteq> None then fatal_hook ''second terminal frame'' s
      else maybe_retire (wake_reader (s\<lparr>peer_fin := True\<rparr>)))"

definition on_reset_frame :: "ErrorCode \<Rightarrow> WebrtcStream \<Rightarrow> WebrtcStream" where
  "on_reset_frame code s =
     (if peer_fin s \<or> peer_reset s \<noteq> None then fatal_hook ''second terminal frame'' s
      else
        let s1 = s\<lparr>peer_reset := Some \<lparr>se_code = code, se_remote = True\<rparr>\<rparr>;
            discarded = of_nat (inbuf_bytes s1);
            s2 = wake_reader (s1\<lparr>inbuf := []\<rparr>)
        in maybe_retire (discard_consumed discarded s2))"

definition on_stop_frame :: "ErrorCode \<Rightarrow> WebrtcStream \<Rightarrow> WebrtcStream" where
  "on_stop_frame code s =
     (if peer_stop s \<noteq> None then s
      else
        let s1 = s\<lparr>peer_stop := Some \<lparr>se_code = code, se_remote = True\<rparr>\<rparr>;
            auto_reset = (local_terminal s1 = None);
            s2 = (if auto_reset then s1\<lparr>local_terminal := Some TermReset, drop_data := True\<rparr> else s1);
            s3 = on_flow (fail_send (sh_id s2)) s2;
            s4 = s3\<lparr>buf_low_notified := Suc (buf_low_notified s3)\<rparr>
        in if auto_reset then maybe_retire (life_send (encode_code FtReset code) s4) else s4)"

definition on_frame :: "bytes \<Rightarrow> WebrtcStream \<Rightarrow> WebrtcStream" where
  "on_frame data s =
     (case parse_frame data of
        Inl msg \<Rightarrow> fatal_hook msg s
      | Inr (PfData payload) \<Rightarrow> on_data_frame payload s
      | Inr PfFin \<Rightarrow> on_fin_frame s
      | Inr (PfReset code) \<Rightarrow> on_reset_frame code s
      | Inr (PfStopSending code) \<Rightarrow> on_stop_frame code s
      | Inr (PfMaxStreamData v) \<Rightarrow> on_flow (on_peer_max_stream_data (sh_id s) v) s)"

text \<open>The \<open>on_message\<close> callback: the frame is handled; \<open>arrived\<close> remembers it.\<close>

definition on_message :: "bytes \<Rightarrow> WebrtcStream \<Rightarrow> WebrtcStream" where
  "on_message data s = (on_frame data s)\<lparr>arrived := arrived s @ [data]\<rparr>"

section \<open>Shared: the channel's life\<close>

definition on_open :: "WebrtcStream \<Rightarrow> WebrtcStream" where
  "on_open s = s\<lparr>dc_open := True, open_notified := Suc (open_notified s)\<rparr>"

definition mark_closed :: "WebrtcStream \<Rightarrow> WebrtcStream" where
  "mark_closed s =
     (if \<not> st_closed s then s\<lparr>st_closed := True, closed_notified := Suc (closed_notified s)\<rparr> else s)"

definition on_channel_close :: "WebrtcStream \<Rightarrow> WebrtcStream" where
  "on_channel_close s =
     (let s1 = wake_reader (s\<lparr>dc_closed := True\<rparr>);
          wire_complete = local_terminal_sent s1 \<and> (peer_fin s1 \<or> peer_reset s1 \<noteq> None);
          s2 = (if \<not> wire_complete \<and> \<not> is_teardown s1
                then fatal_hook ''data channel closed mid-stream'' s1 else s1);
          s3 = on_flow (fail_send (sh_id s2)) s2;
          s4 = s3\<lparr>open_notified := Suc (open_notified s3), buf_low_notified := Suc (buf_low_notified s3)\<rparr>
      in maybe_retire (mark_closed s4))"

text \<open>One pass of the waiting loop; \<open>Pending\<close> waits for the next \<open>open_notify\<close>.\<close>

definition wait_open :: "WebrtcStream \<Rightarrow> (Error + unit) poll" where
  "wait_open s =
     (if dc_open s then Ready (Inr ())
      else if dc_closed s then Ready (Inl ErrStreamClosed)
      else Pending)"

section \<open>The writer task\<close>

definition is_kind :: "FrameType \<Rightarrow> bytes \<Rightarrow> bool" where
  "is_kind t fr \<longleftrightarrow> (case fr of [] \<Rightarrow> False | b # _ \<Rightarrow> b = frame_type_byte t)"

definition mark_terminal_sent :: "bytes \<Rightarrow> WebrtcStream \<Rightarrow> WebrtcStream" where
  "mark_terminal_sent fr s =
     (if is_kind FtFin fr \<or> is_kind FtReset fr
      then maybe_retire (s\<lparr>local_terminal_sent := True\<rparr>) else s)"

definition release_held :: "u64 \<Rightarrow> WebrtcStream \<Rightarrow> WebrtcStream" where
  "release_held r s = (if r > 0 then on_flow (release (sh_id s) r) s else s)"

definition queued_credit :: "(bytes \<times> u64) list \<Rightarrow> nat" where
  "queued_credit q = sum_list (map (\<lambda>x. unat (snd x)) q)"

text \<open>The task returns: both receivers are dropped with what they hold.\<close>

definition writer_exit :: "WebrtcStream \<Rightarrow> WebrtcStream" where
  "writer_exit s =
     s\<lparr>writer_at := WrDone, life_q := [], data_q := [],
       lost_credit := lost_credit s + queued_credit (data_q s)\<rparr>"

definition writer_start :: "WebrtcStream \<Rightarrow> WebrtcStream" where
  "writer_start s =
     (case wait_open s of
        Ready (Inr _) \<Rightarrow> s\<lparr>writer_at := WrIdle\<rparr>
      | Ready (Inl _) \<Rightarrow> writer_exit s
      | Pending \<Rightarrow> s)"

definition writer_select :: "WebrtcStream \<Rightarrow> WebrtcStream" where
  "writer_select s =
     (case life_q s of
        m # rest \<Rightarrow> s\<lparr>life_q := rest, writer_at := WrLife m False\<rparr>
      | [] \<Rightarrow>
          (case data_q s of
             (fr, r) # rest \<Rightarrow>
               let s1 = s\<lparr>data_q := rest\<rparr>
               in if drop_data s1 \<and> is_kind FtData fr then release_held r s1
                  else s1\<lparr>writer_at := WrHold fr r\<rparr>
           | [] \<Rightarrow> if handle_live s then s else writer_exit s))"

definition writer_buffer :: "nat \<Rightarrow> WebrtcStream \<Rightarrow> WebrtcStream" where
  "writer_buffer amount s =
     (case writer_at s of
        WrHold fr r \<Rightarrow>
          if dc_closed s then writer_exit (release_held r s)
          else if amount \<le> WRITE_BUFFER_LOW then s\<lparr>writer_at := WrData fr r False\<rparr>
          else s
      | _ \<Rightarrow> s)"

text \<open>During the await of \<open>dc.send\<close> the transport takes the frame.\<close>

definition writer_transmit :: "WebrtcStream \<Rightarrow> WebrtcStream" where
  "writer_transmit s =
     (case writer_at s of
        WrLife m False \<Rightarrow> s\<lparr>writer_at := WrLife m True, wire_out := wire_out s @ [m]\<rparr>
      | WrData fr r False \<Rightarrow> s\<lparr>writer_at := WrData fr r True, wire_out := wire_out s @ [fr]\<rparr>
      | _ \<Rightarrow> s)"

text \<open>The await returns; \<open>ok\<close> is the result.\<close>

definition writer_sent :: "bool \<Rightarrow> WebrtcStream \<Rightarrow> WebrtcStream" where
  "writer_sent ok s =
     (case writer_at s of
        WrLife m _ \<Rightarrow>
          if \<not> ok then writer_exit s
          else (mark_terminal_sent m s)\<lparr>writer_at := WrIdle\<rparr>
      | WrData fr r _ \<Rightarrow>
          if ok
          then let s1 = (if r > 0 then on_flow (commit (sh_id s) r) s else s)
               in (mark_terminal_sent fr s1)\<lparr>writer_at := WrIdle\<rparr>
          else writer_exit (release_held r s)
      | _ \<Rightarrow> s)"

section \<open>Reading\<close>

text \<open>\<open>cap\<close> is \<open>buf.remaining()\<close>; the result carries the bytes put into the buffer.\<close>

definition poll_read :: "waker \<Rightarrow> nat \<Rightarrow> WebrtcStream \<Rightarrow> (Error + bytes) poll \<times> WebrtcStream" where
  "poll_read w cap s =
     (case inbuf s of
        chunk # rest \<Rightarrow>
          let n = min (length chunk) cap;
              s1 = s\<lparr>inbuf := (if n = length chunk then rest else drop n chunk # rest),
                     delivered := delivered s @ take n chunk\<rparr>
          in (Ready (Inr (take n chunk)), maybe_retire (shared_consumed (of_nat n) s1))
      | [] \<Rightarrow>
          if read_cancel s then (Ready (Inl ErrStreamClosed), s)
          else case peer_reset s of
                 Some err \<Rightarrow> (Ready (Inl (ErrStream err)), s)
               | None \<Rightarrow>
                   if peer_fin s then (Ready (Inr []), s)
                   else if dc_closed s then (Ready (Inl ErrStreamClosed), s)
                   else (Pending, s\<lparr>read_waker := Some w\<rparr>))"

section \<open>Writing\<close>

text \<open>
  First the credit (kept in \<open>pending_grant\<close>), then the place in the queue.
  \<open>q\<close> is what \<open>data_poll_tx.poll_reserve\<close> answers and \<open>item_ok\<close> whether \<open>send_item\<close>
  succeeds. \<open>None\<close> is the panic of \<open>&buf[..n]\<close> with \<open>n\<close> beyond the buffer.
\<close>

definition write_credit ::
  "waker \<Rightarrow> bytes \<Rightarrow> WebrtcStream \<Rightarrow> (Error + unit) poll \<times> WebrtcStream" where
  "write_credit w buf s =
     (if pending_grant s = 0
      then let want = of_nat (min (length buf) MAX_FRAME_PAYLOAD)
           in case poll_reserve w (sh_id s) want (sh_flow s) of
                (Pending, f) \<Rightarrow> (Pending, s\<lparr>sh_flow := f\<rparr>)
              | (Ready (Inl e), f) \<Rightarrow> (Ready (Inl e), s\<lparr>sh_flow := f\<rparr>)
              | (Ready (Inr granted), f) \<Rightarrow> (Ready (Inr ()), s\<lparr>sh_flow := f, pending_grant := granted\<rparr>)
      else (Ready (Inr ()), s))"

definition give_back_grant :: "WebrtcStream \<Rightarrow> WebrtcStream" where
  "give_back_grant s = (on_flow (release (sh_id s) (pending_grant s)) s)\<lparr>pending_grant := 0\<rparr>"

definition write_queue ::
  "bytes \<Rightarrow> (unit + unit) poll \<Rightarrow> bool \<Rightarrow> WebrtcStream \<Rightarrow> (Error + nat) poll option \<times> WebrtcStream" where
  "write_queue buf q item_ok s =
     (let granted = pending_grant s
      in case q of
           Pending \<Rightarrow> (Some Pending, s)
         | Ready (Inl _) \<Rightarrow> (Some (Ready (Inl ErrStreamClosed)), give_back_grant s)
         | Ready (Inr _) \<Rightarrow>
             let n = unat granted
             in if n > length buf then (None, s)
                else if \<not> item_ok then (Some (Ready (Inl ErrStreamClosed)), give_back_grant s)
                else (Some (Ready (Inr n)),
                      s\<lparr>data_q := data_q s @ [(encode_data (take n buf), granted)],
                        pending_grant := 0, accepted := accepted s @ take n buf\<rparr>))"

definition poll_write ::
  "waker \<Rightarrow> bytes \<Rightarrow> (unit + unit) poll \<Rightarrow> bool \<Rightarrow> WebrtcStream
     \<Rightarrow> (Error + nat) poll option \<times> WebrtcStream" where
  "poll_write w buf q item_ok s =
     (case peer_stop s of
        Some err \<Rightarrow> (Some (Ready (Inl (ErrStream err))), s)
      | None \<Rightarrow>
          if local_terminal s \<noteq> None then (Some (Ready (Inl ErrWriteClosed)), s)
          else if dc_closed s then (Some (Ready (Inl ErrStreamClosed)), s)
          else case write_credit w buf s of
                 (Pending, s1) \<Rightarrow> (Some Pending, s1)
               | (Ready (Inl e), s1) \<Rightarrow> (Some (Ready (Inl e)), s1)
               | (Ready (Inr _), s1) \<Rightarrow> write_queue buf q item_ok s1)"

definition poll_flush :: "WebrtcStream \<Rightarrow> (Error + unit) poll" where
  "poll_flush s = Ready (Inr ())"

text \<open>\<open>item_ok\<close> as above; its failure is ignored by the code.\<close>

definition poll_shutdown ::
  "(unit + unit) poll \<Rightarrow> bool \<Rightarrow> WebrtcStream \<Rightarrow> (Error + unit) poll \<times> WebrtcStream" where
  "poll_shutdown q item_ok s =
     (if local_terminal s \<noteq> None then (Ready (Inr ()), s)
      else
        let s1 = s\<lparr>local_terminal := Some TermFin\<rparr>
        in case q of
             Pending \<Rightarrow> (Pending, s1\<lparr>local_terminal := None\<rparr>)
           | Ready (Inl _) \<Rightarrow> (Ready (Inl ErrStreamClosed), s1)
           | Ready (Inr _) \<Rightarrow>
               let s2 = (if item_ok then s1\<lparr>data_q := data_q s1 @ [(encode_fin, 0)]\<rparr> else s1)
               in (Ready (Inr ()), maybe_retire (on_flow (fail_send (sh_id s2)) s2)))"

section \<open>Closing the halves\<close>

text \<open>
  \<open>close_write\<close> up to its await, and from the await's result on; \<open>None\<close> as the first
  result means that it goes on to the await. The future may be dropped at the await.
\<close>

definition close_write_begin :: "WebrtcStream \<Rightarrow> (Error + unit) option \<times> WebrtcStream" where
  "close_write_begin s =
     (if local_terminal s \<noteq> None then (Some (Inr ()), s)
      else (None, (on_flow (fail_send (sh_id s)) (s\<lparr>local_terminal := Some TermFin\<rparr>))
                    \<lparr>close_write_pending := True\<rparr>))"

definition close_write_finish :: "bool \<Rightarrow> WebrtcStream \<Rightarrow> (Error + unit) \<times> WebrtcStream" where
  "close_write_finish sent s =
     (let s1 = s\<lparr>close_write_pending := False\<rparr>
      in if \<not> sent then (Inl ErrStreamClosed, s1)
         else (Inr (), maybe_retire (s1\<lparr>data_q := data_q s1 @ [(encode_fin, 0)]\<rparr>)))"

definition close_write_abandon :: "WebrtcStream \<Rightarrow> WebrtcStream" where
  "close_write_abandon s = s\<lparr>close_write_pending := False\<rparr>"

definition close_write :: "bool \<Rightarrow> WebrtcStream \<Rightarrow> (Error + unit) \<times> WebrtcStream" where
  "close_write sent s =
     (case close_write_begin s of
        (Some r, s1) \<Rightarrow> (r, s1)
      | (None, s1) \<Rightarrow> close_write_finish sent s1)"

definition cancel_read :: "ErrorCode \<Rightarrow> WebrtcStream \<Rightarrow> WebrtcStream" where
  "cancel_read code s =
     (if read_cancel s then s
      else
        let s1 = s\<lparr>read_cancel := True\<rparr>;
            discarded = of_nat (inbuf_bytes s1);
            s2 = wake_reader (s1\<lparr>inbuf := []\<rparr>);
            had_terminal = peer_terminal s2;
            s3 = on_flow (mark_cancelled (sh_id s2)) s2;
            s4 = discard_consumed discarded s3;
            s5 = (if \<not> had_terminal then life_send (encode_code FtStopSending code) s4 else s4)
        in maybe_retire s5)"

definition reset_write :: "ErrorCode \<Rightarrow> WebrtcStream \<Rightarrow> WebrtcStream" where
  "reset_write code s =
     (if local_terminal s \<noteq> None then s
      else
        let s1 = s\<lparr>local_terminal := Some TermReset, drop_data := True\<rparr>;
            s2 = on_flow (fail_send (sh_id s1)) s1;
            s3 = s2\<lparr>buf_low_notified := Suc (buf_low_notified s2)\<rparr>
        in maybe_retire (life_send (encode_code FtReset code) s3))"

definition stream_close :: "bool \<Rightarrow> WebrtcStream \<Rightarrow> WebrtcStream" where
  "stream_close sent s = cancel_read EcClosed (snd (close_write sent s))"

definition stream_close_with_error :: "ErrorCode \<Rightarrow> WebrtcStream \<Rightarrow> WebrtcStream" where
  "stream_close_with_error code s = cancel_read code (reset_write code s)"

text \<open>One pass of the waiting loop of \<open>closed\<close>, and \<open>err\<close>.\<close>

definition stream_closed :: "WebrtcStream \<Rightarrow> unit poll" where
  "stream_closed s = (if st_closed s then Ready () else Pending)"

definition stream_err :: "WebrtcStream \<Rightarrow> StreamError option" where
  "stream_err s = peer_reset s"

definition stream_drop :: "WebrtcStream \<Rightarrow> WebrtcStream" where
  "stream_drop s =
     (if pending_grant s > 0 then on_flow (release (sh_id s) (pending_grant s)) s else s)
       \<lparr>pending_grant := 0, handle_live := False\<rparr>"

end
