(* ===== verification/KpsStreamFrame.thy ===== *)
theory KpsStreamFrame
  imports KpsStream
begin

text \<open>
  What each helper of the stream leaves alone. The lists carry the invariant proofs:
  with them a property of some fields is kept by every helper that does not name them.
\<close>

lemma wake_reader_frame [simp]:
  "inbuf (wake_reader s) = inbuf s"
  "peer_fin (wake_reader s) = peer_fin s"
  "peer_reset (wake_reader s) = peer_reset s"
  "peer_stop (wake_reader s) = peer_stop s"
  "local_terminal (wake_reader s) = local_terminal s"
  "local_terminal_sent (wake_reader s) = local_terminal_sent s"
  "read_cancel (wake_reader s) = read_cancel s"
  "drop_data (wake_reader s) = drop_data s"
  "dc_open (wake_reader s) = dc_open s"
  "dc_closed (wake_reader s) = dc_closed s"
  "retired_fired (wake_reader s) = retired_fired s"
  "st_closed (wake_reader s) = st_closed s"
  "sh_flow (wake_reader s) = sh_flow s"
  "sh_id (wake_reader s) = sh_id s"
  "peer_initiated (wake_reader s) = peer_initiated s"
  "is_teardown (wake_reader s) = is_teardown s"
  "life_q (wake_reader s) = life_q s"
  "fatal_calls (wake_reader s) = fatal_calls s"
  "retired_calls (wake_reader s) = retired_calls s"
  "open_notified (wake_reader s) = open_notified s"
  "closed_notified (wake_reader s) = closed_notified s"
  "buf_low_notified (wake_reader s) = buf_low_notified s"
  "close_tasks (wake_reader s) = close_tasks s"
  "data_q (wake_reader s) = data_q s"
  "pending_grant (wake_reader s) = pending_grant s"
  "writer_at (wake_reader s) = writer_at s"
  "handle_live (wake_reader s) = handle_live s"
  "close_write_pending (wake_reader s) = close_write_pending s"
  "wire_out (wake_reader s) = wire_out s"
  "arrived (wake_reader s) = arrived s"
  "accepted (wake_reader s) = accepted s"
  "delivered (wake_reader s) = delivered s"
  "lost_credit (wake_reader s) = lost_credit s"
  by (simp_all add: wake_reader_def split: option.split)

lemma fatal_hook_frame [simp]:
  "inbuf (fatal_hook m s) = inbuf s"
  "peer_fin (fatal_hook m s) = peer_fin s"
  "peer_reset (fatal_hook m s) = peer_reset s"
  "peer_stop (fatal_hook m s) = peer_stop s"
  "local_terminal (fatal_hook m s) = local_terminal s"
  "local_terminal_sent (fatal_hook m s) = local_terminal_sent s"
  "read_cancel (fatal_hook m s) = read_cancel s"
  "drop_data (fatal_hook m s) = drop_data s"
  "dc_open (fatal_hook m s) = dc_open s"
  "dc_closed (fatal_hook m s) = dc_closed s"
  "retired_fired (fatal_hook m s) = retired_fired s"
  "st_closed (fatal_hook m s) = st_closed s"
  "read_waker (fatal_hook m s) = read_waker s"
  "sh_flow (fatal_hook m s) = sh_flow s"
  "sh_id (fatal_hook m s) = sh_id s"
  "peer_initiated (fatal_hook m s) = peer_initiated s"
  "is_teardown (fatal_hook m s) = is_teardown s"
  "life_q (fatal_hook m s) = life_q s"
  "retired_calls (fatal_hook m s) = retired_calls s"
  "reads_woken (fatal_hook m s) = reads_woken s"
  "open_notified (fatal_hook m s) = open_notified s"
  "closed_notified (fatal_hook m s) = closed_notified s"
  "buf_low_notified (fatal_hook m s) = buf_low_notified s"
  "close_tasks (fatal_hook m s) = close_tasks s"
  "data_q (fatal_hook m s) = data_q s"
  "pending_grant (fatal_hook m s) = pending_grant s"
  "writer_at (fatal_hook m s) = writer_at s"
  "handle_live (fatal_hook m s) = handle_live s"
  "close_write_pending (fatal_hook m s) = close_write_pending s"
  "wire_out (fatal_hook m s) = wire_out s"
  "arrived (fatal_hook m s) = arrived s"
  "accepted (fatal_hook m s) = accepted s"
  "delivered (fatal_hook m s) = delivered s"
  "lost_credit (fatal_hook m s) = lost_credit s"
  by (simp_all add: fatal_hook_def)

lemma on_flow_frame [simp]:
  "inbuf (on_flow g s) = inbuf s"
  "peer_fin (on_flow g s) = peer_fin s"
  "peer_reset (on_flow g s) = peer_reset s"
  "peer_stop (on_flow g s) = peer_stop s"
  "local_terminal (on_flow g s) = local_terminal s"
  "local_terminal_sent (on_flow g s) = local_terminal_sent s"
  "read_cancel (on_flow g s) = read_cancel s"
  "drop_data (on_flow g s) = drop_data s"
  "dc_open (on_flow g s) = dc_open s"
  "dc_closed (on_flow g s) = dc_closed s"
  "retired_fired (on_flow g s) = retired_fired s"
  "st_closed (on_flow g s) = st_closed s"
  "read_waker (on_flow g s) = read_waker s"
  "sh_id (on_flow g s) = sh_id s"
  "peer_initiated (on_flow g s) = peer_initiated s"
  "is_teardown (on_flow g s) = is_teardown s"
  "life_q (on_flow g s) = life_q s"
  "fatal_calls (on_flow g s) = fatal_calls s"
  "retired_calls (on_flow g s) = retired_calls s"
  "reads_woken (on_flow g s) = reads_woken s"
  "open_notified (on_flow g s) = open_notified s"
  "closed_notified (on_flow g s) = closed_notified s"
  "buf_low_notified (on_flow g s) = buf_low_notified s"
  "close_tasks (on_flow g s) = close_tasks s"
  "data_q (on_flow g s) = data_q s"
  "pending_grant (on_flow g s) = pending_grant s"
  "writer_at (on_flow g s) = writer_at s"
  "handle_live (on_flow g s) = handle_live s"
  "close_write_pending (on_flow g s) = close_write_pending s"
  "wire_out (on_flow g s) = wire_out s"
  "arrived (on_flow g s) = arrived s"
  "accepted (on_flow g s) = accepted s"
  "delivered (on_flow g s) = delivered s"
  "lost_credit (on_flow g s) = lost_credit s"
  by (simp_all add: on_flow_def)

lemma life_send_frame [simp]:
  "inbuf (life_send m s) = inbuf s"
  "peer_fin (life_send m s) = peer_fin s"
  "peer_reset (life_send m s) = peer_reset s"
  "peer_stop (life_send m s) = peer_stop s"
  "local_terminal (life_send m s) = local_terminal s"
  "local_terminal_sent (life_send m s) = local_terminal_sent s"
  "read_cancel (life_send m s) = read_cancel s"
  "drop_data (life_send m s) = drop_data s"
  "dc_open (life_send m s) = dc_open s"
  "dc_closed (life_send m s) = dc_closed s"
  "retired_fired (life_send m s) = retired_fired s"
  "st_closed (life_send m s) = st_closed s"
  "read_waker (life_send m s) = read_waker s"
  "sh_flow (life_send m s) = sh_flow s"
  "sh_id (life_send m s) = sh_id s"
  "peer_initiated (life_send m s) = peer_initiated s"
  "is_teardown (life_send m s) = is_teardown s"
  "fatal_calls (life_send m s) = fatal_calls s"
  "retired_calls (life_send m s) = retired_calls s"
  "reads_woken (life_send m s) = reads_woken s"
  "open_notified (life_send m s) = open_notified s"
  "closed_notified (life_send m s) = closed_notified s"
  "buf_low_notified (life_send m s) = buf_low_notified s"
  "close_tasks (life_send m s) = close_tasks s"
  "data_q (life_send m s) = data_q s"
  "pending_grant (life_send m s) = pending_grant s"
  "writer_at (life_send m s) = writer_at s"
  "handle_live (life_send m s) = handle_live s"
  "close_write_pending (life_send m s) = close_write_pending s"
  "wire_out (life_send m s) = wire_out s"
  "arrived (life_send m s) = arrived s"
  "accepted (life_send m s) = accepted s"
  "delivered (life_send m s) = delivered s"
  "lost_credit (life_send m s) = lost_credit s"
  by (simp_all add: life_send_def)

lemma shared_consumed_frame [simp]:
  "inbuf (shared_consumed n s) = inbuf s"
  "peer_fin (shared_consumed n s) = peer_fin s"
  "peer_reset (shared_consumed n s) = peer_reset s"
  "peer_stop (shared_consumed n s) = peer_stop s"
  "local_terminal (shared_consumed n s) = local_terminal s"
  "local_terminal_sent (shared_consumed n s) = local_terminal_sent s"
  "read_cancel (shared_consumed n s) = read_cancel s"
  "drop_data (shared_consumed n s) = drop_data s"
  "dc_open (shared_consumed n s) = dc_open s"
  "dc_closed (shared_consumed n s) = dc_closed s"
  "retired_fired (shared_consumed n s) = retired_fired s"
  "st_closed (shared_consumed n s) = st_closed s"
  "read_waker (shared_consumed n s) = read_waker s"
  "sh_id (shared_consumed n s) = sh_id s"
  "peer_initiated (shared_consumed n s) = peer_initiated s"
  "is_teardown (shared_consumed n s) = is_teardown s"
  "fatal_calls (shared_consumed n s) = fatal_calls s"
  "retired_calls (shared_consumed n s) = retired_calls s"
  "reads_woken (shared_consumed n s) = reads_woken s"
  "open_notified (shared_consumed n s) = open_notified s"
  "closed_notified (shared_consumed n s) = closed_notified s"
  "buf_low_notified (shared_consumed n s) = buf_low_notified s"
  "close_tasks (shared_consumed n s) = close_tasks s"
  "data_q (shared_consumed n s) = data_q s"
  "pending_grant (shared_consumed n s) = pending_grant s"
  "writer_at (shared_consumed n s) = writer_at s"
  "handle_live (shared_consumed n s) = handle_live s"
  "close_write_pending (shared_consumed n s) = close_write_pending s"
  "wire_out (shared_consumed n s) = wire_out s"
  "arrived (shared_consumed n s) = arrived s"
  "accepted (shared_consumed n s) = accepted s"
  "delivered (shared_consumed n s) = delivered s"
  "lost_credit (shared_consumed n s) = lost_credit s"
  by (simp_all add: shared_consumed_def Let_def split: prod.split option.split)

lemma discard_consumed_frame [simp]:
  "inbuf (discard_consumed n s) = inbuf s"
  "peer_fin (discard_consumed n s) = peer_fin s"
  "peer_reset (discard_consumed n s) = peer_reset s"
  "peer_stop (discard_consumed n s) = peer_stop s"
  "local_terminal (discard_consumed n s) = local_terminal s"
  "local_terminal_sent (discard_consumed n s) = local_terminal_sent s"
  "read_cancel (discard_consumed n s) = read_cancel s"
  "drop_data (discard_consumed n s) = drop_data s"
  "dc_open (discard_consumed n s) = dc_open s"
  "dc_closed (discard_consumed n s) = dc_closed s"
  "retired_fired (discard_consumed n s) = retired_fired s"
  "st_closed (discard_consumed n s) = st_closed s"
  "read_waker (discard_consumed n s) = read_waker s"
  "sh_id (discard_consumed n s) = sh_id s"
  "peer_initiated (discard_consumed n s) = peer_initiated s"
  "is_teardown (discard_consumed n s) = is_teardown s"
  "fatal_calls (discard_consumed n s) = fatal_calls s"
  "retired_calls (discard_consumed n s) = retired_calls s"
  "reads_woken (discard_consumed n s) = reads_woken s"
  "open_notified (discard_consumed n s) = open_notified s"
  "closed_notified (discard_consumed n s) = closed_notified s"
  "buf_low_notified (discard_consumed n s) = buf_low_notified s"
  "close_tasks (discard_consumed n s) = close_tasks s"
  "data_q (discard_consumed n s) = data_q s"
  "pending_grant (discard_consumed n s) = pending_grant s"
  "writer_at (discard_consumed n s) = writer_at s"
  "handle_live (discard_consumed n s) = handle_live s"
  "close_write_pending (discard_consumed n s) = close_write_pending s"
  "wire_out (discard_consumed n s) = wire_out s"
  "arrived (discard_consumed n s) = arrived s"
  "accepted (discard_consumed n s) = accepted s"
  "delivered (discard_consumed n s) = delivered s"
  "lost_credit (discard_consumed n s) = lost_credit s"
  by (simp_all add: discard_consumed_def)

lemma retired_hook_frame [simp]:
  "inbuf (retired_hook s) = inbuf s"
  "peer_fin (retired_hook s) = peer_fin s"
  "peer_reset (retired_hook s) = peer_reset s"
  "peer_stop (retired_hook s) = peer_stop s"
  "local_terminal (retired_hook s) = local_terminal s"
  "local_terminal_sent (retired_hook s) = local_terminal_sent s"
  "read_cancel (retired_hook s) = read_cancel s"
  "drop_data (retired_hook s) = drop_data s"
  "dc_open (retired_hook s) = dc_open s"
  "dc_closed (retired_hook s) = dc_closed s"
  "retired_fired (retired_hook s) = retired_fired s"
  "st_closed (retired_hook s) = st_closed s"
  "read_waker (retired_hook s) = read_waker s"
  "sh_id (retired_hook s) = sh_id s"
  "peer_initiated (retired_hook s) = peer_initiated s"
  "is_teardown (retired_hook s) = is_teardown s"
  "life_q (retired_hook s) = life_q s"
  "fatal_calls (retired_hook s) = fatal_calls s"
  "reads_woken (retired_hook s) = reads_woken s"
  "open_notified (retired_hook s) = open_notified s"
  "closed_notified (retired_hook s) = closed_notified s"
  "buf_low_notified (retired_hook s) = buf_low_notified s"
  "close_tasks (retired_hook s) = close_tasks s"
  "data_q (retired_hook s) = data_q s"
  "pending_grant (retired_hook s) = pending_grant s"
  "writer_at (retired_hook s) = writer_at s"
  "handle_live (retired_hook s) = handle_live s"
  "close_write_pending (retired_hook s) = close_write_pending s"
  "wire_out (retired_hook s) = wire_out s"
  "arrived (retired_hook s) = arrived s"
  "accepted (retired_hook s) = accepted s"
  "delivered (retired_hook s) = delivered s"
  "lost_credit (retired_hook s) = lost_credit s"
  by (simp_all add: retired_hook_def)

lemma maybe_retire_frame [simp]:
  "inbuf (maybe_retire s) = inbuf s"
  "peer_fin (maybe_retire s) = peer_fin s"
  "peer_reset (maybe_retire s) = peer_reset s"
  "peer_stop (maybe_retire s) = peer_stop s"
  "local_terminal (maybe_retire s) = local_terminal s"
  "local_terminal_sent (maybe_retire s) = local_terminal_sent s"
  "read_cancel (maybe_retire s) = read_cancel s"
  "drop_data (maybe_retire s) = drop_data s"
  "dc_open (maybe_retire s) = dc_open s"
  "dc_closed (maybe_retire s) = dc_closed s"
  "st_closed (maybe_retire s) = st_closed s"
  "read_waker (maybe_retire s) = read_waker s"
  "sh_id (maybe_retire s) = sh_id s"
  "peer_initiated (maybe_retire s) = peer_initiated s"
  "is_teardown (maybe_retire s) = is_teardown s"
  "life_q (maybe_retire s) = life_q s"
  "fatal_calls (maybe_retire s) = fatal_calls s"
  "reads_woken (maybe_retire s) = reads_woken s"
  "open_notified (maybe_retire s) = open_notified s"
  "closed_notified (maybe_retire s) = closed_notified s"
  "buf_low_notified (maybe_retire s) = buf_low_notified s"
  "data_q (maybe_retire s) = data_q s"
  "pending_grant (maybe_retire s) = pending_grant s"
  "writer_at (maybe_retire s) = writer_at s"
  "handle_live (maybe_retire s) = handle_live s"
  "close_write_pending (maybe_retire s) = close_write_pending s"
  "wire_out (maybe_retire s) = wire_out s"
  "arrived (maybe_retire s) = arrived s"
  "accepted (maybe_retire s) = accepted s"
  "delivered (maybe_retire s) = delivered s"
  "lost_credit (maybe_retire s) = lost_credit s"
  by (simp_all add: maybe_retire_def Let_def)

lemma mark_closed_frame [simp]:
  "inbuf (mark_closed s) = inbuf s"
  "peer_fin (mark_closed s) = peer_fin s"
  "peer_reset (mark_closed s) = peer_reset s"
  "peer_stop (mark_closed s) = peer_stop s"
  "local_terminal (mark_closed s) = local_terminal s"
  "local_terminal_sent (mark_closed s) = local_terminal_sent s"
  "read_cancel (mark_closed s) = read_cancel s"
  "drop_data (mark_closed s) = drop_data s"
  "dc_open (mark_closed s) = dc_open s"
  "dc_closed (mark_closed s) = dc_closed s"
  "retired_fired (mark_closed s) = retired_fired s"
  "read_waker (mark_closed s) = read_waker s"
  "sh_flow (mark_closed s) = sh_flow s"
  "sh_id (mark_closed s) = sh_id s"
  "peer_initiated (mark_closed s) = peer_initiated s"
  "is_teardown (mark_closed s) = is_teardown s"
  "life_q (mark_closed s) = life_q s"
  "fatal_calls (mark_closed s) = fatal_calls s"
  "retired_calls (mark_closed s) = retired_calls s"
  "reads_woken (mark_closed s) = reads_woken s"
  "open_notified (mark_closed s) = open_notified s"
  "buf_low_notified (mark_closed s) = buf_low_notified s"
  "close_tasks (mark_closed s) = close_tasks s"
  "data_q (mark_closed s) = data_q s"
  "pending_grant (mark_closed s) = pending_grant s"
  "writer_at (mark_closed s) = writer_at s"
  "handle_live (mark_closed s) = handle_live s"
  "close_write_pending (mark_closed s) = close_write_pending s"
  "wire_out (mark_closed s) = wire_out s"
  "arrived (mark_closed s) = arrived s"
  "accepted (mark_closed s) = accepted s"
  "delivered (mark_closed s) = delivered s"
  "lost_credit (mark_closed s) = lost_credit s"
  by (simp_all add: mark_closed_def)

lemma mark_terminal_sent_frame [simp]:
  "inbuf (mark_terminal_sent fr s) = inbuf s"
  "peer_fin (mark_terminal_sent fr s) = peer_fin s"
  "peer_reset (mark_terminal_sent fr s) = peer_reset s"
  "peer_stop (mark_terminal_sent fr s) = peer_stop s"
  "local_terminal (mark_terminal_sent fr s) = local_terminal s"
  "read_cancel (mark_terminal_sent fr s) = read_cancel s"
  "drop_data (mark_terminal_sent fr s) = drop_data s"
  "dc_open (mark_terminal_sent fr s) = dc_open s"
  "dc_closed (mark_terminal_sent fr s) = dc_closed s"
  "st_closed (mark_terminal_sent fr s) = st_closed s"
  "read_waker (mark_terminal_sent fr s) = read_waker s"
  "sh_id (mark_terminal_sent fr s) = sh_id s"
  "peer_initiated (mark_terminal_sent fr s) = peer_initiated s"
  "is_teardown (mark_terminal_sent fr s) = is_teardown s"
  "life_q (mark_terminal_sent fr s) = life_q s"
  "fatal_calls (mark_terminal_sent fr s) = fatal_calls s"
  "reads_woken (mark_terminal_sent fr s) = reads_woken s"
  "open_notified (mark_terminal_sent fr s) = open_notified s"
  "closed_notified (mark_terminal_sent fr s) = closed_notified s"
  "buf_low_notified (mark_terminal_sent fr s) = buf_low_notified s"
  "data_q (mark_terminal_sent fr s) = data_q s"
  "pending_grant (mark_terminal_sent fr s) = pending_grant s"
  "writer_at (mark_terminal_sent fr s) = writer_at s"
  "handle_live (mark_terminal_sent fr s) = handle_live s"
  "close_write_pending (mark_terminal_sent fr s) = close_write_pending s"
  "wire_out (mark_terminal_sent fr s) = wire_out s"
  "arrived (mark_terminal_sent fr s) = arrived s"
  "accepted (mark_terminal_sent fr s) = accepted s"
  "delivered (mark_terminal_sent fr s) = delivered s"
  "lost_credit (mark_terminal_sent fr s) = lost_credit s"
  by (simp_all add: mark_terminal_sent_def)

lemma release_held_frame [simp]:
  "inbuf (release_held r s) = inbuf s"
  "peer_fin (release_held r s) = peer_fin s"
  "peer_reset (release_held r s) = peer_reset s"
  "peer_stop (release_held r s) = peer_stop s"
  "local_terminal (release_held r s) = local_terminal s"
  "local_terminal_sent (release_held r s) = local_terminal_sent s"
  "read_cancel (release_held r s) = read_cancel s"
  "drop_data (release_held r s) = drop_data s"
  "dc_open (release_held r s) = dc_open s"
  "dc_closed (release_held r s) = dc_closed s"
  "retired_fired (release_held r s) = retired_fired s"
  "st_closed (release_held r s) = st_closed s"
  "read_waker (release_held r s) = read_waker s"
  "sh_id (release_held r s) = sh_id s"
  "peer_initiated (release_held r s) = peer_initiated s"
  "is_teardown (release_held r s) = is_teardown s"
  "life_q (release_held r s) = life_q s"
  "fatal_calls (release_held r s) = fatal_calls s"
  "retired_calls (release_held r s) = retired_calls s"
  "reads_woken (release_held r s) = reads_woken s"
  "open_notified (release_held r s) = open_notified s"
  "closed_notified (release_held r s) = closed_notified s"
  "buf_low_notified (release_held r s) = buf_low_notified s"
  "close_tasks (release_held r s) = close_tasks s"
  "data_q (release_held r s) = data_q s"
  "pending_grant (release_held r s) = pending_grant s"
  "writer_at (release_held r s) = writer_at s"
  "handle_live (release_held r s) = handle_live s"
  "close_write_pending (release_held r s) = close_write_pending s"
  "wire_out (release_held r s) = wire_out s"
  "arrived (release_held r s) = arrived s"
  "accepted (release_held r s) = accepted s"
  "delivered (release_held r s) = delivered s"
  "lost_credit (release_held r s) = lost_credit s"
  by (simp_all add: release_held_def)

lemma peer_terminal_frame [simp]:
  "peer_terminal (wake_reader s) = peer_terminal s"
  "peer_terminal (fatal_hook m s) = peer_terminal s"
  "peer_terminal (on_flow g s) = peer_terminal s"
  "peer_terminal (life_send fr s) = peer_terminal s"
  "peer_terminal (shared_consumed n s) = peer_terminal s"
  "peer_terminal (discard_consumed n s) = peer_terminal s"
  "peer_terminal (maybe_retire s) = peer_terminal s"
  "peer_terminal (mark_closed s) = peer_terminal s"
  by (simp_all add: peer_terminal_def)

lemma sh_flow_helpers [simp]:
  "sh_flow (on_flow g s) = g (sh_flow s)"
  "sh_flow (shared_consumed n s) = snd (on_consumed (sh_id s) n (sh_flow s))"
  "sh_flow (discard_consumed n s) =
     (if n > 0 then snd (on_consumed (sh_id s) n (sh_flow s)) else sh_flow s)"
  "sh_flow (release_held r s) = (if r > 0 then release (sh_id s) r (sh_flow s) else sh_flow s)"
  by (simp_all add: on_flow_def shared_consumed_def release_held_def discard_consumed_def Let_def
      split: prod.split option.split)

lemma life_q_helpers:
  "life_q (life_send fr s) = (if writer_at s = WrDone then life_q s else life_q s @ [fr])"
  "life_q (shared_consumed n s) =
     (case fst (on_consumed (sh_id s) n (sh_flow s)) of
        Some a \<Rightarrow> (if writer_at s = WrDone then life_q s else life_q s @ [encode_max_stream_data a])
      | None \<Rightarrow> life_q s)"
  by (simp_all add: life_send_def shared_consumed_def Let_def split: prod.split option.split)

text \<open>When \<open>maybe_retire\<close> fires, and what it does then.\<close>

definition retire_due :: "WebrtcStream \<Rightarrow> bool" where
  "retire_due s \<longleftrightarrow> dc_closed s \<and> local_terminal_sent s \<and> peer_terminal s \<and> inbuf s = []"

lemma maybe_retire_due:
  assumes "retire_due s" and "\<not> retired_fired s"
  shows "maybe_retire s = retired_hook (on_flow (drop_stream (sh_id s)) (s\<lparr>retired_fired := True\<rparr>))"
  using assms by (simp add: maybe_retire_def retire_due_def peer_terminal_def Let_def)

lemma maybe_retire_idle:
  assumes "\<not> (retire_due s \<and> \<not> retired_fired s)"
  shows "sh_flow (maybe_retire s) = sh_flow s" and "retired_fired (maybe_retire s) = retired_fired s"
    and "retired_calls (maybe_retire s) = retired_calls s"
  using assms by (auto simp: maybe_retire_def retire_due_def peer_terminal_def Let_def)

lemma maybe_retire_fields:
  "retired_fired (maybe_retire s) \<longleftrightarrow> retired_fired s \<or> retire_due s"
  "retired_calls (maybe_retire s) = retired_calls s + of_bool (retire_due s \<and> \<not> retired_fired s)"
  "sh_flow (maybe_retire s) =
     (if retire_due s \<and> \<not> retired_fired s
      then (if peer_initiated s then peer_stream_retired (drop_stream (sh_id s) (sh_flow s))
            else drop_stream (sh_id s) (sh_flow s))
      else sh_flow s)"
proof -
  have "retired_fired (maybe_retire s) = (retired_fired s \<or> retire_due s) \<and>
    retired_calls (maybe_retire s) = retired_calls s + of_bool (retire_due s \<and> \<not> retired_fired s) \<and>
    sh_flow (maybe_retire s) =
     (if retire_due s \<and> \<not> retired_fired s
      then (if peer_initiated s then peer_stream_retired (drop_stream (sh_id s) (sh_flow s))
            else drop_stream (sh_id s) (sh_flow s))
      else sh_flow s)"
  proof (cases "retire_due s \<and> \<not> retired_fired s")
    case True
    then show ?thesis by (simp add: maybe_retire_due retired_hook_def on_flow_def)
  next
    case False
    then show ?thesis using maybe_retire_idle [OF False] by auto
  qed
  then show "retired_fired (maybe_retire s) \<longleftrightarrow> retired_fired s \<or> retire_due s"
    and "retired_calls (maybe_retire s) = retired_calls s + of_bool (retire_due s \<and> \<not> retired_fired s)"
    and "sh_flow (maybe_retire s) =
     (if retire_due s \<and> \<not> retired_fired s
      then (if peer_initiated s then peer_stream_retired (drop_stream (sh_id s) (sh_flow s))
            else drop_stream (sh_id s) (sh_flow s))
      else sh_flow s)" by blast+
qed

lemma inbuf_bytes_frame [simp]:
  "inbuf_bytes (wake_reader s) = inbuf_bytes s"
  "inbuf_bytes (on_flow g s) = inbuf_bytes s"
  "inbuf_bytes (life_send fr s) = inbuf_bytes s"
  "inbuf_bytes (shared_consumed n s) = inbuf_bytes s"
  "inbuf_bytes (discard_consumed n s) = inbuf_bytes s"
  "inbuf_bytes (maybe_retire s) = inbuf_bytes s"
  by (simp_all add: inbuf_bytes_def)

end
