(* ===== verification/KpsStreamInv.thy ===== *)
theory KpsStreamInv
  imports KpsStreamFrame
begin

text \<open>
  The stream as a machine (\<open>stream_step\<close> under \<open>stream_guard\<close>) and its invariant, in four
  parts: the flags and retirement (\<open>state_ok\<close>), the credit accounting against the engine
  (\<open>flow_ok\<close>), what is on the wire (\<open>out_ok\<close>), and what was read (\<open>in_ok\<close>).
\<close>

section \<open>The stream as a machine\<close>

text \<open>
  The callers of a stream: the channel's callbacks, the connection (its teardown flag, and
  the calls that other streams and the control channel make on the shared engine), the
  writer task, and the application.
\<close>

datatype stream_ev =
    SvOpen
  | SvMessage bytes
  | SvClosed
  | SvTeardown
  | SvFlow flow_op
  | SvWriterStart
  | SvWriterSelect
  | SvWriterBuffer nat
  | SvWriterTransmit
  | SvWriterSent bool
  | SvRead waker nat
  | SvWrite waker bytes "(unit + unit) poll" bool
  | SvShutdown "(unit + unit) poll" bool
  | SvCloseWrite
  | SvCloseWriteFinish bool
  | SvCloseWriteAbandon
  | SvCancelRead ErrorCode
  | SvResetWrite ErrorCode
  | SvDrop

fun stream_step :: "WebrtcStream \<Rightarrow> stream_ev \<Rightarrow> WebrtcStream" where
  "stream_step s SvOpen = on_open s"
| "stream_step s (SvMessage data) = on_message data s"
| "stream_step s SvClosed = on_channel_close s"
| "stream_step s SvTeardown = s\<lparr>is_teardown := True\<rparr>"
| "stream_step s (SvFlow op) = on_flow (\<lambda>f. flow_step f op) s"
| "stream_step s SvWriterStart = writer_start s"
| "stream_step s SvWriterSelect = writer_select s"
| "stream_step s (SvWriterBuffer amount) = writer_buffer amount s"
| "stream_step s SvWriterTransmit = writer_transmit s"
| "stream_step s (SvWriterSent ok) = writer_sent ok s"
| "stream_step s (SvRead w cap) = snd (poll_read w cap s)"
| "stream_step s (SvWrite w buf q ok) = snd (poll_write w buf q ok s)"
| "stream_step s (SvShutdown q ok) = snd (poll_shutdown q ok s)"
| "stream_step s SvCloseWrite = snd (close_write_begin s)"
| "stream_step s (SvCloseWriteFinish sent) = snd (close_write_finish sent s)"
| "stream_step s SvCloseWriteAbandon = close_write_abandon s"
| "stream_step s (SvCancelRead code) = cancel_read code s"
| "stream_step s (SvResetWrite code) = reset_write code s"
| "stream_step s SvDrop = stream_drop s"

text \<open>The stream a call on the engine is about, if it is about one.\<close>

fun op_stream :: "flow_op \<Rightarrow> u64 option" where
  "op_stream (FlDropStream i) = Some i"
| "op_stream (FlPollReserve w i n) = Some i"
| "op_stream (FlCommit i n) = Some i"
| "op_stream (FlRelease i n) = Some i"
| "op_stream (FlFailSend i) = Some i"
| "op_stream (FlPeerMaxStreamData i v) = Some i"
| "op_stream (FlDataReceived i n) = Some i"
| "op_stream (FlConsumed i n) = Some i"
| "op_stream (FlMarkCancelled i) = Some i"
| "op_stream _ = None"

text \<open>The DATA queue's answers that its state allows (capacity 32, closed once the task ended).\<close>

definition queue_answer :: "WebrtcStream \<Rightarrow> (unit + unit) poll \<Rightarrow> bool" where
  "queue_answer s q \<longleftrightarrow>
     (case q of
        Pending \<Rightarrow> True
      | Ready (Inl _) \<Rightarrow> writer_at s = WrDone
      | Ready (Inr _) \<Rightarrow> writer_at s \<noteq> WrDone \<and> length (data_q s) < 32)"

text \<open>
  When each event can happen: no message after the channel closed, which it does once; the
  other parties keep the engine's contract and leave this stream's record and slot alone;
  the writer task moves only from where it stands, and a send succeeds if and only if the
  transport has the frame; the application holds the handle and makes one call at a time.
\<close>

fun stream_guard :: "WebrtcStream \<Rightarrow> stream_ev \<Rightarrow> bool" where
  "stream_guard s SvOpen \<longleftrightarrow> True"
| "stream_guard s (SvMessage data) \<longleftrightarrow> \<not> dc_closed s"
| "stream_guard s SvClosed \<longleftrightarrow> \<not> dc_closed s"
| "stream_guard s SvTeardown \<longleftrightarrow> True"
| "stream_guard s (SvFlow op) \<longleftrightarrow>
     flow_guard (sh_flow s) op \<and> op_stream op \<noteq> Some (sh_id s)
     \<and> (op = FlPeerRetired \<and> peer_initiated s \<and> \<not> retired_fired s \<longrightarrow>
          peer_retired_streams (sh_flow s) + 1 < peer_opened_streams (sh_flow s))"
| "stream_guard s SvWriterStart \<longleftrightarrow> writer_at s = WrWaiting"
| "stream_guard s SvWriterSelect \<longleftrightarrow> writer_at s = WrIdle"
| "stream_guard s (SvWriterBuffer amount) \<longleftrightarrow> (\<exists>fr r. writer_at s = WrHold fr r)"
| "stream_guard s SvWriterTransmit \<longleftrightarrow>
     (\<exists>fr r. writer_at s = WrData fr r False) \<or> (\<exists>m. writer_at s = WrLife m False)"
| "stream_guard s (SvWriterSent ok) \<longleftrightarrow>
     (\<exists>fr r. writer_at s = WrData fr r ok) \<or> (\<exists>m. writer_at s = WrLife m ok)"
| "stream_guard s (SvRead w cap) \<longleftrightarrow> handle_live s \<and> \<not> close_write_pending s"
| "stream_guard s (SvWrite w buf q ok) \<longleftrightarrow>
     handle_live s \<and> \<not> close_write_pending s \<and> queue_answer s q"
| "stream_guard s (SvShutdown q ok) \<longleftrightarrow>
     handle_live s \<and> \<not> close_write_pending s \<and> queue_answer s q"
| "stream_guard s SvCloseWrite \<longleftrightarrow> handle_live s \<and> \<not> close_write_pending s"
| "stream_guard s (SvCloseWriteFinish sent) \<longleftrightarrow>
     close_write_pending s \<and> queue_answer s (Ready (if sent then Inr () else Inl ()))"
| "stream_guard s SvCloseWriteAbandon \<longleftrightarrow> close_write_pending s"
| "stream_guard s (SvCancelRead code) \<longleftrightarrow> handle_live s \<and> \<not> close_write_pending s"
| "stream_guard s (SvResetWrite code) \<longleftrightarrow> handle_live s \<and> \<not> close_write_pending s"
| "stream_guard s SvDrop \<longleftrightarrow> handle_live s \<and> \<not> close_write_pending s"

section \<open>Flags and retirement\<close>

text \<open>
  At most one terminal frame of the peer; nothing stays buffered after a reset or a cancel,
  and no buffered chunk is empty; data is being dropped exactly after a local reset; the
  stream has retired exactly when both directions are terminal on the wire, the channel has
  closed and everything is read, and the hook fired once.
\<close>

definition flags_ok :: "WebrtcStream \<Rightarrow> bool" where
  "flags_ok s \<longleftrightarrow>
     \<not> (peer_fin s \<and> peer_reset s \<noteq> None)
     \<and> (peer_reset s \<noteq> None \<or> read_cancel s \<longrightarrow> inbuf s = [])
     \<and> [] \<notin> set (inbuf s)
     \<and> (drop_data s \<longleftrightarrow> local_terminal s = Some TermReset)
     \<and> (local_terminal_sent s \<longrightarrow> local_terminal s \<noteq> None)
     \<and> (close_write_pending s \<longrightarrow> local_terminal s = Some TermFin \<and> handle_live s)
     \<and> (\<not> handle_live s \<longrightarrow> pending_grant s = 0)"

definition state_ok :: "WebrtcStream \<Rightarrow> bool" where
  "state_ok s \<longleftrightarrow>
     flags_ok s \<and> (st_closed s \<longleftrightarrow> dc_closed s)
     \<and> (retired_fired s \<longleftrightarrow> retire_due s) \<and> retired_calls s = of_bool (retired_fired s)"

section \<open>Credit accounting\<close>

definition held_credit :: "WebrtcStream \<Rightarrow> nat" where
  "held_credit s = (case writer_at s of WrHold fr r \<Rightarrow> unat r | WrData fr r b \<Rightarrow> unat r | _ \<Rightarrow> 0)"

text \<open>
  The engine's record of a stream as far as the stream answers for it: the reserved bytes,
  the unread bytes, and whether reading was cancelled.
\<close>

definition own :: "ConnFlow \<Rightarrow> u64 \<Rightarrow> (nat \<times> nat \<times> bool) option" where
  "own f i = map_option (\<lambda>t. (unat (send_reserved t), unread t, cancelled t)) (streams f i)"

text \<open>
  While the stream is registered, its reservation at the engine is what the queue, the
  writer and the handle hold (plus what went down with an ended writer task), and its
  unread bytes are those in the buffer.
\<close>

definition flow_ok :: "WebrtcStream \<Rightarrow> bool" where
  "flow_ok s \<longleftrightarrow>
     flow_inv (sh_flow s) \<and> sh_id s \<le> next_id (sh_flow s)
     \<and> own (sh_flow s) (sh_id s) =
         (if retired_fired s then None
          else Some (queued_credit (data_q s) + held_credit s + unat (pending_grant s) + lost_credit s,
                     inbuf_bytes s, read_cancel s))
     \<and> (peer_initiated s \<and> \<not> retired_fired s \<longrightarrow>
          peer_retired_streams (sh_flow s) < peer_opened_streams (sh_flow s))"

section \<open>The wire\<close>

text \<open>The payload of a frame that carries data.\<close>

definition data_payload :: "bytes \<Rightarrow> bytes" where
  "data_payload fr = (if is_kind FtData fr then tl fr else [])"

definition data_of :: "bytes list \<Rightarrow> bytes" where
  "data_of frs = concat (map data_payload frs)"

definition is_terminal :: "bytes \<Rightarrow> bool" where
  "is_terminal fr \<longleftrightarrow> is_kind FtFin fr \<or> is_kind FtReset fr"

text \<open>
  The order rule of the wire: at most one terminal frame, and no DATA after it; the flag
  says that one was seen.
\<close>

fun wire_ok :: "bool \<Rightarrow> bytes list \<Rightarrow> bool" where
  "wire_ok seen [] = True"
| "wire_ok seen (fr # frs) =
     (if is_kind FtData fr then \<not> seen \<and> wire_ok seen frs
      else if is_terminal fr then \<not> seen \<and> wire_ok True frs
      else wire_ok seen frs)"

text \<open>
  The frames in the writer's hands that the transport does not have yet, from the ordered
  queue and from the lifecycle queue.
\<close>

definition held_data :: "WebrtcStream \<Rightarrow> (bytes \<times> u64) list" where
  "held_data s = (case writer_at s of WrHold fr r \<Rightarrow> [(fr, r)] | WrData fr r False \<Rightarrow> [(fr, r)] | _ \<Rightarrow> [])"

definition held_life :: "WebrtcStream \<Rightarrow> bytes list" where
  "held_life s = (case writer_at s of WrLife m False \<Rightarrow> [m] | _ \<Rightarrow> [])"

text \<open>An entry of the ordered queue: a DATA frame with its credit, or the FIN.\<close>

definition entry_ok :: "bytes \<times> u64 \<Rightarrow> bool" where
  "entry_ok x \<longleftrightarrow>
     (\<exists>p. x = (encode_data p, of_nat (length p)) \<and> p \<noteq> [] \<and> length p \<le> MAX_FRAME_PAYLOAD)
     \<or> x = (encode_fin, 0)"

definition life_ok :: "bytes \<Rightarrow> bool" where
  "life_ok m \<longleftrightarrow>
     (\<exists>c. m = encode_code FtReset c) \<or> (\<exists>c. m = encode_code FtStopSending c)
     \<or> (\<exists>v. m = encode_max_stream_data v \<and> v \<le> MAX_OFFSET)"

definition pending_life :: "WebrtcStream \<Rightarrow> bytes list" where
  "pending_life s = held_life s @ life_q s"

text \<open>
  Terminal frames, on the wire \<open>W\<close>, held (\<open>H\<close>), in the ordered queue (\<open>Q\<close>) and in the
  lifecycle queue (\<open>L\<close>): at most one, of the kind the write half recorded (\<open>lt\<close>), and none
  while a FIN waits to be queued (\<open>cw\<close>); nothing follows a FIN in the ordered queue; once
  one is on the wire no ordered frame is left to send, unless a reset left entries that will
  be dropped.
\<close>

definition terminals :: "bytes list \<Rightarrow> (bytes \<times> u64) list \<Rightarrow> bytes list \<Rightarrow> bytes list" where
  "terminals W Q L = filter is_terminal (W @ map fst Q @ L)"

definition recorded :: "Terminal option \<Rightarrow> bytes \<Rightarrow> bool" where
  "recorded lt fr \<longleftrightarrow> lt = Some (if is_kind FtFin fr then TermFin else TermReset)"

definition terminals_ok ::
  "bytes list \<Rightarrow> (bytes \<times> u64) list \<Rightarrow> (bytes \<times> u64) list \<Rightarrow> bytes list \<Rightarrow> Terminal option \<Rightarrow> bool \<Rightarrow> bool"
where
  "terminals_ok W H Q L lt cw \<longleftrightarrow>
     length (terminals W (H @ Q) L) \<le> (if lt = None \<or> cw then 0 else 1)
     \<and> list_all (recorded lt) (terminals W (H @ Q) L)
     \<and> list_all (\<lambda>x. \<not> is_terminal (fst x)) (butlast (H @ Q))
     \<and> (list_ex is_terminal W \<longrightarrow> H = [] \<and> (lt = Some TermFin \<longrightarrow> Q = []))"

text \<open>
  What was accepted from the application (\<open>acc\<close>) is on the wire, held, queued, or given up;
  nothing is given up while \<open>exact\<close>, nor once a FIN is on the wire.
\<close>

definition payload_ok ::
  "bytes list \<Rightarrow> (bytes \<times> u64) list \<Rightarrow> (bytes \<times> u64) list \<Rightarrow> bytes \<Rightarrow> bool \<Rightarrow> bool" where
  "payload_ok W H Q acc exact \<longleftrightarrow>
     (\<exists>rest. acc = data_of W @ data_of (map fst H) @ rest
        \<and> (exact \<longrightarrow> rest = data_of (map fst Q)))
     \<and> (list_ex (is_kind FtFin) W \<longrightarrow> acc = data_of W)"

text \<open>A frame whose send has not returned yet, but that the transport has.\<close>

definition sent_frame :: "WebrtcStream \<Rightarrow> bytes option" where
  "sent_frame s =
     (case writer_at s of WrLife m True \<Rightarrow> Some m | WrData fr r True \<Rightarrow> Some fr | _ \<Rightarrow> None)"

definition out_ok :: "WebrtcStream \<Rightarrow> bool" where
  "out_ok s \<longleftrightarrow>
     set_option (sent_frame s) \<subseteq> set (wire_out s)
     \<and> unat (pending_grant s) \<le> MAX_FRAME_PAYLOAD
     \<and> list_all entry_ok (held_data s @ data_q s) \<and> list_all life_ok (pending_life s)
     \<and> wire_ok False (wire_out s)
     \<and> terminals_ok (wire_out s) (held_data s) (data_q s) (pending_life s)
                     (local_terminal s) (close_write_pending s)
     \<and> payload_ok (wire_out s) (held_data s) (data_q s) (accepted s)
                   (\<not> drop_data s \<and> writer_at s \<noteq> WrDone)"

section \<open>Reading\<close>

text \<open>
  As long as the peer broke no rule, what it sent is what was read, what is buffered, and
  what a cancel or a reset discarded.
\<close>

definition in_ok :: "WebrtcStream \<Rightarrow> bool" where
  "in_ok s \<longleftrightarrow>
     (fatal_calls s = [] \<longrightarrow>
        (\<exists>d. data_of (arrived s) = delivered s @ concat (inbuf s) @ d
           \<and> (\<not> read_cancel s \<and> peer_reset s = None \<longrightarrow> d = []))
        \<and> (peer_fin s \<longleftrightarrow> list_ex (is_kind FtFin) (arrived s))
        \<and> (peer_reset s \<noteq> None \<longleftrightarrow> list_ex (is_kind FtReset) (arrived s))
        \<and> wire_ok False (arrived s))"

definition stream_inv :: "WebrtcStream \<Rightarrow> bool" where
  "stream_inv s \<longleftrightarrow> state_ok s \<and> flow_ok s \<and> out_ok s \<and> in_ok s"

section \<open>The engine's calls and a stream's own record\<close>

lemma own_other:
  assumes "flow_inv f" and "op_stream op \<noteq> Some i" and "i \<le> next_id f" and "flow_guard f op"
  shows "own (flow_step f op) i = own f i"
proof (cases op)
  case FlNewStream
  then have "i \<noteq> next_id f + 1"
    using assms(3,4) by (auto simp: word_le_nat_alt word_less_nat_alt nowrap)
  with FlNewStream show ?thesis by (simp add: own_def new_stream_def Let_def)
next
  case (FlPollReserve w j n)
  with assms(2) show ?thesis
    by (auto simp: own_def poll_reserve_def Let_def split: option.splits)
next
  case (FlDataReceived j n)
  with assms(2) show ?thesis
    by (auto simp: own_def on_data_received_def split: option.splits)
next
  case (FlConsumed j n)
  with assms(2) show ?thesis
    by (auto simp: own_def on_consumed_def consume_conn_def Let_def split: option.splits prod.splits)
qed (use assms(2) in \<open>auto simp: own_def flow_op_defs Let_def split: option.splits\<close>)

lemma next_id_grows:
  assumes "flow_inv f" and "flow_guard f op"
  shows "next_id f \<le> next_id (flow_step f op)"
proof (cases op)
  case FlNewStream
  then show ?thesis
    using assms(2) by (auto simp: new_stream_def Let_def word_le_nat_alt word_less_nat_alt nowrap)
next
  case (FlPollReserve w j n)
  then show ?thesis by (auto simp: poll_reserve_def Let_def split: option.splits)
next
  case (FlDataReceived j n)
  then show ?thesis by (auto simp: on_data_received_def split: option.splits)
next
  case (FlConsumed j n)
  then show ?thesis
    by (auto simp: on_consumed_def consume_conn_def Let_def split: option.splits prod.splits)
qed (auto simp: flow_op_defs Let_def split: option.splits)

lemma slots_other:
  assumes "op \<noteq> FlPeerRetired" and "flow_inv f"
  shows "peer_retired_streams (flow_step f op) = peer_retired_streams f"
    and "peer_opened_streams f \<le> peer_opened_streams (flow_step f op)"
proof -
  have b: "unat (peer_opened_streams f) < 18446744073709551615"
    using assms(2) count_inv_peer_bounds [of f] by (auto simp: flow_inv_def)
  have "peer_retired_streams (flow_step f op) = peer_retired_streams f
     \<and> peer_opened_streams f \<le> peer_opened_streams (flow_step f op)"
  proof (cases op)
    case (FlPollReserve w j n)
    then show ?thesis by (auto simp: poll_reserve_def Let_def split: option.splits)
  next
    case (FlDataReceived j n)
    then show ?thesis by (auto simp: on_data_received_def split: option.splits)
  next
    case (FlConsumed j n)
    then show ?thesis
      by (auto simp: on_consumed_def consume_conn_def Let_def split: option.splits prod.splits)
  next
    case FlPeerOpened
    then show ?thesis using b by (simp add: peer_stream_opened_def word_le_nat_alt nowrap)
  qed (use assms(1) in \<open>auto simp: flow_op_defs new_stream_def Let_def split: option.splits\<close>)
  then show "peer_retired_streams (flow_step f op) = peer_retired_streams f"
    and "peer_opened_streams f \<le> peer_opened_streams (flow_step f op)" by blast+
qed

end
