(* ===== verification/KpsStreamCredit.thy ===== *)
theory KpsStreamCredit
  imports KpsStreamInv
begin

text \<open>
  Preservation of the flags (\<open>state_ok\<close>) and of the credit accounting (\<open>flow_ok\<close>): each
  call of the stream on the engine keeps the engine's contract, and the engine's record of
  the stream moves as the stream's own books do.
\<close>

section \<open>The engine's record under the stream's own calls\<close>

lemma own_Some:
  assumes "own f i = Some (r, u, c)"
  obtains t where "streams f i = Some t" "unat (send_reserved t) = r" "unread t = u" "cancelled t = c"
  using assms by (auto simp: own_def)

lemma own_consumed:
  assumes inv: "flow_inv f" and o: "own f i = Some (r, u, c)" and n: "unat n \<le> u"
  shows "flow_guard f (FlConsumed i n)" and "own (snd (on_consumed i n f)) i = Some (r, u - unat n, c)"
proof -
  from o obtain t where t: "streams f i = Some t" "unat (send_reserved t) = r" "unread t = u" "cancelled t = c"
    by (rule own_Some)
  have rinv: "recv_inv f" using inv by (simp add: flow_inv_def)
  note ok = recv_inv_stream [OF rinv t(1)]
  have le: "unat (consumed t) + unat n \<le> unat (received t)"
    using n t(3) recv_stream_bounds [OF ok] by (simp add: unread_def)
  then show "flow_guard f (FlConsumed i n)" by (simp add: t(1))
  obtain adv t' where cs: "consume_stream (max_stream_data (local_limits f)) n t = (adv, t')"
    by fastforce
  have "send_reserved t' = send_reserved t" and "cancelled t' = cancelled t"
    using cs by (auto simp: consume_stream_def Let_def split: if_splits)
  with consume_stream_ok(2) [OF ok le recv_inv_bounds(5) [OF rinv] cs] t cs
  show "own (snd (on_consumed i n f)) i = Some (r, u - unat n, c)"
    by (simp add: own_def on_consumed_def)
qed

lemma own_data_received:
  assumes inv: "flow_inv f" and n: "unat n \<le> MAX_FRAME_PAYLOAD"
    and d: "on_data_received i n f = (res, f')"
  shows "flow_inv f'" and "own f i = Some (r, u, c) \<Longrightarrow> res = Inr () \<Longrightarrow> own f' i = Some (r, u + unat n, c)"
    and "res = Inl msg \<Longrightarrow> f' = f" and "next_id f' = next_id f"
    and "peer_opened_streams f' = peer_opened_streams f" "peer_retired_streams f' = peer_retired_streams f"
proof -
  have rinv: "recv_inv f" using inv by (simp add: flow_inv_def)
  show "flow_inv f'" using flow_step_inv [OF inv, of "FlDataReceived i n"] n d by simp
  show "res = Inl msg \<Longrightarrow> f' = f" and "next_id f' = next_id f"
    and "peer_opened_streams f' = peer_opened_streams f" "peer_retired_streams f' = peer_retired_streams f"
    using d by (auto simp: on_data_received_def split: option.splits if_splits)
  assume o: "own f i = Some (r, u, c)" and res: "res = Inr ()"
  from o obtain t where t: "streams f i = Some t" "unat (send_reserved t) = r" "unread t = u" "cancelled t = c"
    by (rule own_Some)
  have "unread (t\<lparr>received := received t + n\<rparr>) = unread t + unat n"
    using recv_stream_bounds [OF recv_inv_stream [OF rinv t(1)]]
    by (simp add: unread_def on_data_received_cases(2) [OF rinv t(1) n])
  with d res t show "own f' i = Some (r, u + unat n, c)"
    by (auto simp: on_data_received_cases(1) [OF rinv t(1) n] own_def split: if_splits)
qed

lemma own_release:
  assumes "own f i = Some (r, u, c)" and "unat n \<le> r"
  shows "flow_guard f (FlRelease i n)" and "own (release i n f) i = Some (r - unat n, u, c)"
  using assms by (auto simp: release_def word_le_nat_alt unat_sub_exact own_def unread_def elim!: own_Some)

lemma own_commit:
  assumes "own f i = Some (r, u, c)" and "unat n \<le> r"
  shows "flow_guard f (FlCommit i n)" and "own (commit i n f) i = Some (r - unat n, u, c)"
  using assms by (auto simp: commit_def word_le_nat_alt unat_sub_exact own_def unread_def elim!: own_Some)

lemma own_gone:
  assumes "own f i = None"
  shows "flow_guard f (FlRelease i n)" "own (release i n f) i = None"
    "flow_guard f (FlCommit i n)" "own (commit i n f) i = None"
  using assms by (auto simp: own_def release_def commit_def)

lemma own_quiet [simp]:
  "own (fail_send i f) i = own f i"
  "own (on_peer_max_stream_data i v f) i = own f i"
  "own (mark_cancelled i f) i = map_option (\<lambda>(r, u, c). (r, u, True)) (own f i)"
  "own (drop_stream i f) i = None"
  "own (peer_stream_retired f) i = own f i"
  by (auto simp: own_def flow_op_defs unread_def Let_def split: option.splits)

lemma slots_quiet [simp]:
  "next_id (fail_send i f) = next_id f"
  "peer_opened_streams (fail_send i f) = peer_opened_streams f"
  "peer_retired_streams (fail_send i f) = peer_retired_streams f"
  "next_id (on_peer_max_stream_data i v f) = next_id f"
  "peer_opened_streams (on_peer_max_stream_data i v f) = peer_opened_streams f"
  "peer_retired_streams (on_peer_max_stream_data i v f) = peer_retired_streams f"
  "next_id (mark_cancelled i f) = next_id f"
  "peer_opened_streams (mark_cancelled i f) = peer_opened_streams f"
  "peer_retired_streams (mark_cancelled i f) = peer_retired_streams f"
  "next_id (drop_stream i f) = next_id f"
  "peer_opened_streams (drop_stream i f) = peer_opened_streams f"
  "peer_retired_streams (drop_stream i f) = peer_retired_streams f"
  "next_id (release i n f) = next_id f"
  "peer_opened_streams (release i n f) = peer_opened_streams f"
  "peer_retired_streams (release i n f) = peer_retired_streams f"
  "next_id (commit i n f) = next_id f"
  "peer_opened_streams (commit i n f) = peer_opened_streams f"
  "peer_retired_streams (commit i n f) = peer_retired_streams f"
  "next_id (snd (on_consumed i n f)) = next_id f"
  "peer_opened_streams (snd (on_consumed i n f)) = peer_opened_streams f"
  "peer_retired_streams (snd (on_consumed i n f)) = peer_retired_streams f"
  "next_id (peer_stream_retired f) = next_id f"
  by (simp_all add: flow_op_defs on_consumed_def consume_conn_def Let_def split: option.splits prod.splits)

lemma own_reserve:
  assumes inv: "flow_inv f" and p: "poll_reserve w i want f = (res, f')"
  shows "flow_inv f'"
    and "own f i = Some (r, u, c) \<Longrightarrow> res = Ready (Inr g) \<Longrightarrow> own f' i = Some (r + unat g, u, c)"
    and "res = Ready (Inr g) \<Longrightarrow> 1 \<le> g \<and> g \<le> want \<and> own f i \<noteq> None"
    and "\<not> (\<exists>g. res = Ready (Inr g)) \<Longrightarrow> own f' i = own f i" and "next_id f' = next_id f"
    and "peer_opened_streams f' = peer_opened_streams f" "peer_retired_streams f' = peer_retired_streams f"
proof -
  show "flow_inv f'" using flow_step_inv [OF inv, of "FlPollReserve w i want"] p by simp
  show "\<not> (\<exists>g. res = Ready (Inr g)) \<Longrightarrow> own f' i = own f i" and "next_id f' = next_id f"
    and "peer_opened_streams f' = peer_opened_streams f" "peer_retired_streams f' = peer_retired_streams f"
    and "res = Ready (Inr g) \<Longrightarrow> 1 \<le> g \<and> g \<le> want \<and> own f i \<noteq> None"
    using p by (auto simp: poll_reserve_def Let_def own_def split: option.splits if_splits)
  assume o: "own f i = Some (r, u, c)" and res: "res = Ready (Inr g)"
  have sinv: "send_inv f" using inv by (simp add: flow_inv_def)
  from o obtain t where t: "streams f i = Some t" "unat (send_reserved t) = r" "unread t = u" "cancelled t = c"
    by (rule own_Some)
  have live: "\<not> is_failed f" "\<not> send_failed t"
    using p res t(1) by (auto simp: poll_reserve_def Let_def split: if_splits)
  note q = poll_reserve_live [OF live(1) t(1) live(2), of w want]
  have g: "g = reserve_grant f t want" and f': "streams f' i = Some (t\<lparr>send_reserved := send_reserved t + g\<rparr>)"
    using p res by (auto simp: q Let_def split: if_splits)
  have "unat (send_reserved t + g) = unat (send_reserved t) + unat g"
    using reserve_grant_unat(2) [OF sinv t(1), of want] send_inv_stream [OF sinv t(1)]
      eff_max_bound [OF sinv, of t] g by (intro unat_add_exact) (auto simp: send_stream_ok_def)
  with f' t show "own f' i = Some (r + unat g, u, c)" by (simp add: own_def unread_def)
qed

section \<open>Flags and retirement\<close>

lemmas stream_op_defs = on_open_def on_message_def on_frame_def on_data_frame_def on_fin_frame_def
  on_reset_frame_def on_stop_frame_def on_channel_close_def writer_start_def writer_select_def
  writer_buffer_def writer_transmit_def writer_sent_def poll_read_def poll_shutdown_def
  close_write_begin_def close_write_finish_def close_write_abandon_def cancel_read_def
  reset_write_def stream_drop_def writer_exit_def Let_def

lemma maybe_retire_ok:
  assumes "flags_ok s" and "st_closed s \<longleftrightarrow> dc_closed s" and "retired_fired s \<Longrightarrow> retire_due s"
    and "retired_calls s = of_bool (retired_fired s)"
  shows "state_ok (maybe_retire s)"
  using assms by (auto simp: state_ok_def flags_ok_def retire_due_def maybe_retire_fields)

lemma state_okD:
  assumes "state_ok s"
  shows "flags_ok s" and "st_closed s \<longleftrightarrow> dc_closed s" and "retired_fired s \<Longrightarrow> retire_due s"
    and "retired_calls s = of_bool (retired_fired s)"
  using assms by (auto simp: state_ok_def)

text \<open>What leaves the flags alone.\<close>

lemmas flag_defs = flags_ok_def retire_due_def peer_terminal_def

lemma state_ok_frame [simp]:
  "state_ok (s\<lparr>sh_flow := x_sh_flow\<rparr>) = state_ok s"
  "state_ok (s\<lparr>life_q := x_life_q\<rparr>) = state_ok s"
  "state_ok (s\<lparr>data_q := x_data_q\<rparr>) = state_ok s"
  "state_ok (s\<lparr>writer_at := x_writer_at\<rparr>) = state_ok s"
  "state_ok (s\<lparr>wire_out := x_wire_out\<rparr>) = state_ok s"
  "state_ok (s\<lparr>arrived := x_arrived\<rparr>) = state_ok s"
  "state_ok (s\<lparr>accepted := x_accepted\<rparr>) = state_ok s"
  "state_ok (s\<lparr>delivered := x_delivered\<rparr>) = state_ok s"
  "state_ok (s\<lparr>lost_credit := x_lost_credit\<rparr>) = state_ok s"
  "state_ok (s\<lparr>fatal_calls := x_fatal_calls\<rparr>) = state_ok s"
  "state_ok (s\<lparr>reads_woken := x_reads_woken\<rparr>) = state_ok s"
  "state_ok (s\<lparr>read_waker := x_read_waker\<rparr>) = state_ok s"
  "state_ok (s\<lparr>open_notified := x_open_notified\<rparr>) = state_ok s"
  "state_ok (s\<lparr>closed_notified := x_closed_notified\<rparr>) = state_ok s"
  "state_ok (s\<lparr>buf_low_notified := x_buf_low_notified\<rparr>) = state_ok s"
  "state_ok (s\<lparr>is_teardown := x_is_teardown\<rparr>) = state_ok s"
  "state_ok (s\<lparr>peer_stop := x_peer_stop\<rparr>) = state_ok s"
  "state_ok (s\<lparr>dc_open := x_dc_open\<rparr>) = state_ok s"
  "state_ok (s\<lparr>close_tasks := x_close_tasks\<rparr>) = state_ok s"
  "state_ok (wake_reader s) = state_ok s"
  "state_ok (on_flow h s) = state_ok s"
  "state_ok (life_send fr s) = state_ok s"
  "state_ok (shared_consumed n s) = state_ok s"
  "state_ok (discard_consumed n s) = state_ok s"
  "state_ok (release_held r s) = state_ok s"
  "state_ok (fatal_hook m s) = state_ok s"
  by (simp_all add: state_ok_def flag_defs)

lemma state_ok_grant [simp]:
  "state_ok s \<Longrightarrow> handle_live s \<or> g = 0 \<Longrightarrow> state_ok (s\<lparr>pending_grant := g\<rparr>)"
  by (auto simp: state_ok_def flag_defs)

lemma state_ok_data_frame:
  assumes "state_ok s" and "\<not> dc_closed s" and "p \<noteq> []"
  shows "state_ok (on_data_frame p s)"
  using assms
  by (auto simp: on_data_frame_def state_ok_def flags_ok_def retire_due_def peer_terminal_def Let_def
      split: prod.splits sum.splits)

lemma state_ok_fin_frame:
  assumes "state_ok s" and "\<not> dc_closed s"
  shows "state_ok (on_fin_frame s)"
proof -
  have "state_ok (maybe_retire (wake_reader (s\<lparr>peer_fin := True\<rparr>)))" if "\<not> peer_terminal s"
    by (rule maybe_retire_ok) (insert assms that, simp_all add: state_ok_def flag_defs)
  then show ?thesis using assms by (simp add: on_fin_frame_def peer_terminal_def)
qed

lemma state_ok_reset_frame:
  assumes "state_ok s" and "\<not> dc_closed s"
  shows "state_ok (on_reset_frame c s)"
proof (cases "peer_terminal s")
  case True
  then show ?thesis using assms by (simp add: on_reset_frame_def peer_terminal_def)
next
  case False
  have "state_ok (maybe_retire (discard_consumed n (wake_reader (s\<lparr>peer_reset := Some e, inbuf := []\<rparr>))))" for n e
    by (rule maybe_retire_ok) (use assms False in \<open>auto simp: state_ok_def flag_defs\<close>)
  with False show ?thesis by (simp add: on_reset_frame_def peer_terminal_def Let_def)
qed

lemma state_ok_local_reset:
  assumes "state_ok s" and "local_terminal s = None"
  shows "state_ok (maybe_retire (life_send m ((on_flow h (s\<lparr>peer_stop := x, local_terminal := Some TermReset,
           drop_data := True\<rparr>))\<lparr>buf_low_notified := k\<rparr>)))"
  by (rule maybe_retire_ok) (use assms in \<open>auto simp: state_ok_def flag_defs\<close>)

lemma state_ok_stop_frame:
  assumes "state_ok s"
  shows "state_ok (on_stop_frame c s)"
proof (cases "local_terminal s = None \<and> peer_stop s = None")
  case True
  with assms show ?thesis by (simp add: on_stop_frame_def Let_def state_ok_local_reset)
next
  case False
  with assms show ?thesis by (auto simp: on_stop_frame_def Let_def)
qed

lemma state_ok_message:
  assumes "state_ok s" and "\<not> dc_closed s"
  shows "state_ok (on_message data s)"
proof -
  have "p \<noteq> []" if "parse_frame data = Inr (PfData p)" for p
    using parsed_frame_ok [OF that] by auto
  with assms show ?thesis
    by (simp add: on_message_def on_frame_def state_ok_data_frame state_ok_fin_frame
        state_ok_reset_frame state_ok_stop_frame split: sum.split ParsedFrame.split)
qed

lemma st_closed_mark_closed [simp]: "st_closed (mark_closed s)"
  by (simp add: mark_closed_def)

lemma state_ok_closing:
  assumes "state_ok s"
  shows "state_ok (maybe_retire (mark_closed ((on_flow h (wake_reader (s\<lparr>dc_closed := True\<rparr>)))
           \<lparr>open_notified := a, buf_low_notified := b\<rparr>)))"
    and "state_ok (maybe_retire (mark_closed ((on_flow h (fatal_hook m (wake_reader (s\<lparr>dc_closed := True\<rparr>))))
           \<lparr>open_notified := a, buf_low_notified := b\<rparr>)))"
proof -
  note d = state_okD [OF assms]
  have due: "retired_fired s \<Longrightarrow> local_terminal_sent s \<and> (peer_fin s \<or> peer_reset s \<noteq> None) \<and> inbuf s = []"
    using d(3) by (simp add: retire_due_def peer_terminal_def)
  show "state_ok (maybe_retire (mark_closed ((on_flow h (wake_reader (s\<lparr>dc_closed := True\<rparr>)))
           \<lparr>open_notified := a, buf_low_notified := b\<rparr>)))"
    by (rule maybe_retire_ok) (use d(1,4) due in \<open>simp_all add: flags_ok_def retire_due_def peer_terminal_def\<close>)
  show "state_ok (maybe_retire (mark_closed ((on_flow h (fatal_hook m (wake_reader (s\<lparr>dc_closed := True\<rparr>))))
           \<lparr>open_notified := a, buf_low_notified := b\<rparr>)))"
    by (rule maybe_retire_ok) (use d(1,4) due in \<open>simp_all add: flags_ok_def retire_due_def peer_terminal_def\<close>)
qed

lemma state_ok_channel_close:
  assumes "state_ok s"
  shows "state_ok (on_channel_close s)"
proof -
  have "state_ok (on_channel_close s)"
    if "P = (\<not> (local_terminal_sent s \<and> (peer_fin s \<or> peer_reset s \<noteq> None)) \<and> \<not> is_teardown s)" for P
    using assms that state_ok_closing [OF assms]
    unfolding on_channel_close_def Let_def by (cases P) simp_all
  then show ?thesis by blast
qed

lemma state_ok_read:
  assumes "state_ok s"
  shows "state_ok (snd (poll_read w cap s))"
proof (cases "inbuf s")
  case Nil
  with assms show ?thesis by (simp add: poll_read_def split: option.split)
next
  case (Cons chunk rest)
  have "state_ok (maybe_retire (shared_consumed n (s\<lparr>inbuf := (if k then rest else drop m chunk # rest), delivered := d\<rparr>)))"
    if "k \<or> m < length chunk" for n k m d
    by (rule maybe_retire_ok) (use assms Cons that in \<open>auto simp: state_ok_def flag_defs\<close>)
  with Cons show ?thesis by (simp add: poll_read_def Let_def min_def)
qed

lemma state_ok_cancel:
  assumes "state_ok s"
  shows "state_ok (cancel_read c s)"
proof (cases "read_cancel s")
  case False
  have "state_ok (maybe_retire (life_send m (discard_consumed n (on_flow h (wake_reader (s\<lparr>read_cancel := True, inbuf := []\<rparr>))))))"
    and "state_ok (maybe_retire (discard_consumed n (on_flow h (wake_reader (s\<lparr>read_cancel := True, inbuf := []\<rparr>)))))" for n h m
    by (rule maybe_retire_ok; use assms in \<open>auto simp: state_ok_def flag_defs\<close>)+
  with False show ?thesis by (simp add: cancel_read_def Let_def)
qed (use assms in \<open>simp add: cancel_read_def\<close>)

lemma state_ok_reset:
  assumes "state_ok s"
  shows "state_ok (reset_write c s)"
proof (cases "local_terminal s")
  case None
  with assms state_ok_local_reset [OF assms None, where x = "peer_stop s"] show ?thesis
    by (simp add: reset_write_def Let_def)
qed (use assms in \<open>simp add: reset_write_def\<close>)

lemma state_ok_shutdown:
  assumes "state_ok s"
  shows "state_ok (snd (poll_shutdown q ok s))"
proof (cases "local_terminal s")
  case None
  have "state_ok (maybe_retire (on_flow h (s\<lparr>local_terminal := Some TermFin, data_q := d\<rparr>)))" for h d
    by (rule maybe_retire_ok) (use assms None in \<open>auto simp: state_ok_def flag_defs\<close>)
  note m = this this [where d = "data_q s"]
  have "state_ok (s\<lparr>local_terminal := Some TermFin\<rparr>)" and "state_ok (s\<lparr>local_terminal := None\<rparr>)"
    using assms None by (auto simp: state_ok_def flag_defs)
  with m None show ?thesis
    by (auto simp: poll_shutdown_def Let_def split: poll.split sum.split)
qed (use assms in \<open>simp add: poll_shutdown_def\<close>)

lemma state_ok_close_write:
  assumes "state_ok s"
  shows "handle_live s \<Longrightarrow> state_ok (snd (close_write_begin s))"
    and "state_ok (snd (close_write_finish sent s))"
    and "state_ok (close_write_abandon s)"
proof -
  show "state_ok (snd (close_write_begin s))" if "handle_live s"
    using assms that by (auto simp: close_write_begin_def state_ok_def flag_defs)
  show a: "state_ok (close_write_abandon s)"
    using assms by (auto simp: close_write_abandon_def state_ok_def flag_defs)
  have "state_ok (maybe_retire (s\<lparr>close_write_pending := False, data_q := d\<rparr>))" for d
    by (rule maybe_retire_ok) (use assms in \<open>auto simp: state_ok_def flag_defs\<close>)
  with a show "state_ok (snd (close_write_finish sent s))"
    by (simp add: close_write_finish_def Let_def close_write_abandon_def)
qed

lemma state_ok_write:
  assumes "state_ok s" and "handle_live s"
  shows "state_ok (snd (poll_write w buf q ok s))"
proof -
  obtain r1 s1 where c: "write_credit w buf s = (r1, s1)" by fastforce
  have "state_ok s1"
    using c assms by (auto simp: write_credit_def Let_def split: if_splits prod.splits poll.splits sum.splits)
  then have "state_ok (snd (write_queue buf q ok s1))"
    by (simp add: write_queue_def give_back_grant_def Let_def split: poll.split sum.split)
  with \<open>state_ok s1\<close> show ?thesis
    using assms(1) c by (simp add: poll_write_def split: option.split poll.split sum.split)
qed

lemma state_ok_drop: "state_ok s \<Longrightarrow> \<not> close_write_pending s \<Longrightarrow> state_ok (stream_drop s)"
  by (auto simp: stream_drop_def state_ok_def flags_ok_def retire_due_def peer_terminal_def)

lemma state_ok_writer:
  assumes "state_ok s"
  shows "state_ok (writer_start s)" and "state_ok (writer_select s)"
    and "state_ok (writer_buffer n s)" and "state_ok (writer_transmit s)"
  using assms
  by (simp_all add: writer_start_def writer_select_def writer_buffer_def writer_transmit_def writer_exit_def Let_def
      split: poll.split sum.split list.split writer.split bool.split prod.split)

lemma state_ok_mark_sent:
  assumes "state_ok s" and "is_terminal fr \<longrightarrow> local_terminal s \<noteq> None"
  shows "state_ok (mark_terminal_sent fr s)"
proof -
  have "state_ok (maybe_retire (s\<lparr>local_terminal_sent := True\<rparr>))" if "is_terminal fr"
    by (rule maybe_retire_ok) (use assms that in \<open>auto simp: state_ok_def flag_defs\<close>)
  then show ?thesis
    using assms(1) by (simp add: mark_terminal_sent_def is_terminal_def)
qed

lemma state_ok_sent:
  assumes "state_ok s" and "stream_guard s (SvWriterSent ok)"
    and "\<And>fr. sent_frame s = Some fr \<Longrightarrow> is_terminal fr \<longrightarrow> local_terminal s \<noteq> None"
  shows "state_ok (writer_sent ok s)"
proof (cases ok)
  case False
  with assms(1) show ?thesis by (simp add: writer_sent_def writer_exit_def split: writer.split)
next
  case True
  then consider (life) m where "writer_at s = WrLife m True" | (data) fr r where "writer_at s = WrData fr r True"
    using assms(2) by auto
  then show ?thesis
  proof cases
    case life
    then have "is_terminal m \<longrightarrow> local_terminal s \<noteq> None" by (intro assms(3)) (simp add: sent_frame_def)
    with life True assms(1) show ?thesis by (simp add: writer_sent_def state_ok_mark_sent)
  next
    case data
    then have "is_terminal fr \<longrightarrow> local_terminal s \<noteq> None" by (intro assms(3)) (simp add: sent_frame_def)
    with data True assms(1) show ?thesis by (simp add: writer_sent_def state_ok_mark_sent Let_def)
  qed
qed

lemma sent_terminal:
  assumes "out_ok s" and "sent_frame s = Some fr"
  shows "is_terminal fr \<longrightarrow> local_terminal s \<noteq> None"
proof
  assume "is_terminal fr"
  moreover have "fr \<in> set (wire_out s)" using assms by (simp add: out_ok_def)
  ultimately have "fr \<in> set (terminals (wire_out s) (held_data s @ data_q s) (pending_life s))"
    by (simp add: terminals_def)
  with assms(1) show "local_terminal s \<noteq> None"
    unfolding out_ok_def terminals_ok_def list_all_iff recorded_def by blast
qed

lemma state_ok_step:
  assumes "state_ok s" and "out_ok s" and "stream_guard s e"
  shows "state_ok (stream_step s e)"
proof (cases e)
  case (SvWriterSent ok)
  with assms sent_terminal [OF assms(2)] show ?thesis
    by (simp add: state_ok_sent del: stream_guard.simps)
qed (use assms in \<open>simp_all add: on_open_def state_ok_message state_ok_channel_close state_ok_read state_ok_cancel
    state_ok_reset state_ok_shutdown state_ok_close_write state_ok_write state_ok_drop state_ok_writer\<close>)

end
