(* ===== verification/KpsStreamBooks.thy ===== *)
theory KpsStreamBooks
  imports KpsStreamCredit
begin

text \<open>
  Preservation of \<open>flow_ok\<close>. \<open>books P s r u c\<close> says that the engine is consistent and holds
  \<open>r\<close> reserved bytes, \<open>u\<close> unread bytes and the flag \<open>c\<close> for the stream; each helper of the
  stream moves these three numbers, and an operation is a sequence of such moves. Every move
  is a call on the engine under its contract, so whatever such calls keep (\<open>P\<close>) is kept too:
  with the trivial \<open>P\<close> this is the invariant, with the trace of calls it says that a stream
  uses the engine only through its contract.
\<close>

definition books :: "(ConnFlow \<Rightarrow> bool) \<Rightarrow> WebrtcStream \<Rightarrow> nat \<Rightarrow> nat \<Rightarrow> bool \<Rightarrow> bool" where
  "books P s r u c \<longleftrightarrow>
     P (sh_flow s) \<and> flow_inv (sh_flow s) \<and> sh_id s \<le> next_id (sh_flow s)
     \<and> own (sh_flow s) (sh_id s) = (if retired_fired s then None else Some (r, u, c))
     \<and> (peer_initiated s \<and> \<not> retired_fired s \<longrightarrow>
          peer_retired_streams (sh_flow s) < peer_opened_streams (sh_flow s))"

definition settled :: "(ConnFlow \<Rightarrow> bool) \<Rightarrow> WebrtcStream \<Rightarrow> bool" where
  "settled P s \<longleftrightarrow> P (sh_flow s) \<and> flow_ok s"

section \<open>The stream's own numbers\<close>

definition own_reserved :: "WebrtcStream \<Rightarrow> nat" where
  "own_reserved s = queued_credit (data_q s) + held_credit s + unat (pending_grant s) + lost_credit s"

lemma own_reserved_frame [simp]:
  "own_reserved (wake_reader s) = own_reserved s"
  "own_reserved (fatal_hook m s) = own_reserved s"
  "own_reserved (on_flow g s) = own_reserved s"
  "own_reserved (life_send fr s) = own_reserved s"
  "own_reserved (shared_consumed n s) = own_reserved s"
  "own_reserved (discard_consumed n s) = own_reserved s"
  "own_reserved (maybe_retire s) = own_reserved s"
  "own_reserved (mark_closed s) = own_reserved s"
  "own_reserved (release_held n s) = own_reserved s"
  "own_reserved (s\<lparr>sh_flow := x_sh_flow\<rparr>) = own_reserved s"
  "own_reserved (s\<lparr>inbuf := x_inbuf\<rparr>) = own_reserved s"
  "own_reserved (s\<lparr>peer_fin := x_peer_fin\<rparr>) = own_reserved s"
  "own_reserved (s\<lparr>peer_reset := x_peer_reset\<rparr>) = own_reserved s"
  "own_reserved (s\<lparr>peer_stop := x_peer_stop\<rparr>) = own_reserved s"
  "own_reserved (s\<lparr>local_terminal := x_local_terminal\<rparr>) = own_reserved s"
  "own_reserved (s\<lparr>local_terminal_sent := x_local_terminal_sent\<rparr>) = own_reserved s"
  "own_reserved (s\<lparr>read_cancel := x_read_cancel\<rparr>) = own_reserved s"
  "own_reserved (s\<lparr>drop_data := x_drop_data\<rparr>) = own_reserved s"
  "own_reserved (s\<lparr>dc_open := x_dc_open\<rparr>) = own_reserved s"
  "own_reserved (s\<lparr>dc_closed := x_dc_closed\<rparr>) = own_reserved s"
  "own_reserved (s\<lparr>read_waker := x_read_waker\<rparr>) = own_reserved s"
  "own_reserved (s\<lparr>open_notified := x_open_notified\<rparr>) = own_reserved s"
  "own_reserved (s\<lparr>buf_low_notified := x_buf_low_notified\<rparr>) = own_reserved s"
  "own_reserved (s\<lparr>handle_live := x_handle_live\<rparr>) = own_reserved s"
  "own_reserved (s\<lparr>close_write_pending := x_close_write_pending\<rparr>) = own_reserved s"
  "own_reserved (s\<lparr>wire_out := x_wire_out\<rparr>) = own_reserved s"
  "own_reserved (s\<lparr>arrived := x_arrived\<rparr>) = own_reserved s"
  "own_reserved (s\<lparr>accepted := x_accepted\<rparr>) = own_reserved s"
  "own_reserved (s\<lparr>delivered := x_delivered\<rparr>) = own_reserved s"
  "own_reserved (s\<lparr>life_q := x_life_q\<rparr>) = own_reserved s"
  "own_reserved (s\<lparr>is_teardown := x_is_teardown\<rparr>) = own_reserved s"
  by (simp_all add: own_reserved_def held_credit_def)

lemma inbuf_bytes_update [simp]:
  "inbuf_bytes (fatal_hook m s) = inbuf_bytes s"
  "inbuf_bytes (mark_closed s) = inbuf_bytes s"
  "inbuf_bytes (release_held n s) = inbuf_bytes s"
  "inbuf_bytes (s\<lparr>sh_flow := x_sh_flow\<rparr>) = inbuf_bytes s"
  "inbuf_bytes (s\<lparr>peer_fin := x_peer_fin\<rparr>) = inbuf_bytes s"
  "inbuf_bytes (s\<lparr>peer_reset := x_peer_reset\<rparr>) = inbuf_bytes s"
  "inbuf_bytes (s\<lparr>peer_stop := x_peer_stop\<rparr>) = inbuf_bytes s"
  "inbuf_bytes (s\<lparr>local_terminal := x_local_terminal\<rparr>) = inbuf_bytes s"
  "inbuf_bytes (s\<lparr>local_terminal_sent := x_local_terminal_sent\<rparr>) = inbuf_bytes s"
  "inbuf_bytes (s\<lparr>read_cancel := x_read_cancel\<rparr>) = inbuf_bytes s"
  "inbuf_bytes (s\<lparr>drop_data := x_drop_data\<rparr>) = inbuf_bytes s"
  "inbuf_bytes (s\<lparr>dc_open := x_dc_open\<rparr>) = inbuf_bytes s"
  "inbuf_bytes (s\<lparr>dc_closed := x_dc_closed\<rparr>) = inbuf_bytes s"
  "inbuf_bytes (s\<lparr>read_waker := x_read_waker\<rparr>) = inbuf_bytes s"
  "inbuf_bytes (s\<lparr>open_notified := x_open_notified\<rparr>) = inbuf_bytes s"
  "inbuf_bytes (s\<lparr>buf_low_notified := x_buf_low_notified\<rparr>) = inbuf_bytes s"
  "inbuf_bytes (s\<lparr>handle_live := x_handle_live\<rparr>) = inbuf_bytes s"
  "inbuf_bytes (s\<lparr>close_write_pending := x_close_write_pending\<rparr>) = inbuf_bytes s"
  "inbuf_bytes (s\<lparr>wire_out := x_wire_out\<rparr>) = inbuf_bytes s"
  "inbuf_bytes (s\<lparr>arrived := x_arrived\<rparr>) = inbuf_bytes s"
  "inbuf_bytes (s\<lparr>accepted := x_accepted\<rparr>) = inbuf_bytes s"
  "inbuf_bytes (s\<lparr>delivered := x_delivered\<rparr>) = inbuf_bytes s"
  "inbuf_bytes (s\<lparr>life_q := x_life_q\<rparr>) = inbuf_bytes s"
  "inbuf_bytes (s\<lparr>is_teardown := x_is_teardown\<rparr>) = inbuf_bytes s"
  "inbuf_bytes (s\<lparr>data_q := x_data_q\<rparr>) = inbuf_bytes s"
  "inbuf_bytes (s\<lparr>pending_grant := x_pending_grant\<rparr>) = inbuf_bytes s"
  "inbuf_bytes (s\<lparr>writer_at := x_writer_at\<rparr>) = inbuf_bytes s"
  "inbuf_bytes (s\<lparr>lost_credit := x_lost_credit\<rparr>) = inbuf_bytes s"
  by (simp_all add: inbuf_bytes_def)

lemma own_reserved_cong:
  "data_q t = data_q s \<Longrightarrow> writer_at t = writer_at s \<Longrightarrow> pending_grant t = pending_grant s
     \<Longrightarrow> lost_credit t = lost_credit s \<Longrightarrow> own_reserved t = own_reserved s"
  by (simp add: own_reserved_def held_credit_def)

lemma inbuf_bytes_simps [simp]:
  "inbuf s = [] \<Longrightarrow> inbuf_bytes s = 0"
  by (simp add: inbuf_bytes_def)

lemma retired_empty:
  "state_ok s \<Longrightarrow> retired_fired s \<Longrightarrow> inbuf s = []"
  by (simp add: state_ok_def retire_due_def)

lemma queued_credit_simps [simp]:
  "queued_credit [] = 0" "queued_credit (x # q) = unat (snd x) + queued_credit q"
  "queued_credit (q @ q') = queued_credit q + queued_credit q'"
  by (simp_all add: queued_credit_def)

section \<open>Clients of the engine\<close>

locale engine_client =
  fixes P :: "ConnFlow \<Rightarrow> bool"
  assumes P_step: "P f \<Longrightarrow> flow_inv f \<Longrightarrow> flow_guard f op \<Longrightarrow> P (flow_step f op)"
begin

lemma call: "P f \<Longrightarrow> flow_inv f \<Longrightarrow> flow_guard f op \<Longrightarrow> P (flow_step f op) \<and> flow_inv (flow_step f op)"
  by (simp add: P_step flow_step_inv)

lemma settled_books:
  "settled P s \<longleftrightarrow> books P s (queued_credit (data_q s) + held_credit s + unat (pending_grant s) + lost_credit s)
                      (inbuf_bytes s) (read_cancel s)"
  by (simp add: settled_def flow_ok_def books_def)

lemma books_cong:
  "sh_flow t = sh_flow s \<Longrightarrow> sh_id t = sh_id s \<Longrightarrow> retired_fired t = retired_fired s
     \<Longrightarrow> peer_initiated t = peer_initiated s \<Longrightarrow> books P t r u c = books P s r u c"
  by (simp add: books_def)

text \<open>The moves.\<close>

lemma books_consumed:
  assumes "books P s r u c" and "unat n \<le> u" and "\<not> retired_fired s"
  shows "books P (shared_consumed n s) r (u - unat n) c"
proof -
  have pre: "P (sh_flow s)" and inv: "flow_inv (sh_flow s)" and o: "own (sh_flow s) (sh_id s) = Some (r, u, c)"
    using assms by (auto simp: books_def)
  note m = own_consumed [OF inv o assms(2)]
  have "P (snd (on_consumed (sh_id s) n (sh_flow s))) \<and> flow_inv (snd (on_consumed (sh_id s) n (sh_flow s)))"
    using call [OF pre inv m(1)] by simp
  with assms m(2) show ?thesis by (simp add: books_def)
qed

lemma books_discard:
  assumes "books P s r u c" and "unat n \<le> u" and "\<not> retired_fired s \<or> n = 0"
  shows "books P (discard_consumed n s) r (u - unat n) c"
  using assms books_consumed [of s r u c n] by (auto simp: discard_consumed_def word_gt_0)

lemma books_quiet:
  assumes "books P s r u c"
  shows "books P (on_flow (fail_send (sh_id s)) s) r u c"
    and "v \<le> MAX_OFFSET \<Longrightarrow> books P (on_flow (on_peer_max_stream_data (sh_id s) v) s) r u c"
    and "books P (on_flow (mark_cancelled (sh_id s)) s) r u True"
proof -
  have inv: "P (sh_flow s)" "flow_inv (sh_flow s)" using assms by (simp_all add: books_def)
  show "books P (on_flow (fail_send (sh_id s)) s) r u c"
    using call [OF inv, of "FlFailSend (sh_id s)"] assms by (auto simp: books_def)
  show "books P (on_flow (on_peer_max_stream_data (sh_id s) v) s) r u c" if "v \<le> MAX_OFFSET"
    using call [OF inv, of "FlPeerMaxStreamData (sh_id s) v"] assms that
    by (auto simp: books_def)
  show "books P (on_flow (mark_cancelled (sh_id s)) s) r u True"
    using call [OF inv, of "FlMarkCancelled (sh_id s)"] assms by (auto simp: books_def)
qed

lemma books_release:
  assumes "books P s r u c" and "retired_fired s \<or> unat n \<le> r"
  shows "books P (on_flow (release (sh_id s) n) s) (r - unat n) u c"
proof -
  have inv: "P (sh_flow s)" "flow_inv (sh_flow s)" using assms by (simp_all add: books_def)
  have "flow_guard (sh_flow s) (FlRelease (sh_id s) n)
      \<and> own (release (sh_id s) n (sh_flow s)) (sh_id s) = (if retired_fired s then None else Some (r - unat n, u, c))"
    using assms own_release [of "sh_flow s" "sh_id s" r u c n] own_gone [of "sh_flow s" "sh_id s" n]
    by (auto simp: books_def split: if_splits)
  then show ?thesis
    using call [OF inv, of "FlRelease (sh_id s) n"] assms(1) by (auto simp: books_def)
qed

lemma books_commit:
  assumes "books P s r u c" and "retired_fired s \<or> unat n \<le> r"
  shows "books P (on_flow (commit (sh_id s) n) s) (r - unat n) u c"
proof -
  have inv: "P (sh_flow s)" "flow_inv (sh_flow s)" using assms by (simp_all add: books_def)
  have "flow_guard (sh_flow s) (FlCommit (sh_id s) n)
      \<and> own (commit (sh_id s) n (sh_flow s)) (sh_id s) = (if retired_fired s then None else Some (r - unat n, u, c))"
    using assms own_commit [of "sh_flow s" "sh_id s" r u c n] own_gone [of "sh_flow s" "sh_id s" n]
    by (auto simp: books_def split: if_splits)
  then show ?thesis
    using call [OF inv, of "FlCommit (sh_id s) n"] assms(1) by (auto simp: books_def)
qed

lemma books_release_held:
  assumes "books P s r u c" and "retired_fired s \<or> unat n \<le> r"
  shows "books P (release_held n s) (r - unat n) u c"
  using assms books_release [OF assms] by (auto simp: release_held_def word_gt_0)

lemma books_retire:
  assumes "books P s r u c"
  shows "books P (maybe_retire s) r u c"
proof (cases "retire_due s \<and> \<not> retired_fired s")
  case False
  then show ?thesis
    using assms maybe_retire_idle [OF False] by (simp add: books_def)
next
  case True
  let ?f = "drop_stream (sh_id s) (sh_flow s)"
  have inv: "P ?f" "flow_inv ?f"
    using call [of "sh_flow s" "FlDropStream (sh_id s)"] assms by (simp_all add: books_def)
  have "P (peer_stream_retired ?f) \<and> flow_inv (peer_stream_retired ?f)" if "peer_initiated s"
    using call [OF inv, of FlPeerRetired] assms that True by (simp add: books_def)
  with inv True assms show ?thesis by (simp add: books_def maybe_retire_fields)
qed

lemma books_env:
  assumes "books P s r u c" and "stream_guard s (SvFlow op)"
  shows "books P (on_flow (\<lambda>f. flow_step f op) s) r u c"
proof -
  have pre: "P (sh_flow s)" and inv: "flow_inv (sh_flow s)" and g: "flow_guard (sh_flow s) op" and o: "op_stream op \<noteq> Some (sh_id s)"
    and i: "sh_id s \<le> next_id (sh_flow s)"
    using assms by (simp_all add: books_def)
  have room: "peer_retired_streams (flow_step (sh_flow s) op) < peer_opened_streams (flow_step (sh_flow s) op)"
    if "peer_initiated s" "\<not> retired_fired s"
  proof (cases "op = FlPeerRetired")
    case True
    then show ?thesis using assms that by (simp add: peer_stream_retired_def Let_def)
  next
    case False
    then show ?thesis
      using slots_other [OF False inv] assms(1) that by (auto simp: books_def)
  qed
  show ?thesis
    using assms(1) call [OF pre inv g] own_other [OF inv o i g] next_id_grows [OF inv g] i room
    by (simp add: books_def)
qed

text \<open>The unread bytes fit a \<open>u64\<close>.\<close>

lemma books_unread:
  assumes "books P s r u c" and "\<not> retired_fired s"
  shows "unat (of_nat u :: u64) = u"
proof -
  have inv: "recv_inv (sh_flow s)" and o: "own (sh_flow s) (sh_id s) = Some (r, u, c)"
    using assms by (simp_all add: books_def flow_inv_def)
  from o obtain t where "streams (sh_flow s) (sh_id s) = Some t" and u: "unread t = u"
    by (rule own_Some)
  then have "u \<le> 4611686018427387903"
    using recv_stream_bounds(1) [OF recv_inv_stream [OF inv]] by (auto simp: unread_def intro: le_trans [OF diff_le_self])
  then show ?thesis by (intro unat_of_nat_small) simp
qed


section \<open>Every operation\<close>

text \<open>After a change of fields the books P do not speak of, they are settled again.\<close>

lemma flow_okI:
  assumes "books P s r u c"
    and "\<not> retired_fired s \<Longrightarrow> r = queued_credit (data_q s) + held_credit s + unat (pending_grant s) + lost_credit s"
    and "\<not> retired_fired s \<Longrightarrow> u = inbuf_bytes s" and "\<not> retired_fired s \<Longrightarrow> c = read_cancel s"
  shows "settled P s"
  using assms by (simp add: settled_books books_def)

lemma books_update [simp]:
  "books P (wake_reader s) r u c = books P s r u c"
  "books P (fatal_hook m s) r u c = books P s r u c"
  "books P (life_send fr s) r u c = books P s r u c"
  "books P (mark_closed s) r u c = books P s r u c"
  "books P (s\<lparr>inbuf := x1\<rparr>) r u c = books P s r u c"
  "books P (s\<lparr>peer_fin := x2\<rparr>) r u c = books P s r u c"
  "books P (s\<lparr>peer_reset := x3\<rparr>) r u c = books P s r u c"
  "books P (s\<lparr>peer_stop := x4\<rparr>) r u c = books P s r u c"
  "books P (s\<lparr>local_terminal := x5\<rparr>) r u c = books P s r u c"
  "books P (s\<lparr>local_terminal_sent := x6\<rparr>) r u c = books P s r u c"
  "books P (s\<lparr>read_cancel := x7\<rparr>) r u c = books P s r u c"
  "books P (s\<lparr>drop_data := x8\<rparr>) r u c = books P s r u c"
  "books P (s\<lparr>dc_open := x9\<rparr>) r u c = books P s r u c"
  "books P (s\<lparr>dc_closed := x10\<rparr>) r u c = books P s r u c"
  "books P (s\<lparr>read_waker := x11\<rparr>) r u c = books P s r u c"
  "books P (s\<lparr>open_notified := x12\<rparr>) r u c = books P s r u c"
  "books P (s\<lparr>buf_low_notified := x13\<rparr>) r u c = books P s r u c"
  "books P (s\<lparr>is_teardown := x14\<rparr>) r u c = books P s r u c"
  "books P (s\<lparr>data_q := x15\<rparr>) r u c = books P s r u c"
  "books P (s\<lparr>pending_grant := x16\<rparr>) r u c = books P s r u c"
  "books P (s\<lparr>writer_at := x17\<rparr>) r u c = books P s r u c"
  "books P (s\<lparr>handle_live := x18\<rparr>) r u c = books P s r u c"
  "books P (s\<lparr>close_write_pending := x19\<rparr>) r u c = books P s r u c"
  "books P (s\<lparr>wire_out := x20\<rparr>) r u c = books P s r u c"
  "books P (s\<lparr>arrived := x21\<rparr>) r u c = books P s r u c"
  "books P (s\<lparr>accepted := x22\<rparr>) r u c = books P s r u c"
  "books P (s\<lparr>delivered := x23\<rparr>) r u c = books P s r u c"
  "books P (s\<lparr>life_q := x24\<rparr>) r u c = books P s r u c"
  "books P (s\<lparr>lost_credit := x25\<rparr>) r u c = books P s r u c"
  by (simp_all add: books_def)

lemma settled_iff: "settled P s \<longleftrightarrow> books P s (own_reserved s) (inbuf_bytes s) (read_cancel s)"
  by (simp add: settled_books own_reserved_def)

text \<open>An operation that leaves the reservations, the buffer and the cancel flag alone.\<close>

lemma settled_keep:
  assumes "books P t (own_reserved s) (inbuf_bytes s) (read_cancel s)"
    and "data_q t = data_q s" "writer_at t = writer_at s" "pending_grant t = pending_grant s"
    "lost_credit t = lost_credit s" "inbuf t = inbuf s" "read_cancel t = read_cancel s"
  shows "settled P t"
  using assms own_reserved_cong [of t s] by (simp add: settled_iff inbuf_bytes_def)

lemma settled_fatal [simp]: "settled P (fatal_hook m s) = settled P s"
  by (simp add: settled_iff)

lemma settled_update [simp]:
  "settled P (s\<lparr>read_waker := x1\<rparr>) = settled P s"
  "settled P (s\<lparr>arrived := x2\<rparr>) = settled P s"
  "settled P (s\<lparr>local_terminal := x3\<rparr>) = settled P s"
  "settled P (s\<lparr>close_write_pending := x4\<rparr>) = settled P s"
  "settled P (s\<lparr>is_teardown := x5\<rparr>) = settled P s"
  "settled P (s\<lparr>dc_open := x6\<rparr>) = settled P s"
  "settled P (s\<lparr>open_notified := x7\<rparr>) = settled P s"
  "settled P (s\<lparr>handle_live := x8\<rparr>) = settled P s"
  "settled P (s\<lparr>local_terminal_sent := x9\<rparr>) = settled P s"
  by (simp_all add: settled_iff)

lemma settled_data_frame:
  assumes st: "state_ok s" and fl: "settled P s" and "\<not> dc_closed s" and p: "length p \<le> MAX_FRAME_PAYLOAD"
  shows "settled P (on_data_frame p s)"
proof (cases "peer_terminal s")
  case True
  then show ?thesis using fl by (simp add: on_data_frame_def peer_terminal_def settled_iff Let_def)
next
  case False
  let ?n = "of_nat (length p) :: u64"
  have n: "unat ?n = length p" using p by (intro unat_of_nat_small) (simp add: frame_consts)
  have live: "\<not> retired_fired s" using assms(3) st by (simp add: state_ok_def retire_due_def)
  have b: "books P s (own_reserved s) (inbuf_bytes s) (read_cancel s)" using fl by (simp add: settled_iff)
  then have inv: "P (sh_flow s)" "flow_inv (sh_flow s)" by (simp_all add: books_def)
  obtain res f where d: "on_data_received (sh_id s) ?n (sh_flow s) = (res, f)" by fastforce
  have n': "unat ?n \<le> MAX_FRAME_PAYLOAD" using n p by simp
  note m = own_data_received [OF inv(2) n' d]
  have kept: "P f" using call [OF inv, of "FlDataReceived (sh_id s) ?n"] n' d by simp
  show ?thesis
  proof (cases res)
    case (Inl msg)
    with m(3) have "f = sh_flow s" by simp
    with d Inl False fl show ?thesis
      by (simp add: on_data_frame_def peer_terminal_def settled_iff Let_def)
  next
    case (Inr x)
    have b1: "books P (s\<lparr>sh_flow := f\<rparr>) (own_reserved s) (inbuf_bytes s + length p) (read_cancel s)"
      using b kept m(1,4-6) m(2) [of "own_reserved s" "inbuf_bytes s" "read_cancel s"] Inr live n
      by (simp add: books_def)
    show ?thesis
    proof (cases "read_cancel s")
      case True
      then have "settled P (shared_consumed ?n (s\<lparr>sh_flow := f\<rparr>))"
        using books_consumed [OF b1, of ?n] live n by (intro settled_keep [of _ s]) simp_all
      with True d Inr False show ?thesis by (simp add: on_data_frame_def peer_terminal_def Let_def)
    next
      case False
      then have "settled P (wake_reader (s\<lparr>sh_flow := f, inbuf := inbuf s @ [p]\<rparr>))"
        using b1 by (simp add: settled_iff inbuf_bytes_def)
      with False d Inr \<open>\<not> peer_terminal s\<close> show ?thesis
        by (simp add: on_data_frame_def peer_terminal_def Let_def)
    qed
  qed
qed

lemma settled_fin_frame: "settled P s \<Longrightarrow> settled P (on_fin_frame s)"
  by (simp add: on_fin_frame_def settled_iff books_retire)

text \<open>Throwing the buffer away and counting it as consumed.\<close>

lemma books_discard_all:
  assumes "books P s r (inbuf_bytes u) c" and "retired_fired s \<longrightarrow> inbuf_bytes u = 0"
  shows "books P (discard_consumed (of_nat (inbuf_bytes u)) s) r 0 c"
proof (cases "retired_fired s")
  case True
  with assms show ?thesis by (simp add: discard_consumed_def)
next
  case False
  with books_unread [OF assms(1)] books_discard [OF assms(1), of "of_nat (inbuf_bytes u)"] show ?thesis by simp
qed

lemma settled_reset_frame:
  assumes "state_ok s" and "settled P s"
  shows "settled P (on_reset_frame code s)"
proof (cases "peer_terminal s")
  case True
  then show ?thesis using assms(2) by (simp add: on_reset_frame_def peer_terminal_def settled_iff)
next
  case False
  let ?t = "wake_reader (s\<lparr>peer_reset := Some \<lparr>se_code = code, se_remote = True\<rparr>, inbuf := []\<rparr>)"
  have "books P (discard_consumed (of_nat (inbuf_bytes s)) ?t) (own_reserved s) 0 (read_cancel s)"
    using assms retired_empty [OF assms(1)] by (intro books_discard_all) (simp_all add: settled_iff)
  from books_retire [OF this] False show ?thesis
    by (simp add: on_reset_frame_def peer_terminal_def Let_def settled_iff inbuf_bytes_def)
qed

lemma settled_stop_frame: "settled P s \<Longrightarrow> settled P (on_stop_frame code s)"
  using books_quiet(1) [of s] books_quiet(1) [of "s\<lparr>peer_stop := x, local_terminal := y, drop_data := z\<rparr>" for x y z]
    books_quiet(1) [of "s\<lparr>peer_stop := x\<rparr>" for x]
  by (simp add: on_stop_frame_def Let_def settled_iff books_retire)

lemma settled_message:
  assumes "state_ok s" and "settled P s" and "\<not> dc_closed s"
  shows "settled P (on_message data s)"
proof -
  have "settled P (on_frame data s)"
  proof (cases "parse_frame data")
    case (Inl msg)
    with assms(2) show ?thesis by (simp add: on_frame_def)
  next
    case (Inr f)
    have ok: "frame_ok f" by (rule parsed_frame_ok [OF Inr])
    with assms(2) have "settled P (on_flow (on_peer_max_stream_data (sh_id s) v) s)" if "f = PfMaxStreamData v" for v
      using that books_quiet(2) by (simp add: settled_iff)
    with ok Inr assms show ?thesis
      by (cases f) (simp_all add: on_frame_def settled_data_frame settled_fin_frame settled_reset_frame
          settled_stop_frame)
  qed
  then show ?thesis by (simp add: on_message_def)
qed

lemma settled_channel_close: "settled P s \<Longrightarrow> settled P (on_channel_close s)"
  using books_quiet(1) [of "wake_reader (s\<lparr>dc_closed := True\<rparr>)"]
    books_quiet(1) [of "fatal_hook m (wake_reader (s\<lparr>dc_closed := True\<rparr>))" for m]
  by (simp add: on_channel_close_def Let_def settled_iff books_retire)

lemma settled_cancel:
  assumes "state_ok s" and "settled P s"
  shows "settled P (cancel_read code s)"
proof (cases "read_cancel s")
  case False
  let ?t = "on_flow (mark_cancelled (sh_id s)) (wake_reader (s\<lparr>read_cancel := True, inbuf := []\<rparr>))"
  have "books P ?t (own_reserved s) (inbuf_bytes s) True"
    using books_quiet(3) [of "wake_reader (s\<lparr>read_cancel := True, inbuf := []\<rparr>)"] assms(2)
    by (simp add: settled_iff)
  then have "books P (discard_consumed (of_nat (inbuf_bytes s)) ?t) (own_reserved s) 0 True"
    using retired_empty [OF assms(1)] by (intro books_discard_all) simp_all
  with False show ?thesis
    by (simp add: cancel_read_def Let_def settled_iff books_retire inbuf_bytes_def)
qed (use assms in \<open>simp add: cancel_read_def\<close>)

lemma settled_reset: "settled P s \<Longrightarrow> settled P (reset_write code s)"
  using books_quiet(1) [of "s\<lparr>local_terminal := x, drop_data := y\<rparr>" for x y]
  by (simp add: reset_write_def Let_def settled_iff books_retire)

lemma settled_take:
  assumes "settled P s" and live: "\<not> retired_fired s" and len: "sum_list (map length ib) + n = inbuf_bytes s"
  shows "settled P (maybe_retire (shared_consumed (of_nat n) (s\<lparr>inbuf := ib, delivered := d\<rparr>)))"
proof -
  let ?t = "s\<lparr>inbuf := ib, delivered := d\<rparr>"
  have b: "books P s (own_reserved s) (inbuf_bytes s) (read_cancel s)" using assms(1) by (simp add: settled_iff)
  have "unat (of_nat (inbuf_bytes s) :: u64) = inbuf_bytes s" by (rule books_unread [OF b live])
  then have "inbuf_bytes s < 2 ^ 64" using unat_u64_lt [of "of_nat (inbuf_bytes s)"] by simp
  then have n: "unat (of_nat n :: u64) = n" using len by (intro unat_of_nat_small) simp
  have u: "inbuf_bytes ?t = sum_list (map length ib)" by (simp add: inbuf_bytes_def)
  have "books P (shared_consumed (of_nat n) ?t) (own_reserved s) (inbuf_bytes s - n) (read_cancel s)"
    using books_consumed [of ?t "own_reserved s" "inbuf_bytes s" "read_cancel s" "of_nat n"] b live n len by simp
  moreover have "inbuf_bytes s - n = inbuf_bytes ?t" using len u by simp
  ultimately have "books P (maybe_retire (shared_consumed (of_nat n) ?t)) (own_reserved s) (inbuf_bytes ?t) (read_cancel s)"
    by (simp only: books_retire)
  then show ?thesis unfolding settled_iff by simp
qed

lemma settled_read:
  assumes "state_ok s" and "settled P s"
  shows "settled P (snd (poll_read w cap s))"
proof (cases "inbuf s")
  case Nil
  with assms show ?thesis by (simp add: poll_read_def split: option.split)
next
  case (Cons chunk rest)
  have live: "\<not> retired_fired s" using retired_empty [OF assms(1)] Cons by auto
  have "settled P (maybe_retire (shared_consumed (of_nat (length chunk)) (s\<lparr>inbuf := rest, delivered := d\<rparr>)))" for d
    using Cons by (intro settled_take [OF assms(2) live]) (simp add: inbuf_bytes_def)
  moreover have "settled P (maybe_retire (shared_consumed (of_nat cap) (s\<lparr>inbuf := drop cap chunk # rest, delivered := d\<rparr>)))"
    if "cap \<le> length chunk" for d
    using Cons that by (intro settled_take [OF assms(2) live]) (simp add: inbuf_bytes_def)
  ultimately show ?thesis using Cons by (simp add: poll_read_def Let_def min_def)
qed

lemma settled_retire: "settled P s \<Longrightarrow> settled P (maybe_retire s)"
  by (simp add: settled_iff books_retire)

lemma settled_fail_send: "settled P s \<Longrightarrow> settled P (on_flow (fail_send (sh_id s)) s)"
  by (simp add: settled_iff books_quiet)

lemma settled_queue_fin [simp]: "settled P (s\<lparr>data_q := data_q s @ [(encode_fin, 0)]\<rparr>) = settled P s"
  by (simp add: settled_iff own_reserved_def held_credit_def)

lemma settled_shutdown: "settled P s \<Longrightarrow> settled P (snd (poll_shutdown q ok s))"
  using settled_fail_send [of "s\<lparr>local_terminal := Some TermFin, data_q := data_q s @ [(encode_fin, 0)]\<rparr>"]
    settled_fail_send [of "s\<lparr>local_terminal := Some TermFin\<rparr>"]
    settled_queue_fin [of "s\<lparr>local_terminal := Some TermFin\<rparr>"]
  by (simp add: poll_shutdown_def Let_def settled_retire split: poll.split sum.split)

lemma settled_close_write:
  "settled P s \<Longrightarrow> settled P (snd (close_write_begin s))"
  "settled P s \<Longrightarrow> settled P (snd (close_write_finish sent s))"
  "settled P s \<Longrightarrow> settled P (close_write_abandon s)"
  using settled_fail_send [of "s\<lparr>local_terminal := Some TermFin\<rparr>"]
    settled_queue_fin [of "s\<lparr>close_write_pending := False\<rparr>"]
  by (simp_all add: close_write_begin_def close_write_finish_def close_write_abandon_def Let_def settled_retire)

lemma settled_credit:
  assumes "settled P s" and "write_credit w buf s = (res, t)"
  shows "settled P t"
proof (cases "pending_grant s = 0")
  case False
  with assms show ?thesis by (simp add: write_credit_def)
next
  case True
  obtain r f where p: "poll_reserve w (sh_id s) (of_nat (min (length buf) MAX_FRAME_PAYLOAD)) (sh_flow s) = (r, f)"
    by fastforce
  have inv: "P (sh_flow s)" "flow_inv (sh_flow s)" using assms(1) by (simp_all add: settled_def flow_ok_def)
  note m = own_reserve [OF inv(2) p]
  have kept: "P f"
    using call [OF inv, of "FlPollReserve w (sh_id s) (of_nat (min (length buf) MAX_FRAME_PAYLOAD))"] p by simp
  show ?thesis
  proof (cases "\<exists>g. r = Ready (Inr g)")
    case False
    with p assms(2) True have "t = s\<lparr>sh_flow := f\<rparr>"
      by (auto simp: write_credit_def Let_def split: poll.splits sum.splits)
    with kept m(1,5-7) m(4) [OF False] assms(1) show ?thesis
      by (simp add: settled_def flow_ok_def held_credit_def)
  next
    case grant: True
    then obtain g where g: "r = Ready (Inr g)" by blast
    with p assms(2) True have "t = s\<lparr>sh_flow := f, pending_grant := g\<rparr>"
      by (simp add: write_credit_def Let_def)
    with kept m(1,5-7) m(2) [OF _ g] m(3) [OF g] assms(1) True show ?thesis
      by (auto simp: settled_def flow_ok_def held_credit_def split: if_splits)
  qed
qed

lemma settled_give_back:
  assumes "settled P s"
  shows "settled P (give_back_grant s)"
proof -
  have "books P (on_flow (release (sh_id s) (pending_grant s)) s) (own_reserved s - unat (pending_grant s))
     (inbuf_bytes s) (read_cancel s)"
    using assms by (intro books_release) (simp_all add: settled_iff own_reserved_def)
  then show ?thesis
    by (simp add: give_back_grant_def settled_iff) (simp add: own_reserved_def held_credit_def ac_simps)
qed

lemma settled_queue:
  assumes "settled P s"
  shows "settled P (snd (write_queue buf q ok s))"
proof -
  have "settled P (s\<lparr>data_q := data_q s @ [(fr, pending_grant s)], pending_grant := 0, accepted := a\<rparr>)" for fr a
    using assms by (simp add: settled_iff) (simp add: own_reserved_def held_credit_def ac_simps)
  with assms show ?thesis
    by (simp add: write_queue_def Let_def settled_give_back split: poll.split sum.split)
qed

lemma settled_write:
  assumes "settled P s"
  shows "settled P (snd (poll_write w buf q ok s))"
proof -
  obtain r1 s1 where c: "write_credit w buf s = (r1, s1)" by fastforce
  have "settled P s1" by (rule settled_credit [OF assms c])
  with settled_queue [OF this] assms c show ?thesis
    by (simp add: poll_write_def split: option.split poll.split sum.split)
qed

lemma settled_drop: "settled P s \<Longrightarrow> settled P (stream_drop s)"
  using settled_give_back [of s]
  by (cases "pending_grant s = 0") (simp_all add: stream_drop_def give_back_grant_def word_gt_0 settled_iff own_reserved_def held_credit_def)

text \<open>The writer task.\<close>

lemma settled_exit:
  assumes "books P s r (inbuf_bytes s) (read_cancel s)"
    and "r = queued_credit (data_q s) + unat (pending_grant s) + lost_credit s"
  shows "settled P (writer_exit s)"
  using assms by (simp add: writer_exit_def settled_iff) (simp add: own_reserved_def held_credit_def ac_simps)

lemma settled_select:
  assumes "settled P s" and "writer_at s = WrIdle"
  shows "settled P (writer_select s)"
proof (cases "life_q s")
  case (Cons m rest)
  with assms show ?thesis
    by (simp add: writer_select_def settled_iff) (simp add: own_reserved_def held_credit_def)
next
  case Nil
  have b: "books P s (own_reserved s) (inbuf_bytes s) (read_cancel s)" using assms(1) by (simp add: settled_iff)
  show ?thesis
  proof (cases "data_q s")
    case Nil
    then have "settled P (writer_exit s)"
      using b assms(2) by (intro settled_exit) (simp_all add: own_reserved_def held_credit_def)
    with Nil \<open>life_q s = []\<close> assms(1) show ?thesis by (simp add: writer_select_def)
  next
    case (Cons x rest)
    obtain fr r where x: "x = (fr, r)" by (cases x)
    have "books P (release_held r (s\<lparr>data_q := rest\<rparr>)) (own_reserved s - unat r) (inbuf_bytes s) (read_cancel s)"
      using b Cons x by (intro books_release_held) (simp_all add: own_reserved_def)
    then have "settled P (release_held r (s\<lparr>data_q := rest\<rparr>))"
      using Cons x by (simp add: settled_iff) (simp add: own_reserved_def held_credit_def ac_simps)
    moreover have "settled P (s\<lparr>data_q := rest, writer_at := WrHold fr r\<rparr>)"
      using b assms(2) Cons x by (simp add: settled_iff) (simp add: own_reserved_def held_credit_def ac_simps)
    ultimately show ?thesis using Nil Cons x by (simp add: writer_select_def Let_def)
  qed
qed

lemma settled_leave_held:
  assumes "settled P s" and "held_credit s = unat r"
  shows "settled P (writer_exit (release_held r s))"
proof -
  have "books P (release_held r s) (own_reserved s - unat r) (inbuf_bytes s) (read_cancel s)"
    using assms by (intro books_release_held) (simp_all add: settled_iff own_reserved_def)
  then show ?thesis using assms(2) by (intro settled_exit) (simp_all add: own_reserved_def ac_simps)
qed

lemma settled_buffer: "settled P s \<Longrightarrow> settled P (writer_buffer n s)"
proof (cases "writer_at s")
  case (WrHold fr r)
  moreover assume f: "settled P s"
  moreover have "settled P (s\<lparr>writer_at := WrData fr r False\<rparr>)"
    using f WrHold by (simp add: settled_iff) (simp add: own_reserved_def held_credit_def)
  ultimately show ?thesis
    by (simp add: writer_buffer_def settled_leave_held held_credit_def)
qed (simp_all add: writer_buffer_def)

lemma settled_transmit: "settled P s \<Longrightarrow> settled P (writer_transmit s)"
  by (auto simp: writer_transmit_def settled_iff split: writer.split bool.split)
     (auto simp: own_reserved_def held_credit_def)

lemma settled_mark_sent: "settled P s \<Longrightarrow> settled P (mark_terminal_sent fr s)"
  by (simp add: mark_terminal_sent_def settled_retire)

lemma books_mark_sent:
  assumes "books P s r u c" shows "books P (mark_terminal_sent fr s) r u c"
  using assms books_retire [of "s\<lparr>local_terminal_sent := True\<rparr>" r u c]
  by (simp add: mark_terminal_sent_def)

lemma settled_sent:
  assumes "settled P s" and "stream_guard s (SvWriterSent ok)"
  shows "settled P (writer_sent ok s)"
proof (cases "writer_at s")
  case (WrLife m b)
  have bk: "books P s (own_reserved s) (inbuf_bytes s) (read_cancel s)" using assms(1) by (simp add: settled_iff)
  have "settled P (writer_exit s)"
    using bk WrLife by (intro settled_exit) (simp_all add: own_reserved_def held_credit_def)
  moreover have "settled P (mark_terminal_sent m s\<lparr>writer_at := WrIdle\<rparr>)"
    using books_mark_sent [OF bk, of m] WrLife
    by (simp add: settled_iff inbuf_bytes_def) (simp add: own_reserved_def held_credit_def)
  ultimately show ?thesis using WrLife by (simp add: writer_sent_def)
next
  case (WrData fr r b)
  have bk: "books P s (own_reserved s) (inbuf_bytes s) (read_cancel s)" using assms(1) by (simp add: settled_iff)
  let ?t = "if r > 0 then on_flow (commit (sh_id s) r) s else s"
  have "books P ?t (own_reserved s - unat r) (inbuf_bytes s) (read_cancel s)"
    using books_commit [OF bk, of r] bk WrData
    by (cases "r = 0") (simp_all add: own_reserved_def held_credit_def word_gt_0)
  then have "books P (mark_terminal_sent fr ?t) (own_reserved s - unat r) (inbuf_bytes s) (read_cancel s)"
    by (rule books_mark_sent)
  then have "settled P (mark_terminal_sent fr ?t\<lparr>writer_at := WrIdle\<rparr>)"
    using WrData
    by (cases "0 < r"; simp add: settled_iff inbuf_bytes_def; simp add: own_reserved_def held_credit_def ac_simps)
  moreover have "settled P (writer_exit (release_held r s))"
    using assms(1) WrData by (intro settled_leave_held) (simp_all add: held_credit_def)
  ultimately show ?thesis using WrData by (simp add: writer_sent_def Let_def)
qed (use assms in \<open>simp_all add: writer_sent_def\<close>)

lemma settled_start:
  assumes "settled P s" and "writer_at s = WrWaiting"
  shows "settled P (writer_start s)"
proof -
  have "settled P (writer_exit s)"
    using assms by (intro settled_exit [of s "own_reserved s"]) (simp_all add: settled_iff own_reserved_def held_credit_def)
  moreover have "settled P (s\<lparr>writer_at := WrIdle\<rparr>)"
    using assms by (simp add: settled_iff) (simp add: own_reserved_def held_credit_def)
  ultimately show ?thesis
    using assms(1) by (simp add: writer_start_def split: poll.split sum.split)
qed

lemma settled_env:
  assumes "settled P s" and "stream_guard s (SvFlow op)"
  shows "settled P (stream_step s (SvFlow op))"
  using assms books_env [OF _ assms(2)] by (simp add: settled_iff)

lemma settled_step:
  assumes "state_ok s" and "settled P s" and "stream_guard s e"
  shows "settled P (stream_step s e)"
proof (cases e)
  case (SvFlow op)
  with assms show ?thesis by (simp only: settled_env)
next
  case (SvWriterSent ok)
  with assms show ?thesis by (simp add: settled_sent del: stream_guard.simps)
qed (use assms in \<open>simp_all add: on_open_def settled_message settled_channel_close settled_read settled_cancel
    settled_reset settled_shutdown settled_close_write settled_write settled_drop settled_start
    settled_select settled_buffer settled_transmit\<close>)

end

section \<open>Two clients\<close>

interpretation plain: engine_client "\<lambda>f. True"
  by unfold_locales simp

lemma flow_ok_step:
  assumes "state_ok s" and "flow_ok s" and "stream_guard s e"
  shows "flow_ok (stream_step s e)"
  using plain.settled_step [OF assms(1) _ assms(3)] assms(2) by (simp add: settled_def)

text \<open>The calls on the engine between two states of it, all under the contract.\<close>

definition engine_run :: "ConnFlow \<Rightarrow> ConnFlow \<Rightarrow> bool" where
  "engine_run f g \<longleftrightarrow> (\<exists>ops. legal flow_step flow_guard f ops \<and> g = foldl flow_step f ops)"

lemma engine_run_refl [simp]: "engine_run f f"
  unfolding engine_run_def by (intro exI [of _ "[]"]) simp

lemma engine_run_call:
  assumes "engine_run f g" and "flow_guard g op"
  shows "engine_run f (flow_step g op)"
proof -
  obtain ops where "legal flow_step flow_guard f ops" "g = foldl flow_step f ops"
    using assms(1) by (auto simp: engine_run_def)
  with assms(2) show ?thesis
    unfolding engine_run_def by (intro exI [of _ "ops @ [op]"]) (simp add: legal_append)
qed

lemma engine_run_trans:
  assumes "engine_run f g" and "engine_run g h"
  shows "engine_run f h"
proof -
  obtain xs ys where "legal flow_step flow_guard f xs" "g = foldl flow_step f xs"
    "legal flow_step flow_guard g ys" "h = foldl flow_step g ys"
    using assms by (auto simp: engine_run_def)
  then show ?thesis unfolding engine_run_def by (intro exI [of _ "xs @ ys"]) (simp add: legal_append)
qed

interpretation traced: engine_client "engine_run f0" for f0 :: ConnFlow
  by unfold_locales (rule engine_run_call)

text \<open>A step of a stream changes the engine by calls under its contract only.\<close>

lemma stream_uses_engine:
  assumes "state_ok s" and "flow_ok s" and "stream_guard s e"
  shows "engine_run (sh_flow s) (sh_flow (stream_step s e))"
  using traced.settled_step [OF assms(1) _ assms(3), of "sh_flow s"] assms(2) by (simp add: settled_def)

end
