(* ===== verification/KpsStreamWire.thy ===== *)
theory KpsStreamWire
  imports KpsStreamBooks
begin

text \<open>
  Preservation of \<open>out_ok\<close>: the frames a stream puts on its channel obey the order rule
  the receiving side enforces, and carry the accepted bytes in order.
\<close>

section \<open>Frames\<close>

lemma is_kind_simps [simp]:
  "is_kind t (encode_data p) \<longleftrightarrow> t = FtData"
  "is_kind t encode_fin \<longleftrightarrow> t = FtFin"
  "is_kind t (encode_code k c) \<longleftrightarrow> t = k"
  "is_kind t (encode_max_stream_data v) \<longleftrightarrow> t = FtMaxStreamData"
  by (cases t; simp add: is_kind_def encoder_defs; cases k; simp)+

lemma is_terminal_simps [simp]:
  "\<not> is_terminal (encode_data p)" "is_terminal encode_fin"
  "is_terminal (encode_code FtReset c)" "\<not> is_terminal (encode_code FtStopSending c)"
  "\<not> is_terminal (encode_max_stream_data v)"
  by (simp_all add: is_terminal_def)

lemma data_payload_simps [simp]:
  "data_payload (encode_data p) = p" "data_payload encode_fin = []"
  "data_payload (encode_code FtReset c) = []" "data_payload (encode_code FtStopSending c) = []"
  "data_payload (encode_max_stream_data v) = []"
  by (simp_all add: data_payload_def) (simp add: encode_data_def)

lemma data_of_simps [simp]:
  "data_of [] = []" "data_of (fr # frs) = data_payload fr @ data_of frs"
  "data_of (frs @ frs') = data_of frs @ data_of frs'"
  by (simp_all add: data_of_def)

lemma data_payload_terminal: "is_terminal fr \<Longrightarrow> data_payload fr = []"
  by (auto simp: is_terminal_def data_payload_def is_kind_def split: list.splits)

lemma wire_ok_append:
  "wire_ok seen (ws @ [fr]) \<longleftrightarrow>
     wire_ok seen ws \<and> (is_kind FtData fr \<or> is_terminal fr \<longrightarrow> \<not> seen \<and> \<not> list_ex is_terminal ws)"
proof (induction ws arbitrary: seen)
  case (Cons w ws)
  have "\<not> (is_kind FtData w \<and> is_terminal w)"
    by (auto simp: is_terminal_def is_kind_def split: list.splits)
  then show ?case by (auto simp: Cons.IH)
qed auto

lemma entry_cases:
  assumes "entry_ok (fr, r)"
  obtains (data) p where "fr = encode_data p" "r = of_nat (length p)" "p \<noteq> []" "length p \<le> MAX_FRAME_PAYLOAD"
    | (fin) "fr = encode_fin" "r = 0"
  using assms by (auto simp: entry_ok_def)

lemma life_ok_simps [simp]:
  "life_ok (encode_code FtReset c)" "life_ok (encode_code FtStopSending c)"
  "v \<le> MAX_OFFSET \<Longrightarrow> life_ok (encode_max_stream_data v)"
  by (auto simp: life_ok_def)

section \<open>What leaves the wire alone\<close>

lemmas out_view_defs = held_data_def pending_life_def held_life_def sent_frame_def

lemma out_ok_frame [simp]:
  "out_ok (s\<lparr>inbuf := x_inbuf\<rparr>) = out_ok s"
  "out_ok (s\<lparr>peer_fin := x_peer_fin\<rparr>) = out_ok s"
  "out_ok (s\<lparr>peer_reset := x_peer_reset\<rparr>) = out_ok s"
  "out_ok (s\<lparr>peer_stop := x_peer_stop\<rparr>) = out_ok s"
  "out_ok (s\<lparr>local_terminal_sent := x_local_terminal_sent\<rparr>) = out_ok s"
  "out_ok (s\<lparr>read_cancel := x_read_cancel\<rparr>) = out_ok s"
  "out_ok (s\<lparr>dc_open := x_dc_open\<rparr>) = out_ok s"
  "out_ok (s\<lparr>dc_closed := x_dc_closed\<rparr>) = out_ok s"
  "out_ok (s\<lparr>retired_fired := x_retired_fired\<rparr>) = out_ok s"
  "out_ok (s\<lparr>st_closed := x_st_closed\<rparr>) = out_ok s"
  "out_ok (s\<lparr>read_waker := x_read_waker\<rparr>) = out_ok s"
  "out_ok (s\<lparr>sh_flow := x_sh_flow\<rparr>) = out_ok s"
  "out_ok (s\<lparr>is_teardown := x_is_teardown\<rparr>) = out_ok s"
  "out_ok (s\<lparr>fatal_calls := x_fatal_calls\<rparr>) = out_ok s"
  "out_ok (s\<lparr>retired_calls := x_retired_calls\<rparr>) = out_ok s"
  "out_ok (s\<lparr>reads_woken := x_reads_woken\<rparr>) = out_ok s"
  "out_ok (s\<lparr>open_notified := x_open_notified\<rparr>) = out_ok s"
  "out_ok (s\<lparr>closed_notified := x_closed_notified\<rparr>) = out_ok s"
  "out_ok (s\<lparr>buf_low_notified := x_buf_low_notified\<rparr>) = out_ok s"
  "out_ok (s\<lparr>close_tasks := x_close_tasks\<rparr>) = out_ok s"
  "out_ok (s\<lparr>handle_live := x_handle_live\<rparr>) = out_ok s"
  "out_ok (s\<lparr>arrived := x_arrived\<rparr>) = out_ok s"
  "out_ok (s\<lparr>delivered := x_delivered\<rparr>) = out_ok s"
  "out_ok (s\<lparr>lost_credit := x_lost_credit\<rparr>) = out_ok s"
  "out_ok (wake_reader s) = out_ok s"
  "out_ok (on_flow h s) = out_ok s"
  "out_ok (release_held r s) = out_ok s"
  "out_ok (fatal_hook m s) = out_ok s"
  "out_ok (maybe_retire s) = out_ok s"
  "out_ok (mark_closed s) = out_ok s"
  "out_ok (mark_terminal_sent fr s) = out_ok s"
  by (simp_all add: out_ok_def out_view_defs)

section \<open>Terminal frames\<close>

lemma recorded_simps [simp]:
  "recorded lt encode_fin \<longleftrightarrow> lt = Some TermFin"
  "recorded lt (encode_code FtReset c) \<longleftrightarrow> lt = Some TermReset"
  "\<not> recorded None fr"
  by (simp_all add: recorded_def)

lemma terminals_append:
  "terminals W Q (L @ [m]) = terminals W Q L @ filter is_terminal [m]"
  "terminals (W @ [fr]) Q L = filter is_terminal W @ filter is_terminal [fr] @ terminals [] Q L"
  by (simp_all add: terminals_def)

lemma terminals_parts:
  "terminals W Q L = filter is_terminal W @ filter is_terminal (map fst Q) @ filter is_terminal L"
  by (simp add: terminals_def)

lemma terminals_okD:
  assumes "terminals_ok W H Q L lt cw"
  shows "length (terminals W (H @ Q) L) \<le> (if lt = None \<or> cw then 0 else 1)"
    and "list_all (recorded lt) (terminals W (H @ Q) L)"
    and "list_all (\<lambda>x. \<not> is_terminal (fst x)) (butlast (H @ Q))"
    and "list_ex is_terminal W \<Longrightarrow> H = []" and "list_ex is_terminal W \<Longrightarrow> lt = Some TermFin \<Longrightarrow> Q = []"
  using assms by (simp_all add: terminals_ok_def)

lemma no_terminals:
  assumes "terminals_ok W H Q L lt cw" and "lt = None \<or> cw"
  shows "terminals W (H @ Q) L = []"
  using terminals_okD(1) [OF assms(1)] assms(2) by (simp split: if_splits)

lemma terminals_Nil:
  assumes "terminals W Q L = []"
  shows "\<not> list_ex is_terminal W" and "\<not> list_ex (is_kind FtFin) W"
    and "list_all (\<lambda>x. \<not> is_terminal (fst x)) Q"
  using assms by (auto simp: terminals_def filter_empty_conv list_ex_iff list_all_iff is_terminal_def)

lemma list_all_butlast: "list_all P xs \<Longrightarrow> list_all P (butlast xs)"
  by (auto simp: list_all_iff dest: in_set_butlastD)

text \<open>Each change of the queues.\<close>

lemma terminals_ok_life:
  assumes "terminals_ok W H Q L lt cw" and "\<not> is_terminal m"
  shows "terminals_ok W H Q (L @ [m]) lt cw"
  using assms by (simp add: terminals_ok_def terminals_append)

lemma terminals_ok_reset:
  assumes "terminals_ok W H Q L None cw"
  shows "terminals_ok W H Q (L @ [encode_code FtReset c]) (Some TermReset) False"
    and "terminals_ok W H Q L (Some TermReset) False"
proof -
  have n: "terminals W (H @ Q) L = []" using no_terminals [OF assms] by simp
  note m = terminals_Nil [OF n]
  show "terminals_ok W H Q (L @ [encode_code FtReset c]) (Some TermReset) False"
    and "terminals_ok W H Q L (Some TermReset) False"
    using m(1) list_all_butlast [OF m(3)] by (simp_all add: terminals_ok_def terminals_append n)
qed

lemma terminals_ok_wire_only:
  assumes "terminals_ok W H Q L lt cw"
  shows "terminals_ok W [] [] [] lt cw"
  using assms by (auto simp: terminals_ok_def terminals_parts)

lemma terminals_ok_hold:
  assumes "terminals_ok W [] (x # Q) L lt cw" and "\<not> (lt = Some TermReset \<and> is_kind FtData (fst x))"
    and "entry_ok x"
  shows "terminals_ok W [x] Q L lt cw"
proof -
  note d = terminals_okD [OF assms(1)]
  have "\<not> list_ex is_terminal W"
  proof
    assume w: "list_ex is_terminal W"
    then obtain t where "t \<in> set W" "is_terminal t" by (auto simp: list_ex_iff)
    then have "recorded lt t" using d(2) by (simp add: list_all_iff terminals_parts)
    then have lt: "lt = Some TermReset" using d(5) [OF w] by (auto simp: recorded_def split: if_splits)
    with assms(2,3) have "fst x = encode_fin" by (cases x) (auto elim!: entry_cases)
    with d(2) lt show False by (simp add: terminals_parts)
  qed
  with assms(1) show ?thesis by (simp add: terminals_ok_def)
qed

lemma terminals_ok_discard:
  assumes "terminals_ok W [] (x # Q) L lt cw"
  shows "terminals_ok W [] Q L lt cw"
proof -
  note d = terminals_okD [OF assms]
  have "length (terminals W Q L) \<le> length (terminals W (x # Q) L)"
    and "list_all (recorded lt) (terminals W Q L)"
    using d(2) by (auto simp: terminals_parts split: if_splits)
  moreover have "list_all (\<lambda>x. \<not> is_terminal (fst x)) (butlast Q)"
    using d(3) by (cases "Q = []") simp_all
  moreover have "list_ex is_terminal W \<longrightarrow> lt = Some TermFin \<longrightarrow> Q = []" using d(5) by auto
  ultimately show ?thesis using d(1) by (simp add: terminals_ok_def)
qed

lemma terminals_ok_transmit:
  assumes "terminals_ok W [x] Q L lt cw"
  shows "terminals_ok (W @ [fst x]) [] Q L lt cw" and "\<not> list_ex is_terminal W"
    and "is_terminal (fst x) \<Longrightarrow> Q = []"
proof -
  note d = terminals_okD [OF assms]
  show w: "\<not> list_ex is_terminal W" using d(4) by auto
  show q: "Q = []" if "is_terminal (fst x)"
    using d(3) that by (cases "Q = []") simp_all
  have "terminals (W @ [fst x]) Q L = terminals W (x # Q) L" by (simp add: terminals_def)
  moreover have "list_all (\<lambda>x. \<not> is_terminal (fst x)) (butlast Q)"
    using d(3) by (cases "Q = []") simp_all
  ultimately show "terminals_ok (W @ [fst x]) [] Q L lt cw"
    using d(1,2) w q by (simp add: terminals_ok_def)
qed

lemma terminals_ok_transmit_life:
  assumes "terminals_ok W [] Q (m # L) lt cw" and "\<not> is_kind FtFin m"
  shows "terminals_ok (W @ [m]) [] Q L lt cw" and "is_terminal m \<Longrightarrow> \<not> list_ex is_terminal W"
proof -
  note d = terminals_okD [OF assms(1)]
  have perm: "length (terminals (W @ [m]) Q L) = length (terminals W Q (m # L))"
    "list_all (recorded lt) (terminals (W @ [m]) Q L) = list_all (recorded lt) (terminals W Q (m # L))"
    by (auto simp: terminals_parts)
  show "\<not> list_ex is_terminal W" if "is_terminal m"
  proof
    assume "list_ex is_terminal W"
    then have "filter is_terminal W \<noteq> []" by (auto simp: filter_empty_conv list_ex_iff)
    then have "1 \<le> length (filter is_terminal W)" by (cases "filter is_terminal W") auto
    then have "2 \<le> length (terminals W Q (m # L))" using that by (simp add: terminals_def)
    with d(1) show False by (simp split: if_splits)
  qed
  have "lt \<noteq> Some TermFin" if "is_terminal m"
    using assms d(2) that by (simp add: terminals_parts recorded_def)
  then show "terminals_ok (W @ [m]) [] Q L lt cw"
    using d perm by (auto simp: terminals_ok_def)
qed

lemma terminals_ok_enqueue:
  assumes "terminals_ok W H Q L lt cw" and "lt = None \<or> cw"
  shows "\<not> is_terminal (fst x) \<Longrightarrow> terminals_ok W H (Q @ [x]) L lt cw"
    and "terminals_ok W H (Q @ [(encode_fin, 0)]) L (Some TermFin) False"
    and "terminals_ok W H Q L (Some TermFin) cw'"
proof -
  have n: "terminals W (H @ Q) L = []" by (rule no_terminals [OF assms])
  note m = terminals_Nil [OF n]
  have t: "terminals W (H @ Q @ [y]) L = filter is_terminal [fst y]" for y
    using n by (simp add: terminals_parts)
  have b: "list_all (\<lambda>x. \<not> is_terminal (fst x)) (butlast (H @ Q @ [z]))" for z
    using m(3) by (simp add: butlast_append)
  show "terminals_ok W H (Q @ [x]) L lt cw" if "\<not> is_terminal (fst x)"
    using that m(1) b by (simp add: terminals_ok_def t)
  show "terminals_ok W H (Q @ [(encode_fin, 0)]) L (Some TermFin) False"
    using m(1) b by (simp add: terminals_ok_def t)
  show "terminals_ok W H Q L (Some TermFin) cw'"
    using m(1) list_all_butlast [OF m(3)] by (simp add: terminals_ok_def n)
qed

section \<open>Payload\<close>

lemma payload_ok_hold:
  assumes "payload_ok W [] (x # Q) acc ex" and "ex \<or> data_payload (fst x) = []"
  shows "payload_ok W [x] Q acc ex"
  using assms by (auto simp: payload_ok_def)

lemma payload_ok_discard: "payload_ok W H Q acc ex \<Longrightarrow> payload_ok W H Q' acc False"
  by (auto simp: payload_ok_def)

lemma payload_ok_weaken: "payload_ok W H Q acc ex \<Longrightarrow> (ex' \<Longrightarrow> ex) \<Longrightarrow> payload_ok W H Q acc ex'"
  by (auto simp: payload_ok_def)

lemma payload_ok_exit: "payload_ok W H Q acc ex \<Longrightarrow> payload_ok W [] [] acc False"
  by (auto simp: payload_ok_def)

lemma payload_ok_transmit:
  assumes "payload_ok W [x] Q acc ex" and "\<not> list_ex is_terminal W"
    and "is_kind FtFin (fst x) \<Longrightarrow> Q = [] \<and> ex"
  shows "payload_ok (W @ [fst x]) [] Q acc ex"
proof -
  have "\<not> list_ex (is_kind FtFin) W" using assms(2) by (auto simp: list_ex_iff is_terminal_def)
  with assms(1,3) show ?thesis by (auto simp: payload_ok_def)
qed

lemma payload_ok_transmit_life:
  assumes "payload_ok W H Q acc ex" and "data_payload m = []" and "\<not> is_kind FtFin m"
  shows "payload_ok (W @ [m]) H Q acc ex"
  using assms by (auto simp: payload_ok_def)

lemma payload_ok_enqueue:
  assumes "payload_ok W H Q acc True" and "\<not> list_ex (is_kind FtFin) W"
  shows "payload_ok W H (Q @ [(encode_data p, r)]) (acc @ p) True"
    and "payload_ok W H (Q @ [(encode_fin, 0)]) acc True"
  using assms by (auto simp: payload_ok_def)

lemma payload_ok_fin:
  assumes "payload_ok W H Q acc ex"
  shows "payload_ok W H (Q @ [(encode_fin, 0)]) acc ex"
  using assms by (auto simp: payload_ok_def)

section \<open>Every operation\<close>

lemma out_okD:
  assumes "out_ok s"
  shows "set_option (sent_frame s) \<subseteq> set (wire_out s)"
    and "unat (pending_grant s) \<le> MAX_FRAME_PAYLOAD"
    and "list_all entry_ok (held_data s @ data_q s)" and "list_all life_ok (pending_life s)"
    and "wire_ok False (wire_out s)"
    and "terminals_ok (wire_out s) (held_data s) (data_q s) (pending_life s)
                     (local_terminal s) (close_write_pending s)"
    and "payload_ok (wire_out s) (held_data s) (data_q s) (accepted s)
                   (\<not> drop_data s \<and> writer_at s \<noteq> WrDone)"
  using assms by (simp_all add: out_ok_def)

lemma out_ok_life:
  assumes "out_ok s" and "life_ok m" and "\<not> is_terminal m"
  shows "out_ok (life_send m s)"
proof (cases "writer_at s = WrDone")
  case True
  with assms(1) show ?thesis by (simp add: life_send_def)
next
  case False
  let ?t = "s\<lparr>life_q := life_q s @ [m]\<rparr>"
  have "pending_life ?t = pending_life s @ [m]" "held_data ?t = held_data s" "sent_frame ?t = sent_frame s"
    by (simp_all add: out_view_defs)
  with out_okD [OF assms(1)] assms(2) terminals_ok_life [OF _ assms(3)] have "out_ok ?t"
    by (simp add: out_ok_def)
  with False show ?thesis by (simp add: life_send_def)
qed

lemma adv_in_range: "fst (on_consumed i n f) = Some a \<Longrightarrow> a \<le> MAX_OFFSET"
  by (auto simp: on_consumed_def consume_stream_def Let_def sat_def split: option.splits if_splits)

lemma out_ok_consumed: "out_ok s \<Longrightarrow> out_ok (shared_consumed n s)"
  using adv_in_range [of "sh_id s" n "sh_flow s"]
  by (auto simp: shared_consumed_def Let_def intro!: out_ok_life split: prod.split option.split)

lemma out_ok_discard: "out_ok s \<Longrightarrow> out_ok (discard_consumed n s)"
  by (simp add: discard_consumed_def out_ok_consumed)

lemma out_ok_peer_stop [simp]: "out_ok (s\<lparr>peer_stop := x\<rparr>) = out_ok s"
  by (simp add: out_ok_def out_view_defs)

lemma view_update [simp]:
  "held_data (s\<lparr>local_terminal := x1\<rparr>) = held_data s"
  "held_data (s\<lparr>drop_data := x2\<rparr>) = held_data s"
  "held_data (s\<lparr>life_q := x3\<rparr>) = held_data s"
  "held_data (s\<lparr>data_q := x4\<rparr>) = held_data s"
  "held_data (s\<lparr>close_write_pending := x5\<rparr>) = held_data s"
  "held_data (s\<lparr>pending_grant := x6\<rparr>) = held_data s"
  "held_data (s\<lparr>accepted := x7\<rparr>) = held_data s"
  "held_data (s\<lparr>wire_out := x8\<rparr>) = held_data s"
  "sent_frame (s\<lparr>local_terminal := x1\<rparr>) = sent_frame s"
  "sent_frame (s\<lparr>drop_data := x2\<rparr>) = sent_frame s"
  "sent_frame (s\<lparr>life_q := x3\<rparr>) = sent_frame s"
  "sent_frame (s\<lparr>data_q := x4\<rparr>) = sent_frame s"
  "sent_frame (s\<lparr>close_write_pending := x5\<rparr>) = sent_frame s"
  "sent_frame (s\<lparr>pending_grant := x6\<rparr>) = sent_frame s"
  "sent_frame (s\<lparr>accepted := x7\<rparr>) = sent_frame s"
  "sent_frame (s\<lparr>wire_out := x8\<rparr>) = sent_frame s"
  "pending_life (s\<lparr>local_terminal := x1\<rparr>) = pending_life s"
  "pending_life (s\<lparr>drop_data := x2\<rparr>) = pending_life s"
  "pending_life (s\<lparr>data_q := x4\<rparr>) = pending_life s"
  "pending_life (s\<lparr>close_write_pending := x5\<rparr>) = pending_life s"
  "pending_life (s\<lparr>pending_grant := x6\<rparr>) = pending_life s"
  "pending_life (s\<lparr>accepted := x7\<rparr>) = pending_life s"
  "pending_life (s\<lparr>wire_out := x8\<rparr>) = pending_life s"
  "pending_life (s\<lparr>life_q := life_q s @ [m]\<rparr>) = pending_life s @ [m]"
  by (simp_all add: out_view_defs)

lemma view_writer:
  "writer_at s = WrIdle \<Longrightarrow> held_data s = [] \<and> sent_frame s = None \<and> pending_life s = life_q s"
  "writer_at s = WrWaiting \<Longrightarrow> held_data s = [] \<and> sent_frame s = None \<and> pending_life s = life_q s"
  "writer_at s = WrHold fr r \<Longrightarrow> held_data s = [(fr, r)] \<and> sent_frame s = None \<and> pending_life s = life_q s"
  "writer_at s = WrData fr r False \<Longrightarrow> held_data s = [(fr, r)] \<and> sent_frame s = None \<and> pending_life s = life_q s"
  "writer_at s = WrData fr r True \<Longrightarrow> held_data s = [] \<and> sent_frame s = Some fr \<and> pending_life s = life_q s"
  "writer_at s = WrLife m False \<Longrightarrow> held_data s = [] \<and> sent_frame s = None \<and> pending_life s = m # life_q s"
  "writer_at s = WrLife m True \<Longrightarrow> held_data s = [] \<and> sent_frame s = Some m \<and> pending_life s = life_q s"
  "writer_at s = WrDone \<Longrightarrow> held_data s = [] \<and> sent_frame s = None \<and> pending_life s = life_q s"
  by (simp_all add: out_view_defs)

lemma view_cong:
  assumes "writer_at t = writer_at s"
  shows "held_data t = held_data s" and "sent_frame t = sent_frame s"
    and "life_q t = life_q s \<Longrightarrow> pending_life t = pending_life s"
    and "life_q t = life_q s @ [m] \<Longrightarrow> pending_life t = pending_life s @ [m]"
  using assms by (simp_all add: out_view_defs)

text \<open>A local reset: the write half records it and RESET joins the lifecycle queue.\<close>

lemma out_ok_local_reset:
  assumes "out_ok s" and "local_terminal s = None" and "\<not> close_write_pending s"
    and t: "writer_at t = writer_at s" "life_q t = life_q s" "data_q t = data_q s" "wire_out t = wire_out s"
      "pending_grant t = pending_grant s" "accepted t = accepted s" "\<not> close_write_pending t"
      "local_terminal t = Some TermReset" "drop_data t"
  shows "out_ok (life_send (encode_code FtReset c) t)"
proof -
  note d = out_okD [OF assms(1)]
  note r = terminals_ok_reset [OF d(6) [unfolded assms(2)]]
  note p = payload_ok_weaken [OF d(7)]
  note v = view_cong(1-3) [OF t(1)]
  have "pending_life (t\<lparr>life_q := life_q t @ [m]\<rparr>) = pending_life s @ [m]" for m
    using view_cong(4) [of "t\<lparr>life_q := life_q t @ [m]\<rparr>" s m] t by simp
  with d r p t v show ?thesis by (simp add: life_send_def out_ok_def)
qed

lemma out_ok_message:
  assumes "out_ok s" and "state_ok s"
  shows "out_ok (on_message data s)"
proof -
  have data: "out_ok (on_data_frame p s)" for p
    using assms by (simp add: on_data_frame_def Let_def out_ok_consumed split: prod.split sum.split)
  have fin: "out_ok (on_fin_frame s)" and rst: "out_ok (on_reset_frame c s)" for c
    using assms by (simp_all add: on_fin_frame_def on_reset_frame_def Let_def out_ok_discard)
  have stop: "out_ok (on_stop_frame c s)" for c
  proof (cases "local_terminal s = None \<and> peer_stop s = None")
    case True
    then have "\<not> close_write_pending s" using assms(2) by (auto simp: state_ok_def flags_ok_def)
    then have "out_ok (life_send (encode_code FtReset c) ((on_flow h
        (s\<lparr>peer_stop := e, local_terminal := Some TermReset, drop_data := True\<rparr>))\<lparr>buf_low_notified := k\<rparr>))" for e h k
      using assms(1) True by (intro out_ok_local_reset [of s]) simp_all
    with True show ?thesis by (simp add: on_stop_frame_def Let_def)
  next
    case False
    with assms(1) show ?thesis by (auto simp: on_stop_frame_def Let_def)
  qed
  show ?thesis
    using assms(1) data fin rst stop
    by (simp add: on_message_def on_frame_def split: sum.split ParsedFrame.split)
qed

lemma out_ok_channel_close: "out_ok s \<Longrightarrow> out_ok (on_channel_close s)"
  by (simp add: on_channel_close_def Let_def)

lemma out_ok_cancel: "out_ok s \<Longrightarrow> out_ok (cancel_read c s)"
  by (simp add: cancel_read_def Let_def out_ok_discard out_ok_life)

lemma out_ok_reset:
  assumes "out_ok s" and "\<not> close_write_pending s"
  shows "out_ok (reset_write c s)"
proof (cases "local_terminal s")
  case None
  have "out_ok (life_send (encode_code FtReset c) ((on_flow h
        (s\<lparr>local_terminal := Some TermReset, drop_data := True\<rparr>))\<lparr>buf_low_notified := k\<rparr>))" for h k
    using assms None by (intro out_ok_local_reset [of s]) simp_all
  with None show ?thesis by (simp add: reset_write_def Let_def)
qed (use assms in \<open>simp add: reset_write_def\<close>)

lemma out_ok_read: "out_ok s \<Longrightarrow> out_ok (snd (poll_read w cap s))"
  by (simp add: poll_read_def Let_def out_ok_consumed split: list.split option.split)

text \<open>Queueing the FIN, and queueing data.\<close>

lemma out_ok_fin:
  assumes "out_ok s" and "local_terminal s = None \<or> close_write_pending s"
  shows "out_ok (s\<lparr>local_terminal := Some TermFin, close_write_pending := False, data_q := data_q s @ [(encode_fin, 0)]\<rparr>)"
    and "out_ok (s\<lparr>local_terminal := Some TermFin, close_write_pending := b\<rparr>)"
  using out_okD [OF assms(1)] terminals_ok_enqueue [OF out_okD(6) [OF assms(1)] assms(2)]
    payload_ok_fin [OF out_okD(7) [OF assms(1)]]
  by (simp_all add: out_ok_def entry_ok_def)

lemma same_local_terminal [simp]:
  "local_terminal s = x \<Longrightarrow> s\<lparr>local_terminal := x\<rparr> = s"
  "close_write_pending s = y \<Longrightarrow> s\<lparr>close_write_pending := y\<rparr> = s"
  by simp_all

lemma out_ok_shutdown:
  assumes "out_ok s" and "\<not> close_write_pending s"
  shows "out_ok (snd (poll_shutdown q ok s))"
proof (cases "local_terminal s")
  case None
  have a: "out_ok (s\<lparr>local_terminal := Some TermFin, data_q := data_q s @ [(encode_fin, 0)]\<rparr>)"
    and b: "out_ok (s\<lparr>local_terminal := Some TermFin\<rparr>)" and c: "out_ok (s\<lparr>local_terminal := None\<rparr>)"
    using out_ok_fin(1) [OF assms(1)] out_ok_fin(2) [OF assms(1), of False] None assms
    by (simp_all add: out_ok_def)
  from a b c None show ?thesis
    by (simp add: poll_shutdown_def Let_def split: poll.split sum.split)
qed (use assms in \<open>simp add: poll_shutdown_def\<close>)

lemma out_ok_close_write:
  assumes "out_ok s"
  shows "out_ok (snd (close_write_begin s))"
    and "local_terminal s = Some TermFin \<Longrightarrow> close_write_pending s \<Longrightarrow> out_ok (snd (close_write_finish sent s))"
    and "local_terminal s = Some TermFin \<Longrightarrow> close_write_pending s \<Longrightarrow> out_ok (close_write_abandon s)"
proof -
  have "out_ok (on_flow h (s\<lparr>local_terminal := Some TermFin\<rparr>)\<lparr>close_write_pending := True\<rparr>)"
    if "local_terminal s = None" for h
    using out_ok_fin(2) [OF assms, of True] that by (simp add: on_flow_def out_ok_def out_view_defs)
  then show "out_ok (snd (close_write_begin s))"
    using assms by (simp add: close_write_begin_def)
  assume t: "local_terminal s = Some TermFin" "close_write_pending s"
  have a: "out_ok (s\<lparr>close_write_pending := False, data_q := data_q s @ [(encode_fin, 0)]\<rparr>)"
    and b: "out_ok (s\<lparr>close_write_pending := False\<rparr>)"
    using out_ok_fin(1) [OF assms] out_ok_fin(2) [OF assms, of False] t
    by (simp_all add: out_ok_def out_view_defs)
  from a b show "out_ok (snd (close_write_finish sent s))" and "out_ok (close_write_abandon s)"
    by (simp_all add: close_write_finish_def close_write_abandon_def Let_def)
qed

lemma out_ok_grant:
  "out_ok s \<Longrightarrow> unat g \<le> MAX_FRAME_PAYLOAD \<Longrightarrow> out_ok (s\<lparr>pending_grant := g\<rparr>)"
  by (simp add: out_ok_def)

lemma out_ok_drop: "out_ok s \<Longrightarrow> out_ok (stream_drop s)"
  by (simp add: stream_drop_def out_ok_grant)

lemma out_ok_credit:
  assumes "out_ok s" and "flow_ok s" and c: "write_credit w buf s = (res, t)"
  shows "out_ok t" and "res = Ready (Inr x) \<Longrightarrow> 1 \<le> unat (pending_grant t)"
    and "data_q t = data_q s" "writer_at t = writer_at s" "local_terminal t = local_terminal s"
    "drop_data t = drop_data s" "close_write_pending t = close_write_pending s"
proof -
  let ?want = "of_nat (min (length buf) MAX_FRAME_PAYLOAD) :: u64"
  have want: "unat ?want \<le> MAX_FRAME_PAYLOAD"
    by (subst unat_of_nat_small) (simp_all add: frame_consts)
  have inv: "flow_inv (sh_flow s)" using assms(2) by (simp add: flow_ok_def)
  obtain r f where p: "poll_reserve w (sh_id s) ?want (sh_flow s) = (r, f)" by fastforce
  have g: "1 \<le> unat g \<and> unat g \<le> MAX_FRAME_PAYLOAD" if "r = Ready (Inr g)" for g
  proof -
    have "1 \<le> g" and "g \<le> ?want" using own_reserve(3) [OF inv p that] by blast+
    with want show ?thesis by (auto simp: word_le_nat_alt)
  qed
  show "out_ok t" and "res = Ready (Inr x) \<Longrightarrow> 1 \<le> unat (pending_grant t)"
    and "data_q t = data_q s" "writer_at t = writer_at s" "local_terminal t = local_terminal s"
    "drop_data t = drop_data s" "close_write_pending t = close_write_pending s"
    using c p g assms(1) out_ok_grant [of "s\<lparr>sh_flow := f\<rparr>"]
    by (auto simp: write_credit_def Let_def Suc_le_eq unat_gt_0 split: if_splits poll.splits sum.splits)
qed

lemma out_ok_queue:
  assumes "out_ok s" and "local_terminal s = None" and "\<not> drop_data s" and "queue_answer s q"
    and "1 \<le> unat (pending_grant s)"
  shows "out_ok (snd (write_queue buf q ok s))"
proof -
  note d = out_okD [OF assms(1)]
  have bk: "out_ok (give_back_grant s)"
    using assms(1) by (simp add: give_back_grant_def out_ok_grant)
  have "out_ok (s\<lparr>data_q := data_q s @ [(encode_data (take (unat (pending_grant s)) buf), pending_grant s)],
      pending_grant := 0, accepted := accepted s @ take (unat (pending_grant s)) buf\<rparr>)"
    if "unat (pending_grant s) \<le> length buf" "writer_at s \<noteq> WrDone"
  proof -
    let ?p = "take (unat (pending_grant s)) buf"
    have "length ?p = unat (pending_grant s)" using that by simp
    then have e: "entry_ok (encode_data ?p, pending_grant s)"
      using d(2) assms(5) unfolding entry_ok_def by (intro disjI1 exI [of _ ?p]) auto
    have "terminals (wire_out s) (held_data s @ data_q s) (pending_life s) = []"
      using no_terminals [OF d(6)] assms(2) by simp
    note m = terminals_Nil [OF this]
    have "payload_ok (wire_out s) (held_data s) (data_q s) (accepted s) True"
      using d(7) assms(3) that(2) by simp
    note pk = payload_ok_enqueue(1) [OF this m(2)]
    note t = terminals_ok_enqueue(1) [OF d(6), of "(encode_data ?p, pending_grant s)"]
    show ?thesis using d e pk t assms(2,3) that(2) by (simp add: out_ok_def)
  qed
  with bk assms(1,4) show ?thesis
    by (auto simp: write_queue_def Let_def queue_answer_def split: poll.splits sum.splits)
qed

lemma out_ok_write:
  assumes "out_ok s" and "state_ok s" and "flow_ok s" and "queue_answer s q"
  shows "out_ok (snd (poll_write w buf q ok s))"
proof -
  obtain r1 s1 where c: "write_credit w buf s = (r1, s1)" by fastforce
  note k = out_ok_credit [OF assms(1,3) c]
  have "out_ok (snd (write_queue buf q ok s1))" if "r1 = Ready (Inr x)" "local_terminal s = None" for x
  proof (rule out_ok_queue)
    show "\<not> drop_data s1" using k(6) that(2) assms(2) by (simp add: state_ok_def flags_ok_def)
    show "queue_answer s1 q" using assms(4) k(3,4) by (simp add: queue_answer_def cong: poll.case_cong sum.case_cong)
  qed (use k that in simp_all)
  with k(1) assms(1) c show ?thesis
    by (simp add: poll_write_def split: option.split poll.split sum.split)
qed

text \<open>The writer task.\<close>

lemma out_ok_exit: "out_ok s \<Longrightarrow> out_ok (writer_exit s)"
  using terminals_ok_wire_only [OF out_okD(6), of s] payload_ok_exit [OF out_okD(7), of s]
  by (simp add: writer_exit_def out_ok_def out_view_defs)

lemma out_ok_start:
  assumes "out_ok s" and "writer_at s = WrWaiting"
  shows "out_ok (writer_start s)"
proof -
  have "out_ok (s\<lparr>writer_at := WrIdle\<rparr>)"
    using out_okD [OF assms(1)] assms(2) by (simp add: out_ok_def out_view_defs)
  then show ?thesis
    using assms(1) out_ok_exit by (simp add: writer_start_def split: poll.split sum.split)
qed

lemma out_ok_select:
  assumes "out_ok s" and "state_ok s" and "writer_at s = WrIdle"
  shows "out_ok (writer_select s)"
proof (cases "life_q s")
  case (Cons m rest)
  have "out_ok (s\<lparr>life_q := rest, writer_at := WrLife m False\<rparr>)"
    using out_okD [OF assms(1)] assms(3) Cons by (simp add: out_ok_def out_view_defs)
  with Cons show ?thesis by (simp add: writer_select_def)
next
  case Nil
  note d = out_okD [OF assms(1)] and v = view_writer(1) [OF assms(3)]
  have drop: "drop_data s \<longleftrightarrow> local_terminal s = Some TermReset"
    using assms(2) by (simp add: state_ok_def flags_ok_def)
  show ?thesis
  proof (cases "data_q s")
    case Nil
    with \<open>life_q s = []\<close> assms(1) out_ok_exit show ?thesis by (simp add: writer_select_def)
  next
    case (Cons x rest)
    obtain fr r where x: "x = (fr, r)" by (cases x)
    have e: "entry_ok x" using d(3) Cons by simp
    have "out_ok (s\<lparr>data_q := rest\<rparr>)" if "drop_data s"
      using d v Cons that terminals_ok_discard [of "wire_out s" x rest] payload_ok_discard [of "wire_out s" "[]" "x # rest"]
      by (simp add: out_ok_def)
    moreover have "out_ok (s\<lparr>data_q := rest, writer_at := WrHold fr r\<rparr>)"
      if "\<not> (drop_data s \<and> is_kind FtData fr)"
    proof -
      let ?t = "s\<lparr>data_q := rest, writer_at := WrHold fr r\<rparr>"
      have w: "held_data ?t = [x]" "sent_frame ?t = None" "pending_life ?t = life_q s"
        using x view_writer(3) [of ?t fr r] by simp_all
      have t: "terminals_ok (wire_out s) [x] rest (life_q s) (local_terminal s) (close_write_pending s)"
        using d(6) v Cons x e drop that by (intro terminals_ok_hold) auto
      have "\<not> drop_data s \<or> data_payload fr = []"
        using e x that by (auto elim!: entry_cases)
      then have "payload_ok (wire_out s) [x] rest (accepted s) (\<not> drop_data s \<and> writer_at s \<noteq> WrDone)"
        using d(7) v Cons x assms(3) by (intro payload_ok_hold) auto
      with d t w v Cons e assms(3) show ?thesis by (simp add: out_ok_def)
    qed
    ultimately show ?thesis using Nil Cons x by (simp add: writer_select_def Let_def)
  qed
qed

lemma out_ok_buffer:
  assumes "out_ok s"
  shows "out_ok (writer_buffer n s)"
proof (cases "writer_at s")
  case (WrHold fr r)
  then have "out_ok (s\<lparr>writer_at := WrData fr r False\<rparr>)"
    using out_okD [OF assms] by (simp add: out_ok_def out_view_defs)
  with assms WrHold show ?thesis by (simp add: writer_buffer_def out_ok_exit)
qed (use assms in \<open>simp_all add: writer_buffer_def\<close>)

lemma out_ok_transmit:
  assumes "out_ok s" and "state_ok s" and "stream_guard s SvWriterTransmit"
  shows "out_ok (writer_transmit s)"
proof -
  note d = out_okD [OF assms(1)]
  have drop: "drop_data s \<longleftrightarrow> local_terminal s = Some TermReset"
    using assms(2) by (simp add: state_ok_def flags_ok_def)
  consider (data) fr r where "writer_at s = WrData fr r False" | (life) m where "writer_at s = WrLife m False"
    using assms(3) by auto
  then show ?thesis
  proof cases
    case data
    note v = view_writer(4) [OF data]
    let ?t = "s\<lparr>writer_at := WrData fr r True, wire_out := wire_out s @ [fr]\<rparr>"
    have w: "held_data ?t = []" "sent_frame ?t = Some fr" "pending_life ?t = life_q s"
      using view_writer(5) [of ?t fr r] by simp_all
    have "terminals_ok (wire_out s) [(fr, r)] (data_q s) (life_q s) (local_terminal s) (close_write_pending s)"
      using d(6) v by simp
    note t = terminals_ok_transmit [OF this] and td = terminals_okD(2) [OF this]
    have fin: "data_q s = [] \<and> \<not> drop_data s" if "is_kind FtFin fr"
    proof -
      have "is_terminal fr" using that by (simp add: is_terminal_def)
      with t(3) td that drop show ?thesis by (auto simp: terminals_parts recorded_def)
    qed
    have "payload_ok (wire_out s @ [fst (fr, r)]) [] (data_q s) (accepted s) (\<not> drop_data s \<and> writer_at s \<noteq> WrDone)"
      using d(7) v t(2) fin data by (intro payload_ok_transmit) auto
    with d t w v data have "out_ok ?t" by (simp add: out_ok_def wire_ok_append)
    with data show ?thesis by (simp add: writer_transmit_def)
  next
    case life
    note v = view_writer(6) [OF life]
    let ?t = "s\<lparr>writer_at := WrLife m True, wire_out := wire_out s @ [m]\<rparr>"
    have w: "held_data ?t = []" "sent_frame ?t = Some m" "pending_life ?t = life_q s"
      using view_writer(7) [of ?t m] by simp_all
    have ok: "life_ok m" using d(4) v by simp
    then have k: "\<not> is_kind FtFin m" "\<not> is_kind FtData m" "data_payload m = []"
      by (auto simp: life_ok_def)
    have "terminals_ok (wire_out s) [] (data_q s) (m # life_q s) (local_terminal s) (close_write_pending s)"
      using d(6) v by simp
    note t = terminals_ok_transmit_life [OF this k(1)]
    have "payload_ok (wire_out s @ [m]) [] (data_q s) (accepted s) (\<not> drop_data s \<and> writer_at s \<noteq> WrDone)"
      using d(7) v k by (intro payload_ok_transmit_life) simp_all
    with d t w v k life have "out_ok ?t" by (simp add: out_ok_def wire_ok_append)
    with life show ?thesis by (simp add: writer_transmit_def)
  qed
qed

lemma out_ok_sent:
  assumes "out_ok s" and "stream_guard s (SvWriterSent ok)"
  shows "out_ok (writer_sent ok s)"
proof (cases ok)
  case False
  with assms show ?thesis by (auto simp: writer_sent_def out_ok_exit)
next
  case True
  have "out_ok (t\<lparr>writer_at := WrIdle\<rparr>)" if "out_ok t" "(\<exists>fr r. writer_at t = WrData fr r True) \<or> (\<exists>m. writer_at t = WrLife m True)" for t
    using out_okD [OF that(1)] that(2) by (auto simp: out_ok_def out_view_defs)
  with True assms show ?thesis by (auto simp: writer_sent_def Let_def)
qed

lemma out_ok_step:
  assumes "state_ok s" and "flow_ok s" and "out_ok s" and "stream_guard s e"
  shows "out_ok (stream_step s e)"
proof (cases e)
  case SvWriterTransmit
  with assms show ?thesis by (simp add: out_ok_transmit del: stream_guard.simps)
next
  case (SvWriterSent ok)
  with assms show ?thesis by (simp add: out_ok_sent del: stream_guard.simps)
next
  case (SvCloseWriteFinish sent)
  then have "close_write_pending s" and "local_terminal s = Some TermFin"
    using assms by (auto simp: state_ok_def flags_ok_def)
  with SvCloseWriteFinish assms show ?thesis by (simp add: out_ok_close_write)
next
  case SvCloseWriteAbandon
  then have "close_write_pending s" and "local_terminal s = Some TermFin"
    using assms by (auto simp: state_ok_def flags_ok_def)
  with SvCloseWriteAbandon assms show ?thesis by (simp add: out_ok_close_write)
qed (use assms in \<open>simp_all add: on_open_def out_ok_message out_ok_channel_close out_ok_cancel out_ok_reset
    out_ok_read out_ok_shutdown out_ok_close_write out_ok_write out_ok_drop out_ok_start out_ok_select out_ok_buffer\<close>)

end
