(* ===== verification/KpsStreamRead.thy ===== *)
theory KpsStreamRead
  imports KpsStreamWire
begin

text \<open>
  Preservation of \<open>in_ok\<close>, and with it of the whole invariant: the interpretation of
  \<open>machine\<close> for the stream.
\<close>

section \<open>Reading\<close>

lemma in_ok_frame [simp]:
  "in_ok (s\<lparr>peer_stop := x_peer_stop\<rparr>) = in_ok s"
  "in_ok (s\<lparr>local_terminal := x_local_terminal\<rparr>) = in_ok s"
  "in_ok (s\<lparr>local_terminal_sent := x_local_terminal_sent\<rparr>) = in_ok s"
  "in_ok (s\<lparr>drop_data := x_drop_data\<rparr>) = in_ok s"
  "in_ok (s\<lparr>dc_open := x_dc_open\<rparr>) = in_ok s"
  "in_ok (s\<lparr>dc_closed := x_dc_closed\<rparr>) = in_ok s"
  "in_ok (s\<lparr>retired_fired := x_retired_fired\<rparr>) = in_ok s"
  "in_ok (s\<lparr>st_closed := x_st_closed\<rparr>) = in_ok s"
  "in_ok (s\<lparr>read_waker := x_read_waker\<rparr>) = in_ok s"
  "in_ok (s\<lparr>sh_flow := x_sh_flow\<rparr>) = in_ok s"
  "in_ok (s\<lparr>is_teardown := x_is_teardown\<rparr>) = in_ok s"
  "in_ok (s\<lparr>retired_calls := x_retired_calls\<rparr>) = in_ok s"
  "in_ok (s\<lparr>reads_woken := x_reads_woken\<rparr>) = in_ok s"
  "in_ok (s\<lparr>open_notified := x_open_notified\<rparr>) = in_ok s"
  "in_ok (s\<lparr>closed_notified := x_closed_notified\<rparr>) = in_ok s"
  "in_ok (s\<lparr>buf_low_notified := x_buf_low_notified\<rparr>) = in_ok s"
  "in_ok (s\<lparr>close_tasks := x_close_tasks\<rparr>) = in_ok s"
  "in_ok (s\<lparr>handle_live := x_handle_live\<rparr>) = in_ok s"
  "in_ok (s\<lparr>lost_credit := x_lost_credit\<rparr>) = in_ok s"
  "in_ok (s\<lparr>life_q := x_life_q\<rparr>) = in_ok s"
  "in_ok (s\<lparr>data_q := x_data_q\<rparr>) = in_ok s"
  "in_ok (s\<lparr>pending_grant := x_pending_grant\<rparr>) = in_ok s"
  "in_ok (s\<lparr>writer_at := x_writer_at\<rparr>) = in_ok s"
  "in_ok (s\<lparr>close_write_pending := x_close_write_pending\<rparr>) = in_ok s"
  "in_ok (s\<lparr>wire_out := x_wire_out\<rparr>) = in_ok s"
  "in_ok (s\<lparr>accepted := x_accepted\<rparr>) = in_ok s"
  "in_ok (wake_reader s) = in_ok s"
  "in_ok (on_flow h s) = in_ok s"
  "in_ok (release_held r s) = in_ok s"
  "in_ok (life_send m s) = in_ok s"
  "in_ok (shared_consumed n s) = in_ok s"
  "in_ok (discard_consumed n s) = in_ok s"
  "in_ok (maybe_retire s) = in_ok s"
  "in_ok (mark_closed s) = in_ok s"
  "in_ok (mark_terminal_sent fr s) = in_ok s"
  "in_ok (give_back_grant s) = in_ok s"
  "in_ok (writer_exit s) = in_ok s"
  by (simp_all add: in_ok_def give_back_grant_def writer_exit_def)

lemma in_ok_fatal [simp]: "in_ok (fatal_hook m s)" "in_ok (s\<lparr>fatal_calls := x @ [y]\<rparr>)"
  "in_ok ((fatal_hook m s)\<lparr>arrived := a\<rparr>)"
  by (simp_all add: in_ok_def fatal_hook_def)

lemma parsed_kind:
  assumes "parse_frame data = Inr f"
  shows "is_kind FtData data \<longleftrightarrow> (\<exists>p. f = PfData p)" and "is_kind FtFin data \<longleftrightarrow> f = PfFin"
    and "is_kind FtReset data \<longleftrightarrow> (\<exists>c. f = PfReset c)"
    and "data_payload data = (case f of PfData p \<Rightarrow> p | _ \<Rightarrow> [])"
proof -
  have g: "frame_grammar data f" using assms by (simp add: parse_frame_grammar)
  show "is_kind FtData data \<longleftrightarrow> (\<exists>p. f = PfData p)" and "is_kind FtFin data \<longleftrightarrow> f = PfFin"
    and "is_kind FtReset data \<longleftrightarrow> (\<exists>c. f = PfReset c)"
    and "data_payload data = (case f of PfData p \<Rightarrow> p | _ \<Rightarrow> [])"
    using g by (auto simp: is_kind_def data_payload_def elim!: frame_grammar.cases)
qed

lemma in_okD:
  assumes "in_ok s" and "fatal_calls s = []"
  obtains d where "data_of (arrived s) = delivered s @ concat (inbuf s) @ d"
    and "\<not> read_cancel s \<Longrightarrow> peer_reset s = None \<Longrightarrow> d = []"
    and "peer_fin s \<longleftrightarrow> list_ex (is_kind FtFin) (arrived s)"
    and "peer_reset s \<noteq> None \<longleftrightarrow> list_ex (is_kind FtReset) (arrived s)"
    and "wire_ok False (arrived s)"
  using assms unfolding in_ok_def by blast

lemma terminal_arrived:
  "list_ex is_terminal ws \<longleftrightarrow> list_ex (is_kind FtFin) ws \<or> list_ex (is_kind FtReset) ws"
  by (auto simp: list_ex_iff is_terminal_def)

text \<open>One more frame, with what the handler made of it.\<close>

lemma in_ok_arrive:
  assumes "in_ok s" and "fatal_calls t = [] \<Longrightarrow> fatal_calls s = []"
    and f: "parse_frame data = Inr f" and t: "arrived t = arrived s @ [data]" "delivered t = delivered s"
    and read: "\<And>d. fatal_calls t = [] \<Longrightarrow> (\<not> read_cancel s \<Longrightarrow> peer_reset s = None \<Longrightarrow> d = []) \<Longrightarrow>
        \<exists>d'. concat (inbuf s) @ d @ (case f of PfData p \<Rightarrow> p | _ \<Rightarrow> []) = concat (inbuf t) @ d'
           \<and> (\<not> read_cancel t \<and> peer_reset t = None \<longrightarrow> d' = [])"
    and fin: "fatal_calls t = [] \<Longrightarrow> peer_fin t \<longleftrightarrow> peer_fin s \<or> f = PfFin"
    and rst: "fatal_calls t = [] \<Longrightarrow> peer_reset t \<noteq> None \<longleftrightarrow> peer_reset s \<noteq> None \<or> (\<exists>c. f = PfReset c)"
    and once: "fatal_calls t = [] \<Longrightarrow> f = PfFin \<or> (\<exists>c. f = PfReset c) \<or> (\<exists>p. f = PfData p) \<Longrightarrow> \<not> peer_terminal s"
  shows "in_ok t"
proof (cases "fatal_calls t = []")
  case True
  note k = parsed_kind [OF f]
  from in_okD [OF assms(1) assms(2) [OF True]] obtain d where
    d: "data_of (arrived s) = delivered s @ concat (inbuf s) @ d" "\<not> read_cancel s \<Longrightarrow> peer_reset s = None \<Longrightarrow> d = []"
    and fs: "peer_fin s \<longleftrightarrow> list_ex (is_kind FtFin) (arrived s)"
    and rs: "peer_reset s \<noteq> None \<longleftrightarrow> list_ex (is_kind FtReset) (arrived s)" and ws: "wire_ok False (arrived s)"
    by blast
  from read [OF True d(2)] obtain d' where
    "concat (inbuf s) @ d @ (case f of PfData p \<Rightarrow> p | _ \<Rightarrow> []) = concat (inbuf t) @ d'"
    "\<not> read_cancel t \<and> peer_reset t = None \<longrightarrow> d' = []" by blast
  then have "\<exists>d. data_of (arrived t) = delivered t @ concat (inbuf t) @ d
      \<and> (\<not> read_cancel t \<and> peer_reset t = None \<longrightarrow> d = [])"
    using t d(1) k(4) by auto
  moreover have "wire_ok False (arrived t)"
    using ws once [OF True] k(1-3) fs rs t(1)
    by (auto simp: wire_ok_append terminal_arrived peer_terminal_def is_terminal_def)
  moreover have "peer_fin t \<longleftrightarrow> list_ex (is_kind FtFin) (arrived t)"
    using fin [OF True] fs t(1) k(2) by simp
  moreover have "peer_reset t \<noteq> None \<longleftrightarrow> list_ex (is_kind FtReset) (arrived t)"
    using rst [OF True] rs t(1) k(3) by simp
  ultimately show ?thesis by (simp add: in_ok_def)
qed (simp add: in_ok_def)

lemma in_ok_message:
  assumes "in_ok s"
  shows "in_ok (on_message data s)"
proof (cases "parse_frame data")
  case (Inl msg)
  then show ?thesis by (simp add: on_message_def on_frame_def)
next
  case (Inr f)
  note arrive = in_ok_arrive [OF assms _ Inr]
  show ?thesis
  proof (cases f)
    case (PfData p)
    show ?thesis
    proof (cases "peer_terminal s")
      case True
      with Inr PfData show ?thesis
        by (simp add: on_message_def on_frame_def on_data_frame_def peer_terminal_def Let_def)
    next
      case False
      obtain res fl where d: "on_data_received (sh_id s) (of_nat (length p)) (sh_flow s) = (res, fl)" by fastforce
      show ?thesis
      proof (cases res)
        case (Inl m)
        with Inr PfData False d show ?thesis
          by (simp add: on_message_def on_frame_def on_data_frame_def peer_terminal_def Let_def)
      next
        case r: (Inr u)
        show ?thesis
        proof (cases "read_cancel s")
          case True
          with Inr PfData False d r show ?thesis
            by (intro arrive) (auto simp: on_message_def on_frame_def on_data_frame_def peer_terminal_def Let_def)
        next
          case nc: False
          with Inr PfData False d r show ?thesis
            by (intro arrive) (auto simp: on_message_def on_frame_def on_data_frame_def peer_terminal_def Let_def)
        qed
      qed
    qed
  next
    case PfFin
    show ?thesis
    proof (cases "peer_terminal s")
      case True
      with Inr PfFin show ?thesis
        by (simp add: on_message_def on_frame_def on_fin_frame_def peer_terminal_def)
    next
      case False
      with Inr PfFin show ?thesis
        by (intro arrive) (auto simp: on_message_def on_frame_def on_fin_frame_def peer_terminal_def)
    qed
  next
    case (PfReset c)
    show ?thesis
    proof (cases "peer_terminal s")
      case True
      with Inr PfReset show ?thesis
        by (simp add: on_message_def on_frame_def on_reset_frame_def peer_terminal_def)
    next
      case False
      with Inr PfReset show ?thesis
        by (intro arrive) (auto simp: on_message_def on_frame_def on_reset_frame_def peer_terminal_def Let_def)
    qed
  next
    case (PfStopSending c)
    have "fatal_calls (on_stop_frame c s) = fatal_calls s" "inbuf (on_stop_frame c s) = inbuf s"
      "read_cancel (on_stop_frame c s) = read_cancel s" "peer_reset (on_stop_frame c s) = peer_reset s"
      "peer_fin (on_stop_frame c s) = peer_fin s" "delivered (on_stop_frame c s) = delivered s"
      by (simp_all add: on_stop_frame_def Let_def)
    with Inr PfStopSending show ?thesis
      by (intro arrive) (auto simp: on_message_def on_frame_def)
  next
    case (PfMaxStreamData v)
    with Inr show ?thesis
      by (intro arrive) (auto simp: on_message_def on_frame_def)
  qed
qed

lemma in_ok_read:
  assumes "in_ok s"
  shows "in_ok (snd (poll_read w cap s))"
proof (cases "inbuf s")
  case Nil
  with assms show ?thesis by (simp add: poll_read_def split: option.split)
next
  case (Cons chunk rest)
  have tk: "take cap chunk @ drop cap chunk @ xs = chunk @ xs" for xs
    by (metis append_assoc append_take_drop_id)
  have "in_ok (s\<lparr>inbuf := rest, delivered := delivered s @ chunk\<rparr>)"
    and "in_ok (s\<lparr>inbuf := drop cap chunk # rest, delivered := delivered s @ take cap chunk\<rparr>)"
    using assms Cons by (simp_all add: in_ok_def tk)
  with Cons show ?thesis by (simp add: poll_read_def Let_def min_def)
qed

lemma in_ok_cancel:
  assumes "in_ok s"
  shows "in_ok (cancel_read c s)"
proof -
  have "in_ok (s\<lparr>read_cancel := True, inbuf := []\<rparr>)"
    using assms by (auto simp: in_ok_def)
  with assms show ?thesis by (simp add: cancel_read_def Let_def)
qed

lemma in_ok_write: "in_ok s \<Longrightarrow> in_ok (snd (poll_write w buf q ok s))"
  by (simp add: poll_write_def write_credit_def write_queue_def Let_def
      split: option.split prod.split poll.split sum.split)

lemma in_ok_quiet:
  assumes "in_ok s"
  shows "in_ok (on_open s)" "in_ok (on_channel_close s)" "in_ok (snd (poll_shutdown q ok s))"
    "in_ok (snd (close_write_begin s))" "in_ok (snd (close_write_finish sent s))"
    "in_ok (close_write_abandon s)" "in_ok (reset_write c s)" "in_ok (stream_drop s)"
    "in_ok (writer_start s)" "in_ok (writer_select s)" "in_ok (writer_buffer n s)"
    "in_ok (writer_transmit s)" "in_ok (writer_sent ok s)"
  using assms
  by (simp_all add: on_open_def on_channel_close_def poll_shutdown_def close_write_begin_def
      close_write_finish_def close_write_abandon_def reset_write_def stream_drop_def writer_start_def
      writer_select_def writer_buffer_def writer_transmit_def writer_sent_def Let_def
      split: poll.split sum.split list.split writer.split bool.split prod.split)

lemma in_ok_step: "in_ok s \<Longrightarrow> in_ok (stream_step s e)"
  by (cases e) (simp_all add: in_ok_message in_ok_read in_ok_cancel in_ok_write in_ok_quiet)

section \<open>The whole invariant\<close>

lemma stream_step_inv: "stream_inv s \<Longrightarrow> stream_guard s e \<Longrightarrow> stream_inv (stream_step s e)"
  by (simp add: stream_inv_def state_ok_step flow_ok_step out_ok_step in_ok_step)

interpretation stream: machine stream_step stream_guard stream_inv
  by unfold_locales (rule stream_step_inv)

text \<open>A new stream is in order.\<close>

lemma stream_new_inv:
  assumes inv: "flow_inv f" and id: "next_id f < 18446744073709551615"
    and room: "pin \<Longrightarrow> peer_retired_streams f < peer_opened_streams f"
  shows "stream_inv (Stream_new pin td op f)"
proof -
  have fi: "flow_inv (snd (new_stream f))" using flow_step_inv [OF inv, of FlNewStream] id by simp
  have "state_ok (Stream_new pin td op f)"
    by (simp add: state_ok_def flags_ok_def retire_due_def peer_terminal_def Stream_new_def new_stream_def Let_def)
  moreover have "flow_ok (Stream_new pin td op f)"
    using fi room
    by (simp add: flow_ok_def own_def Stream_new_def new_stream_def Let_def held_credit_def unread_def
        StreamState_default_def inbuf_bytes_def)
  moreover have "out_ok (Stream_new pin td op f)"
    by (simp add: out_ok_def out_view_defs Stream_new_def new_stream_def Let_def terminals_ok_def terminals_def
        payload_ok_def)
  moreover have "in_ok (Stream_new pin td op f)"
    by (simp add: in_ok_def Stream_new_def new_stream_def Let_def)
  ultimately show ?thesis by (simp add: stream_inv_def)
qed

end
