(* ===== verification/KpsNet.thy ===== *)
theory KpsNet
  imports KpsPrelude
begin

text \<open>
  Socket addresses as \<open>std::net\<close> has them, with the two conversions the listener uses on a
  dual-stack socket: \<open>to_ipv6_mapped\<close> (\<open>::ffff:a.b.c.d\<close>) and \<open>to_canonical\<close>, its inverse on
  mapped addresses.
\<close>

datatype IpAddr = V4 u32 | V6 "128 word"

record SocketAddr =
  sa_ip :: IpAddr
  sa_port :: u16

fun is_ipv6 :: "IpAddr \<Rightarrow> bool" where
  "is_ipv6 (V4 a) = False"
| "is_ipv6 (V6 a) = True"

definition v4_mapped_prefix :: nat where
  "v4_mapped_prefix = 0xffff"

definition to_ipv6_mapped :: "u32 \<Rightarrow> 128 word" where
  "to_ipv6_mapped a = of_nat (v4_mapped_prefix * 2 ^ 32 + unat a)"

fun to_canonical :: "IpAddr \<Rightarrow> IpAddr" where
  "to_canonical (V4 a) = V4 a"
| "to_canonical (V6 b) =
     (if unat b div 2 ^ 32 = v4_mapped_prefix then V4 (of_nat (unat b mod 2 ^ 32)) else V6 b)"

lemma unat_mapped: "unat (to_ipv6_mapped a) = v4_mapped_prefix * 2 ^ 32 + unat a"
proof -
  have "unat a < 2 ^ 32" using unat_bound [of a] by simp
  then have "v4_mapped_prefix * 2 ^ 32 + unat a < 2 ^ LENGTH(128)" by (simp add: v4_mapped_prefix_def)
  then show ?thesis unfolding to_ipv6_mapped_def by (rule unat_of_nat_small)
qed

lemma to_canonical_mapped [simp]: "to_canonical (V6 (to_ipv6_mapped a)) = V4 a"
proof -
  have "unat a < 2 ^ 32" using unat_bound [of a] by simp
  then show ?thesis by (simp add: unat_mapped)
qed

lemma to_canonical_idem [simp]: "to_canonical (to_canonical a) = to_canonical a"
  by (cases a) simp_all

end
