(* ===== verification/KpsConn.thy ===== *)
theory KpsConn
  imports KpsStreamRead KpsNet
begin

text \<open>
  \<open>src/libs/rust/kps/src/conn.rs\<close>: a connection over one PeerConnection. One record holds
  the flags and queues of \<open>CloseState\<close>, \<open>HelloState\<close> and \<open>IncomingQueue\<close>, the credit
  engine, and the streams by their engine id. An \<open>async\<close> function is one definition per
  stretch between awaits; what waits in between is an entry of \<open>tasks\<close> (a spawned task, a
  callback, or a caller's future). What the WebRTC stack answers (channel states, results of
  sends) is an argument; a frame is on \<open>control_out\<close> when its send has returned.
\<close>

section \<open>State\<close>

definition WEBRTC_MAX_DATAGRAM :: nat where
  "WEBRTC_MAX_DATAGRAM = 1200"

text \<open>\<open>RTCDataChannelState\<close> and \<open>RTCPeerConnectionState\<close>.\<close>

datatype dc_state = DcConnecting | DcOpen | DcClosing | DcClosed

datatype pc_state = PcNew | PcConnecting | PcConnected | PcDisconnected | PcFailed | PcClosed

text \<open>
  What is suspended: the HELLO behind its send, a fatal error's task before and after its
  send, the refusal of a version, an application's close before its send and while it flushes,
  a stream that the peer opened
  between the check of \<open>is_established\<close> and its queue, and \<open>open_stream\<close> at each of its
  awaits.
\<close>

datatype conn_task =
    TkHello
  | TkFatal ErrorCode
  | TkFatalSent ErrorCode
  | TkUnsupported
  | TkClose ErrorCode
  | TkCloseSent ErrorCode
  | TkSurface u64 bool
  | TkOpenWait
  | TkOpenSlot
  | TkOpenChannel
  | TkOpenReady u64

datatype watch = WatchHello | WatchClose | WatchDone

record CloseState =
  cs_err :: "StreamError option"
  cs_closed :: bool
  cs_notified :: nat

record HelloState = CloseState +
  hello_sent :: bool
  hello_received :: bool
  established :: bool
  hello_notified :: nat

record IncomingQueue = HelloState +
  inc_queue :: "u64 list"
  inc_staged :: "u64 list"
  inc_notified :: nat

record WebrtcConn = IncomingQueue +
  conn_flow :: ConnFlow
  conn_streams :: "u64 \<rightharpoonup> WebrtcStream"
  stream_seq :: u64
  dg_rx :: "bytes list"
  tearing_down :: bool
  remote :: SocketAddr
  tasks :: "conn_task list"
  watcher :: watch
  control_writer_live :: bool
  control_out :: "bytes list"
  pc_close_calls :: nat
  handed_out :: "u64 list"

definition WebrtcConn_new :: "SocketAddr \<Rightarrow> WebrtcConn" where
  "WebrtcConn_new addr =
     \<lparr>cs_err = None, cs_closed = False, cs_notified = 0,
      hello_sent = False, hello_received = False, established = False, hello_notified = 0,
      inc_queue = [], inc_staged = [], inc_notified = 0,
      conn_flow = ConnFlow_new DEFAULT_FLOW_LIMITS, conn_streams = Map.empty, stream_seq = 0,
      dg_rx = [], tearing_down = False, remote = addr, tasks = [], watcher = WatchHello,
      control_writer_live = True, control_out = [], pc_close_calls = 0, handed_out = []\<rparr>"

definition spawn :: "conn_task \<Rightarrow> WebrtcConn \<Rightarrow> WebrtcConn" where
  "spawn t c = c\<lparr>tasks := tasks c @ [t]\<rparr>"

definition finish_task :: "conn_task \<Rightarrow> WebrtcConn \<Rightarrow> WebrtcConn" where
  "finish_task t c = c\<lparr>tasks := remove1 t (tasks c)\<rparr>"

definition control_send :: "bytes \<Rightarrow> bool \<Rightarrow> WebrtcConn \<Rightarrow> WebrtcConn" where
  "control_send m ok c = (if ok then c\<lparr>control_out := control_out c @ [m]\<rparr> else c)"

definition pc_close :: "WebrtcConn \<Rightarrow> WebrtcConn" where
  "pc_close c = c\<lparr>pc_close_calls := Suc (pc_close_calls c)\<rparr>"

section \<open>CloseState and HelloState\<close>

text \<open>\<open>mark\<close> swaps the flag first and stores the reason after it.\<close>

definition mark_swap :: "WebrtcConn \<Rightarrow> WebrtcConn" where
  "mark_swap c = c\<lparr>cs_closed := True\<rparr>"

definition mark_store :: "StreamError option \<Rightarrow> WebrtcConn \<Rightarrow> WebrtcConn" where
  "mark_store err c = c\<lparr>cs_err := err, cs_notified := Suc (cs_notified c)\<rparr>"

definition mark :: "StreamError option \<Rightarrow> WebrtcConn \<Rightarrow> WebrtcConn" where
  "mark err c = (if cs_closed c then c else mark_store err (mark_swap c))"

definition hello_check :: "WebrtcConn \<Rightarrow> bool \<times> WebrtcConn" where
  "hello_check c =
     (if hello_sent c \<and> hello_received c \<and> \<not> established c
      then (True, c\<lparr>established := True, hello_notified := Suc (hello_notified c)\<rparr>)
      else (False, c))"

section \<open>IncomingQueue\<close>

definition inc_push :: "u64 \<Rightarrow> WebrtcConn \<Rightarrow> WebrtcConn" where
  "inc_push i c = c\<lparr>inc_queue := inc_queue c @ [i], inc_notified := Suc (inc_notified c)\<rparr>"

definition inc_stage :: "u64 \<Rightarrow> WebrtcConn \<Rightarrow> WebrtcConn" where
  "inc_stage i c = c\<lparr>inc_staged := inc_staged c @ [i]\<rparr>"

definition flush_staged :: "WebrtcConn \<Rightarrow> WebrtcConn" where
  "flush_staged c =
     (if inc_staged c = [] then c
      else c\<lparr>inc_queue := inc_queue c @ inc_staged c, inc_staged := [],
             inc_notified := Suc (inc_notified c)\<rparr>)"

definition inc_pop :: "WebrtcConn \<Rightarrow> u64 option \<times> WebrtcConn" where
  "inc_pop c =
     (case inc_queue c of
        [] \<Rightarrow> (None, c)
      | i # rest \<Rightarrow> (Some i, c\<lparr>inc_queue := rest\<rparr>))"

definition check_and_flush :: "WebrtcConn \<Rightarrow> WebrtcConn" where
  "check_and_flush c = (let (fired, c') = hello_check c in if fired then flush_staged c' else c')"

section \<open>Fatal errors\<close>

definition fatal :: "ErrorCode \<Rightarrow> string \<Rightarrow> WebrtcConn \<Rightarrow> WebrtcConn" where
  "fatal code msg c =
     (if tearing_down c then c else spawn (TkFatal code) (c\<lparr>tearing_down := True\<rparr>))"

text \<open>Several reports in a row.\<close>

fun fatals :: "(ErrorCode \<times> string) list \<Rightarrow> WebrtcConn \<Rightarrow> WebrtcConn" where
  "fatals [] c = c"
| "fatals ((code, msg) # calls) c = fatals calls (fatal code msg c)"

text \<open>The spawned task, before and after its send.\<close>

definition fatal_send :: "ErrorCode \<Rightarrow> dc_state \<Rightarrow> bool \<Rightarrow> WebrtcConn \<Rightarrow> WebrtcConn" where
  "fatal_send code ready ok c =
     spawn (TkFatalSent code)
       (control_send (encode_conn_close code) (ready = DcOpen \<and> ok) (finish_task (TkFatal code) c))"

definition fatal_finish :: "ErrorCode \<Rightarrow> WebrtcConn \<Rightarrow> WebrtcConn" where
  "fatal_finish code c =
     pc_close (mark (Some \<lparr>se_code = code, se_remote = False\<rparr>) (finish_task (TkFatalSent code) c))"

definition reserved_channel_lost :: "string \<Rightarrow> pc_state \<Rightarrow> WebrtcConn \<Rightarrow> WebrtcConn" where
  "reserved_channel_lost which st c =
     (if tearing_down c \<or> cs_closed c then c
      else if st = PcFailed \<or> st = PcClosed \<or> st = PcDisconnected
      then pc_close (mark (Some \<lparr>se_code = EcNetworkError, se_remote = False\<rparr>) (c\<lparr>tearing_down := True\<rparr>))
      else fatal EcProtocolError (''reserved '' @ which @ '' channel lost'') c)"

section \<open>The control channel\<close>

definition send_hello :: "WebrtcConn \<Rightarrow> WebrtcConn" where
  "send_hello c = (if hello_sent c then c else spawn TkHello (c\<lparr>hello_sent := True\<rparr>))"

definition send_hello_finish :: "bool \<Rightarrow> WebrtcConn \<Rightarrow> WebrtcConn" where
  "send_hello_finish ok c =
     check_and_flush
       (control_send (encode_hello (local_limits (conn_flow c))) ok (finish_task TkHello c))"

definition on_flow_conn :: "(ConnFlow \<Rightarrow> ConnFlow) \<Rightarrow> WebrtcConn \<Rightarrow> WebrtcConn" where
  "on_flow_conn g c = c\<lparr>conn_flow := g (conn_flow c)\<rparr>"

definition on_hello :: "u8 \<Rightarrow> FlowLimits \<Rightarrow> WebrtcConn \<Rightarrow> WebrtcConn" where
  "on_hello version limits c =
     (if hello_received c then fatal EcProtocolError ''duplicate HELLO'' c
      else let c1 = c\<lparr>hello_received := True\<rparr>
           in if version \<noteq> WIRE_VERSION then spawn TkUnsupported c1
              else check_and_flush (on_flow_conn (on_peer_hello limits) c1))"

definition unsupported_finish :: "bool \<Rightarrow> WebrtcConn \<Rightarrow> WebrtcConn" where
  "unsupported_finish ok c =
     pc_close (mark (Some \<lparr>se_code = EcUnsupported, se_remote = False\<rparr>)
       ((control_send (encode_conn_close EcUnsupported) ok (finish_task TkUnsupported c))
          \<lparr>tearing_down := True\<rparr>))"

definition on_control :: "bytes \<Rightarrow> WebrtcConn \<Rightarrow> WebrtcConn" where
  "on_control data c =
     (case decode_control data of
        Inl msg \<Rightarrow> fatal EcProtocolError msg c
      | Inr (CtlHello version limits) \<Rightarrow> on_hello version limits c
      | Inr (CtlClose code) \<Rightarrow>
          pc_close (mark (if code \<noteq> EcNone then Some \<lparr>se_code = code, se_remote = True\<rparr> else None)
            (c\<lparr>tearing_down := True\<rparr>))
      | Inr (CtlMaxData v) \<Rightarrow>
          if \<not> hello_received c then fatal EcProtocolError ''control message before HELLO'' c
          else on_flow_conn (on_peer_max_data v) c
      | Inr (CtlMaxStreams v) \<Rightarrow>
          if \<not> hello_received c then fatal EcProtocolError ''control message before HELLO'' c
          else on_flow_conn (on_peer_max_streams v) c)"

text \<open>
  The control-writer task: one advertisement is taken; it is dropped while the channel is not
  open, and a failed send ends the task.
\<close>

definition control_writer :: "dc_state \<Rightarrow> bool \<Rightarrow> WebrtcConn \<Rightarrow> WebrtcConn" where
  "control_writer ready ok c =
     (case advert_tx (conn_flow c) of
        [] \<Rightarrow> c
      | m # rest \<Rightarrow>
          let c1 = on_flow_conn (\<lambda>f. f\<lparr>advert_tx := rest\<rparr>) c
          in if ready \<noteq> DcOpen then c1
             else if ok then control_send m True c1
             else c1\<lparr>control_writer_live := False\<rparr>)"

section \<open>The watcher task\<close>

text \<open>Which branch of its \<open>select!\<close> fires is up to the runtime, among those that are ready.\<close>

datatype watch_branch = BrClosed | BrHello | BrTimeout

definition watch_step :: "watch_branch \<Rightarrow> WebrtcConn \<Rightarrow> WebrtcConn" where
  "watch_step b c =
     (case watcher c of
        WatchHello \<Rightarrow>
          (case b of
             BrClosed \<Rightarrow> on_flow_conn (flow_fail (cs_err c)) (c\<lparr>watcher := WatchDone\<rparr>)
           | BrHello \<Rightarrow> c\<lparr>watcher := WatchClose\<rparr>
           | BrTimeout \<Rightarrow> fatal EcTimeout ''HELLO timeout'' (c\<lparr>watcher := WatchDone\<rparr>))
      | WatchClose \<Rightarrow> on_flow_conn (flow_fail (cs_err c)) (c\<lparr>watcher := WatchDone\<rparr>)
      | WatchDone \<Rightarrow> c)"

definition watch_ready :: "WebrtcConn \<Rightarrow> watch_branch \<Rightarrow> bool" where
  "watch_ready c b \<longleftrightarrow>
     (case watcher c of
        WatchHello \<Rightarrow> (case b of BrClosed \<Rightarrow> cs_closed c | BrHello \<Rightarrow> established c | BrTimeout \<Rightarrow> True)
      | WatchClose \<Rightarrow> b = BrClosed \<and> cs_closed c
      | WatchDone \<Rightarrow> False)"

section \<open>Streams\<close>

text \<open>A stream as its handlers see it: the shared engine and the teardown flag are the connection's.\<close>

definition load :: "WebrtcConn \<Rightarrow> WebrtcStream \<Rightarrow> WebrtcStream" where
  "load c s = s\<lparr>sh_flow := conn_flow c, is_teardown := tearing_down c \<or> cs_closed c\<rparr>"

definition put_conn_stream :: "WebrtcStream \<Rightarrow> WebrtcConn \<Rightarrow> WebrtcConn" where
  "put_conn_stream s c = c\<lparr>conn_flow := sh_flow s, conn_streams := (conn_streams c)(sh_id s \<mapsto> s)\<rparr>"

text \<open>
  One step of a stream. The fatal hook is the connection's \<open>fatal\<close>; the retired hook has
  acted on the engine already.
\<close>

definition stream_event :: "u64 \<Rightarrow> stream_ev \<Rightarrow> WebrtcConn \<Rightarrow> WebrtcConn" where
  "stream_event i e c =
     (case conn_streams c i of
        None \<Rightarrow> c
      | Some s \<Rightarrow>
          let s1 = stream_step (load c s) e
          in fatals (drop (length (fatal_calls s)) (fatal_calls s1)) (put_conn_stream s1 c))"

text \<open>\<open>WebrtcStream::new\<close> with the hooks of this connection.\<close>

definition new_conn_stream :: "bool \<Rightarrow> dc_state \<Rightarrow> WebrtcConn \<Rightarrow> u64 \<times> WebrtcConn" where
  "new_conn_stream peer ready c =
     (let s = Stream_new peer (tearing_down c \<or> cs_closed c) (ready = DcOpen) (conn_flow c)
      in (sh_id s, put_conn_stream s c))"

text \<open>
  \<open>on_data_channel\<close>: up to and including the check of \<open>is_established\<close>, and the push or
  stage after it.
\<close>

definition handle_incoming :: "dc_state \<Rightarrow> WebrtcConn \<Rightarrow> WebrtcConn" where
  "handle_incoming ready c =
     (case peer_stream_opened (conn_flow c) of
        (Inl msg, f) \<Rightarrow> fatal EcProtocolError msg (c\<lparr>conn_flow := f\<rparr>)
      | (Inr _, f) \<Rightarrow>
          let (i, c1) = new_conn_stream True ready (c\<lparr>conn_flow := f\<rparr>)
          in spawn (TkSurface i (established c1)) c1)"

definition surface :: "u64 \<Rightarrow> bool \<Rightarrow> WebrtcConn \<Rightarrow> WebrtcConn" where
  "surface i est c =
     (let c1 = finish_task (TkSurface i est) c in if est then inc_push i c1 else inc_stage i c1)"

definition close_result :: "WebrtcConn \<Rightarrow> Error" where
  "close_result c = (case cs_err c of Some se \<Rightarrow> ErrStream se | None \<Rightarrow> ErrConnClosed)"

text \<open>\<open>hello_first\<close> says which ready branch the \<open>select!\<close> takes.\<close>

definition wait_established :: "bool \<Rightarrow> WebrtcConn \<Rightarrow> (Error + unit) poll" where
  "wait_established hello_first c =
     (if established c \<and> (hello_first \<or> \<not> cs_closed c) then Ready (Inr ())
      else if cs_closed c then Ready (Inl (close_result c))
      else Pending)"

definition hand_out :: "u64 \<Rightarrow> WebrtcConn \<Rightarrow> WebrtcConn" where
  "hand_out i c = c\<lparr>handed_out := handed_out c @ [i]\<rparr>"

definition open_begin :: "WebrtcConn \<Rightarrow> Error option \<times> WebrtcConn" where
  "open_begin c = (if cs_closed c then (Some ErrConnClosed, c) else (None, spawn TkOpenWait c))"

definition open_established :: "bool \<Rightarrow> WebrtcConn \<Rightarrow> Error option \<times> WebrtcConn" where
  "open_established hello_first c =
     (case wait_established hello_first c of
        Pending \<Rightarrow> (None, c)
      | Ready (Inl e) \<Rightarrow> (Some e, finish_task TkOpenWait c)
      | Ready (Inr _) \<Rightarrow> (None, spawn TkOpenSlot (finish_task TkOpenWait c)))"

definition open_slot :: "WebrtcConn \<Rightarrow> Error option \<times> WebrtcConn" where
  "open_slot c =
     (case reserve_stream_slot (conn_flow c) of
        (Pending, f) \<Rightarrow> (None, c\<lparr>conn_flow := f\<rparr>)
      | (Ready (Inl e), f) \<Rightarrow> (Some e, finish_task TkOpenSlot (c\<lparr>conn_flow := f\<rparr>))
      | (Ready (Inr _), f) \<Rightarrow>
          (None, spawn TkOpenChannel (finish_task TkOpenSlot (c\<lparr>conn_flow := f, stream_seq := stream_seq c + 1\<rparr>))))"

definition stream_label :: "WebrtcConn \<Rightarrow> string" where
  "stream_label c = ''kps-'' @ show_nat (unat (stream_seq c + 1))"

definition open_channel :: "(string + dc_state) \<Rightarrow> WebrtcConn \<Rightarrow> Error option \<times> WebrtcConn" where
  "open_channel result c =
     (case result of
        Inl e \<Rightarrow> (Some (ErrTransport (''open stream: '' @ e)),
                  on_flow_conn release_stream_slot (finish_task TkOpenChannel c))
      | Inr ready \<Rightarrow>
          let (i, c1) = new_conn_stream False ready
                          (on_flow_conn commit_stream_slot (finish_task TkOpenChannel c))
          in (None, spawn (TkOpenReady i) c1))"

text \<open>A failure drops the stream's handle.\<close>

definition open_ready :: "bool \<Rightarrow> u64 \<Rightarrow> WebrtcConn \<Rightarrow> (Error + u64) poll \<times> WebrtcConn" where
  "open_ready open_first i c =
     (case conn_streams c i of
        None \<Rightarrow> (Pending, c)
      | Some s \<Rightarrow>
          let drop_it = stream_event i SvDrop (finish_task (TkOpenReady i) c)
          in case wait_open (load c s) of
               Pending \<Rightarrow> if cs_closed c then (Ready (Inl ErrConnClosed), drop_it) else (Pending, c)
             | Ready r \<Rightarrow>
                 if cs_closed c \<and> \<not> open_first then (Ready (Inl ErrConnClosed), drop_it)
                 else case r of
                        Inl e \<Rightarrow> (Ready (Inl e), drop_it)
                      | Inr _ \<Rightarrow> (Ready (Inr i), hand_out i (finish_task (TkOpenReady i) c)))"

text \<open>The caller drops the future of \<open>open_stream\<close> or of a close while it waits.\<close>

definition call_abandon :: "conn_task \<Rightarrow> WebrtcConn \<Rightarrow> WebrtcConn" where
  "call_abandon t c =
     (case t of
        TkOpenReady i \<Rightarrow> stream_event i SvDrop (finish_task t c)
      | _ \<Rightarrow> finish_task t c)"

definition accept_stream :: "WebrtcConn \<Rightarrow> (Error + u64) poll \<times> WebrtcConn" where
  "accept_stream c =
     (case inc_pop c of
        (Some i, c1) \<Rightarrow> (Ready (Inr i), hand_out i c1)
      | (None, c1) \<Rightarrow> if cs_closed c1 then (Ready (Inl (close_result c1)), c1) else (Pending, c1))"

section \<open>Closing, datagrams\<close>

text \<open>
  \<open>close\<close> is \<open>close_with_error\<close> with code \<open>None\<close>. \<open>opened\<close> says whether the control channel
  was open after the bounded wait; \<open>ok\<close> is the result of the send. The flush after it is a
  bounded wait again, and then the connection is marked.
\<close>

definition close_begin :: "ErrorCode \<Rightarrow> WebrtcConn \<Rightarrow> WebrtcConn" where
  "close_begin code c = spawn (TkClose code) (c\<lparr>tearing_down := True\<rparr>)"

definition send_close_and_flush :: "ErrorCode \<Rightarrow> bool \<Rightarrow> bool \<Rightarrow> WebrtcConn \<Rightarrow> WebrtcConn" where
  "send_close_and_flush code opened ok c =
     spawn (TkCloseSent code) (control_send (encode_conn_close code) (opened \<and> ok) (finish_task (TkClose code) c))"

definition close_finish :: "ErrorCode \<Rightarrow> (string + unit) \<Rightarrow> WebrtcConn \<Rightarrow> (Error + unit) \<times> WebrtcConn" where
  "close_finish code closed c =
     (case closed of Inl e \<Rightarrow> Inl (ErrTransport e) | Inr _ \<Rightarrow> Inr (),
      pc_close (mark (if code \<noteq> EcNone then Some \<lparr>se_code = code, se_remote = False\<rparr> else None)
        (finish_task (TkCloseSent code) c)))"

definition conn_closed :: "WebrtcConn \<Rightarrow> unit poll" where
  "conn_closed c = (if cs_closed c then Ready () else Pending)"

definition conn_error :: "WebrtcConn \<Rightarrow> Error option" where
  "conn_error c = (if \<not> cs_closed c then None else map_option ErrStream (cs_err c))"

definition remote_addr :: "WebrtcConn \<Rightarrow> SocketAddr" where
  "remote_addr c = remote c"

definition send_datagram :: "bytes \<Rightarrow> dc_state \<Rightarrow> (string + unit) \<Rightarrow> Error + unit" where
  "send_datagram p ready sent =
     (if length p > WEBRTC_MAX_DATAGRAM then Inl (ErrDatagramTooLarge WEBRTC_MAX_DATAGRAM)
      else if ready \<noteq> DcOpen then Inl (ErrTransport ''datagram channel not open'')
      else case sent of
             Inl e \<Rightarrow> Inl (ErrTransport (''send datagram: '' @ e))
           | Inr _ \<Rightarrow> Inr ())"

text \<open>The \<open>on_message\<close> callback of the datagram channel: \<open>try_send\<close> on a queue of 256.\<close>

definition on_datagram :: "bytes \<Rightarrow> WebrtcConn \<Rightarrow> WebrtcConn" where
  "on_datagram p c = (if length (dg_rx c) < 256 then c\<lparr>dg_rx := dg_rx c @ [p]\<rparr> else c)"

definition receive_datagram :: "bool \<Rightarrow> WebrtcConn \<Rightarrow> (Error + bytes) poll \<times> WebrtcConn" where
  "receive_datagram data_first c =
     (case dg_rx c of
        [] \<Rightarrow> (if cs_closed c then Ready (Inl ErrConnClosed) else Pending, c)
      | p # rest \<Rightarrow>
          if cs_closed c \<and> \<not> data_first then (Ready (Inl ErrConnClosed), c)
          else (Ready (Inr p), c\<lparr>dg_rx := rest\<rparr>))"

end
