(* ===== verification/KpsLinkInv.thy ===== *)
theory KpsLinkInv
  imports KpsStreamRead
begin

text \<open>
  What each end of a stream promises the other about credit. The sending half never has more
  payload on the wire than the credit it has seen (\<open>sender_ok\<close>); the receiving half never
  advertises more than it enforces, and has counted exactly what arrived (\<open>receiver_ok\<close>).
\<close>

section \<open>Credit seen on the wire\<close>

definition advert_of :: "bytes \<Rightarrow> nat" where
  "advert_of fr = (case parse_frame fr of Inr (PfMaxStreamData v) \<Rightarrow> unat v | _ \<Rightarrow> 0)"

fun max_advert :: "bytes list \<Rightarrow> nat" where
  "max_advert [] = 0"
| "max_advert (fr # frs) = max (advert_of fr) (max_advert frs)"

lemma max_advert_append [simp]: "max_advert (xs @ ys) = max (max_advert xs) (max_advert ys)"
  by (induction xs) (auto simp: max.assoc)

lemma max_advert_le: "max_advert frs \<le> n \<longleftrightarrow> (\<forall>fr\<in>set frs. advert_of fr \<le> n)"
  by (induction frs) auto

lemma max_advert_prefix: "max_advert (take k frs) \<le> max_advert frs"
  by (metis append_take_drop_id max.cobounded1 max_advert_append)

lemma advert_of_simps [simp]:
  "v \<le> MAX_OFFSET \<Longrightarrow> advert_of (encode_max_stream_data v) = unat v"
  "advert_of encode_fin = 0" "advert_of (encode_code FtReset c) = 0"
  "advert_of (encode_code FtStopSending c) = 0"
  using frame.dec_enc [of "PfMaxStreamData v"] frame.dec_enc [of PfFin]
    frame.dec_enc [of "PfReset c"] frame.dec_enc [of "PfStopSending c"]
  by (simp_all add: advert_of_def)

lemma advert_of_data [simp]: "advert_of (encode_data p) = 0"
  by (auto simp: advert_of_def parse_frame_def encode_data_def)

definition credit_seen :: "WebrtcStream \<Rightarrow> nat" where
  "credit_seen s = max (unat (peer_init_stream_data (sh_flow s))) (max_advert (arrived s))"

section \<open>The sending half\<close>

text \<open>Every frame of the writer's queues parses.\<close>

lemma entry_parses: "entry_ok (fr, r) \<Longrightarrow> \<exists>f. parse_frame fr = Inr f"
  using frame.dec_enc [of "PfData p" for p] frame.dec_enc [of PfFin]
  by (auto elim!: entry_cases simp: Suc_le_eq)

lemma life_parses: "life_ok m \<Longrightarrow> \<exists>f. parse_frame m = Inr f"
proof -
  have "parse_frame (encode_code FtReset c) = Inr (PfReset c)"
    "parse_frame (encode_code FtStopSending c) = Inr (PfStopSending c)" for c
    using frame.dec_enc [of "PfReset c"] frame.dec_enc [of "PfStopSending c"] by simp_all
  moreover have "v \<le> MAX_OFFSET \<Longrightarrow> parse_frame (encode_max_stream_data v) = Inr (PfMaxStreamData v)" for v
    using frame.dec_enc [of "PfMaxStreamData v"] by simp
  ultimately show "life_ok m \<Longrightarrow> \<exists>f. parse_frame m = Inr f" by (auto simp: life_ok_def)
qed

definition snd_rec :: "ConnFlow \<Rightarrow> u64 \<Rightarrow> (nat \<times> nat) option" where
  "snd_rec f i = map_option (\<lambda>t. (unat (send_sent t), unat (peer_max_explicit t))) (streams f i)"

text \<open>Bytes the transport has but the engine still counts as reserved.\<close>

definition sent_credit :: "WebrtcStream \<Rightarrow> nat" where
  "sent_credit s = (case writer_at s of WrData fr r True \<Rightarrow> unat r | _ \<Rightarrow> 0)"

definition wired :: "WebrtcStream \<Rightarrow> nat" where
  "wired s = length (data_of (wire_out s))"

definition sender_ok :: "WebrtcStream \<Rightarrow> bool" where
  "sender_ok s \<longleftrightarrow>
     wired s \<le> credit_seen s
     \<and> list_all (\<lambda>fr. \<exists>f. parse_frame fr = Inr f) (wire_out s)
     \<and> (local_terminal_sent s \<longrightarrow> list_ex is_terminal (wire_out s))
     \<and> (\<forall>sent ex. snd_rec (sh_flow s) (sh_id s) = Some (sent, ex) \<longrightarrow>
          wired s = sent + sent_credit s \<and> ex = max_advert (arrived s))"

lemma snd_rec_quiet [simp]:
  "snd_rec (fail_send i f) j = snd_rec f j"
  "snd_rec (mark_cancelled i f) j = snd_rec f j"
  "snd_rec (release i n f) j = snd_rec f j"
  "snd_rec (snd (on_consumed i n f)) j = snd_rec f j"
  "snd_rec (snd (on_data_received i n f)) j = snd_rec f j"
  "snd_rec (snd (poll_reserve w i n f)) j = snd_rec f j"
  "snd_rec (peer_stream_retired f) j = snd_rec f j"
  by (auto simp: snd_rec_def flow_op_defs on_consumed_def consume_conn_def consume_stream_def
      on_data_received_def poll_reserve_def Let_def split: option.splits prod.splits if_splits)

lemma snd_rec_drop [simp]: "snd_rec (drop_stream i f) i = None"
  by (simp add: snd_rec_def drop_stream_def split: option.split)

lemma peer_init_quiet [simp]:
  "peer_init_stream_data (fail_send i f) = peer_init_stream_data f"
  "peer_init_stream_data (mark_cancelled i f) = peer_init_stream_data f"
  "peer_init_stream_data (release i n f) = peer_init_stream_data f"
  "peer_init_stream_data (commit i n f) = peer_init_stream_data f"
  "peer_init_stream_data (snd (on_consumed i n f)) = peer_init_stream_data f"
  "peer_init_stream_data (snd (on_data_received i n f)) = peer_init_stream_data f"
  "peer_init_stream_data (snd (poll_reserve w i n f)) = peer_init_stream_data f"
  "peer_init_stream_data (peer_stream_retired f) = peer_init_stream_data f"
  "peer_init_stream_data (drop_stream i f) = peer_init_stream_data f"
  "peer_init_stream_data (on_peer_max_stream_data i v f) = peer_init_stream_data f"
  by (auto simp: flow_op_defs on_consumed_def consume_conn_def on_data_received_def poll_reserve_def
      Let_def split: option.splits prod.splits if_splits)

lemma snd_rec_commit:
  assumes inv: "flow_inv f" and o: "own f i = Some (r, u, c)" and n: "unat n \<le> r"
  shows "snd_rec (commit i n f) i = map_option (\<lambda>(sent, ex). (sent + unat n, ex)) (snd_rec f i)"
proof -
  from o obtain t where t: "streams f i = Some t" "unat (send_reserved t) = r" "unread t = u" "cancelled t = c"
    by (rule own_Some)
  have s: "send_inv f" using inv by (simp add: flow_inv_def)
  have "unat (send_sent t + n) = unat (send_sent t) + unat n"
    using n t(2) send_inv_stream [OF s t(1)] eff_max_bound [OF s, of t]
    by (intro unat_add_exact) (auto simp: send_stream_ok_def)
  with t(1) show ?thesis by (simp add: snd_rec_def commit_def)
qed

lemma snd_rec_advert:
  "snd_rec (on_peer_max_stream_data i v f) i = map_option (\<lambda>(sent, ex). (sent, max ex (unat v))) (snd_rec f i)"
  by (auto simp: snd_rec_def on_peer_max_stream_data_def word_less_nat_alt max_def split: option.split)

lemma snd_rec_other:
  assumes "op_stream op \<noteq> Some i" and "i \<le> next_id f" and "flow_guard f op"
  shows "snd_rec (flow_step f op) i = snd_rec f i"
    and "peer_init_stream_data f \<le> peer_init_stream_data (flow_step f op)"
proof -
  have "snd_rec (flow_step f op) i = snd_rec f i \<and> peer_init_stream_data f \<le> peer_init_stream_data (flow_step f op)"
  proof (cases op)
    case FlNewStream
    then have "i \<noteq> next_id f + 1"
      using assms(2,3) by (auto simp: word_le_nat_alt word_less_nat_alt nowrap)
    with FlNewStream show ?thesis by (simp add: snd_rec_def new_stream_def Let_def)
  next
    case (FlCommit j n)
    with assms(1) show ?thesis by (auto simp: snd_rec_def commit_def split: option.split)
  next
    case (FlDropStream j)
    with assms(1) show ?thesis by (auto simp: snd_rec_def drop_stream_def split: option.split)
  next
    case (FlPeerMaxStreamData j v)
    with assms(1) show ?thesis by (auto simp: snd_rec_def on_peer_max_stream_data_def split: option.split)
  qed (use assms(3) in \<open>auto simp: snd_rec_def flow_fail_def on_peer_hello_def on_peer_max_data_def
      on_peer_max_streams_def reserve_stream_slot_def commit_stream_slot_def release_stream_slot_def
      peer_stream_opened_def peer_stream_retired_def Let_def\<close>,
      simp_all add: snd_rec_def [symmetric])
  then show "snd_rec (flow_step f op) i = snd_rec f i"
    and "peer_init_stream_data f \<le> peer_init_stream_data (flow_step f op)" by blast+
qed

lemma sender_keep:
  assumes "sender_ok s" and "wire_out t = wire_out s" and "max_advert (arrived t) = max_advert (arrived s)"
    and "sent_credit t = sent_credit s" and "local_terminal_sent t = local_terminal_sent s"
    and "snd_rec (sh_flow t) (sh_id t) = snd_rec (sh_flow s) (sh_id s) \<or> snd_rec (sh_flow t) (sh_id t) = None"
    and "unat (peer_init_stream_data (sh_flow s)) \<le> unat (peer_init_stream_data (sh_flow t))"
  shows "sender_ok t"
proof -
  have "credit_seen s \<le> credit_seen t" using assms(3,7) unfolding credit_seen_def by (intro max.mono) simp_all
  moreover have "wired t = wired s" using assms(2) by (simp add: wired_def)
  ultimately show ?thesis using assms(1-6) by (auto simp: sender_ok_def intro: le_trans)
qed

lemma sent_credit_writer: "writer_at t = writer_at s \<Longrightarrow> sent_credit t = sent_credit s"
  by (simp add: sent_credit_def)

text \<open>Retiring forgets the record and changes nothing else the sender answers for.\<close>

lemma sender_retire [simp]:
  assumes "sender_ok s"
  shows "sender_ok (maybe_retire s)"
  using assms by (intro sender_keep [OF assms]) (simp_all add: sent_credit_def maybe_retire_fields)

lemma sender_flow:
  assumes "sender_ok s" and "snd_rec (g (sh_flow s)) (sh_id s) = snd_rec (sh_flow s) (sh_id s)"
    and "peer_init_stream_data (g (sh_flow s)) = peer_init_stream_data (sh_flow s)"
  shows "sender_ok (on_flow g s)"
  using assms(2,3) by (intro sender_keep [OF assms(1)]) (simp_all add: sent_credit_def)

lemma sender_frame [simp]:
  "sender_ok (s\<lparr>inbuf := x1\<rparr>) = sender_ok s" "sender_ok (s\<lparr>peer_fin := x2\<rparr>) = sender_ok s"
  "sender_ok (s\<lparr>peer_reset := x3\<rparr>) = sender_ok s" "sender_ok (s\<lparr>peer_stop := x4\<rparr>) = sender_ok s"
  "sender_ok (s\<lparr>local_terminal := x5\<rparr>) = sender_ok s" "sender_ok (s\<lparr>read_cancel := x6\<rparr>) = sender_ok s"
  "sender_ok (s\<lparr>drop_data := x7\<rparr>) = sender_ok s" "sender_ok (s\<lparr>dc_open := x8\<rparr>) = sender_ok s"
  "sender_ok (s\<lparr>dc_closed := x9\<rparr>) = sender_ok s" "sender_ok (s\<lparr>read_waker := x10\<rparr>) = sender_ok s"
  "sender_ok (s\<lparr>is_teardown := x11\<rparr>) = sender_ok s" "sender_ok (s\<lparr>open_notified := x12\<rparr>) = sender_ok s"
  "sender_ok (s\<lparr>buf_low_notified := x13\<rparr>) = sender_ok s" "sender_ok (s\<lparr>data_q := x14\<rparr>) = sender_ok s"
  "sender_ok (s\<lparr>pending_grant := x15\<rparr>) = sender_ok s" "sender_ok (s\<lparr>handle_live := x16\<rparr>) = sender_ok s"
  "sender_ok (s\<lparr>close_write_pending := x17\<rparr>) = sender_ok s" "sender_ok (s\<lparr>accepted := x18\<rparr>) = sender_ok s"
  "sender_ok (s\<lparr>delivered := x19\<rparr>) = sender_ok s" "sender_ok (s\<lparr>life_q := x20\<rparr>) = sender_ok s"
  "sender_ok (wake_reader s) = sender_ok s" "sender_ok (fatal_hook m s) = sender_ok s"
  "sender_ok (life_send fr s) = sender_ok s" "sender_ok (mark_closed s) = sender_ok s"
  "sender_ok (shared_consumed n s) = sender_ok s" "sender_ok (discard_consumed n s) = sender_ok s"
  "sender_ok (release_held r s) = sender_ok s"
  "sender_ok (on_flow (fail_send i) s) = sender_ok s" "sender_ok (on_flow (mark_cancelled i) s) = sender_ok s"
  "sender_ok (on_flow (release i n) s) = sender_ok s"
  by (simp_all add: sender_ok_def credit_seen_def wired_def sent_credit_def)

lemma sender_data_received:
  "on_data_received i n (sh_flow s) = (r, f) \<Longrightarrow> sender_ok (s\<lparr>sh_flow := f\<rparr>) = sender_ok s"
  "poll_reserve w i n (sh_flow s) = (r', f) \<Longrightarrow> sender_ok (s\<lparr>sh_flow := f\<rparr>) = sender_ok s"
  using snd_rec_quiet(5) [of i n "sh_flow s" "sh_id s"] peer_init_quiet(6) [of i n "sh_flow s"]
    snd_rec_quiet(6) [of w i n "sh_flow s" "sh_id s"] peer_init_quiet(7) [of w i n "sh_flow s"]
  by (simp_all add: sender_ok_def credit_seen_def wired_def sent_credit_def)

lemma sender_on_frame:
  assumes "sender_ok s" and "\<And>v. parse_frame data \<noteq> Inr (PfMaxStreamData v)"
  shows "sender_ok (on_frame data s)"
  using assms
  by (auto simp: on_frame_def on_data_frame_def on_fin_frame_def on_reset_frame_def on_stop_frame_def
      Let_def sender_data_received split: sum.split ParsedFrame.split prod.split)

lemma sender_arrived:
  assumes "sender_ok s" and "advert_of data = 0"
  shows "sender_ok (s\<lparr>arrived := arrived s @ [data]\<rparr>)"
  by (rule sender_keep [OF assms(1)]) (use assms(2) in \<open>simp_all add: sent_credit_def\<close>)

lemma sender_message:
  assumes "sender_ok s"
  shows "sender_ok (on_message data s)"
proof (cases "\<exists>v. parse_frame data = Inr (PfMaxStreamData v)")
  case False
  then have "sender_ok (on_frame data s)" using sender_on_frame [OF assms] by blast
  moreover have "arrived (on_frame data s) = arrived s"
    by (auto simp: on_frame_def on_data_frame_def on_fin_frame_def on_reset_frame_def on_stop_frame_def
      Let_def split: sum.split ParsedFrame.split prod.split)
  moreover have "advert_of data = 0"
    using False by (auto simp: advert_of_def split: sum.split ParsedFrame.split)
  ultimately show ?thesis using sender_arrived [of "on_frame data s" data] by (simp add: on_message_def)
next
  case True
  then obtain v where v: "parse_frame data = Inr (PfMaxStreamData v)" by blast
  then have "advert_of data = unat v" by (simp add: advert_of_def)
  with v assms show ?thesis
    by (fastforce simp: on_message_def on_frame_def sender_ok_def credit_seen_def wired_def sent_credit_def
        snd_rec_advert)
qed

lemma sender_reading:
  assumes "sender_ok s"
  shows "sender_ok (snd (poll_read w cap s))" and "sender_ok (cancel_read c s)"
    and "sender_ok (reset_write c s)" and "sender_ok (snd (poll_shutdown q ok s))"
    and "sender_ok (snd (close_write_begin s))" and "sender_ok (snd (close_write_finish sent s))"
    and "sender_ok (close_write_abandon s)" and "sender_ok (stream_drop s)"
    and "sender_ok (on_channel_close s)" and "sender_ok (on_open s)" and "sender_ok (snd (poll_write w buf q ok s))"
  using assms
  by (simp_all add: poll_read_def cancel_read_def reset_write_def poll_shutdown_def close_write_begin_def
      close_write_finish_def close_write_abandon_def stream_drop_def on_channel_close_def on_open_def
      poll_write_def write_credit_def write_queue_def give_back_grant_def Let_def sender_data_received
      split: list.split option.split poll.split sum.split prod.split)

lemma sender_env:
  assumes "sender_ok s" and "flow_ok s" and "stream_guard s (SvFlow op)"
  shows "sender_ok (stream_step s (SvFlow op))"
proof -
  have "op_stream op \<noteq> Some (sh_id s)" "sh_id s \<le> next_id (sh_flow s)" "flow_guard (sh_flow s) op"
    using assms(2,3) by (simp_all add: flow_ok_def)
  from snd_rec_other [OF this] show ?thesis
    by (intro sender_keep [OF assms(1)]) (simp_all add: sent_credit_def word_le_nat_alt)
qed

section \<open>The writer task\<close>

lemma sender_writer:
  assumes "sender_ok s"
  shows "writer_at s = WrWaiting \<Longrightarrow> sender_ok (writer_start s)"
    and "writer_at s = WrIdle \<Longrightarrow> sender_ok (writer_select s)" and "sender_ok (writer_buffer n s)"
proof -
  have exit: "sender_ok (writer_exit t)" if "sender_ok t" "sent_credit t = 0" for t
    using that(2) by (intro sender_keep [OF that(1)]) (simp_all add: writer_exit_def sent_credit_def)
  have move: "sender_ok (t\<lparr>writer_at := x\<rparr>)"
    if "sender_ok t" "sent_credit t = 0" "\<And>fr r. x \<noteq> WrData fr r True" for t x
    using that(2,3) by (intro sender_keep [OF that(1)])
      (auto simp: sent_credit_def split: writer.split bool.split)
  show "sender_ok (writer_start s)" if "writer_at s = WrWaiting"
    using assms that exit [of s] move [of s] by (simp add: writer_start_def sent_credit_def split: poll.split sum.split)
  show "sender_ok (writer_select s)" if w: "writer_at s = WrIdle"
    using assms w exit [of s] move [of "s\<lparr>life_q := l\<rparr>" "WrLife m False" for l m]
      move [of "s\<lparr>data_q := l\<rparr>" "WrHold fr r" for l fr r]
    by (simp add: writer_select_def sent_credit_def Let_def split: list.split prod.split)
  show "sender_ok (writer_buffer n s)"
    using assms exit [of "release_held r s" for r] move [of s]
    by (simp add: writer_buffer_def sent_credit_def split: writer.split)
qed

lemma sender_transmit:
  assumes "sender_ok s" and "flow_ok s" and "out_ok s" and "state_ok s" and "stream_guard s SvWriterTransmit"
  shows "sender_ok (writer_transmit s)"
proof -
  note d = out_okD [OF assms(3)]
  consider (data) fr r where "writer_at s = WrData fr r False" | (life) m where "writer_at s = WrLife m False"
    using assms(5) by auto
  then show ?thesis
  proof cases
    case life
    have "life_ok m" using d(4) view_writer(6) [OF life] by simp
    then have "data_payload m = []" by (auto simp: life_ok_def)
    moreover have "\<exists>f. parse_frame m = Inr f" using \<open>life_ok m\<close> by (rule life_parses)
    ultimately show ?thesis using life assms(1)
      by (auto simp: writer_transmit_def sender_ok_def credit_seen_def wired_def sent_credit_def)
  next
    case data
    have w: "held_data s = [(fr, r)]" using view_writer(4) [OF data] by simp
    have e: "entry_ok (fr, r)" using d(3) w by simp
    have len: "length (data_payload fr) = unat r"
      using e by (cases rule: entry_cases) (simp_all add: unat_of_nat_small frame_consts)
    have "\<not> local_terminal_sent s"
      using assms(1) terminals_okD(4) [OF d(6)] w by (auto simp: sender_ok_def)
    then have live: "\<not> retired_fired s" using assms(4) by (auto simp: state_ok_def retire_due_def)
    have inv: "send_inv (sh_flow s)" using assms(2) by (simp add: flow_ok_def flow_inv_def)
    obtain u c where o: "own (sh_flow s) (sh_id s) =
        Some (queued_credit (data_q s) + held_credit s + unat (pending_grant s) + lost_credit s, u, c)"
      using assms(2) live by (auto simp: flow_ok_def)
    obtain t where t: "streams (sh_flow s) (sh_id s) = Some t"
      and res: "unat r \<le> unat (send_reserved t)"
      using data by (rule_tac own_Some [OF o]) (simp add: held_credit_def)
    have "unat (send_sent t) + unat (send_reserved t) \<le> unat (eff_max (sh_flow s) t)"
      using send_inv_stream [OF inv t] by (simp add: send_stream_ok_def)
    moreover have "unat (eff_max (sh_flow s) t) \<le> credit_seen s"
      using assms(1) t by (auto simp: eff_max_def u64_simps sender_ok_def snd_rec_def credit_seen_def)
    moreover have "wired s = unat (send_sent t)"
      using assms(1) t data by (simp add: sender_ok_def snd_rec_def sent_credit_def)
    ultimately have "wired s + unat r \<le> credit_seen s" using res by linarith
    with data assms(1) len entry_parses [OF e] show ?thesis
      by (auto simp: writer_transmit_def sender_ok_def credit_seen_def wired_def sent_credit_def)
  qed
qed

lemma retire_writer: "maybe_retire (s\<lparr>writer_at := x\<rparr>) = (maybe_retire s)\<lparr>writer_at := x\<rparr>"
  by (simp add: maybe_retire_def retired_hook_def on_flow_def Let_def)

lemma mark_writer: "mark_terminal_sent fr (s\<lparr>writer_at := x\<rparr>) = (mark_terminal_sent fr s)\<lparr>writer_at := x\<rparr>"
proof -
  have "s\<lparr>writer_at := x, local_terminal_sent := True\<rparr> = s\<lparr>local_terminal_sent := True, writer_at := x\<rparr>" by simp
  then show ?thesis by (simp only: mark_terminal_sent_def retire_writer split: if_split)  simp
qed

lemma sender_sent:
  assumes "sender_ok s" and "flow_ok s" and "out_ok s" and "stream_guard s (SvWriterSent ok)"
  shows "sender_ok (writer_sent ok s)"
proof (cases ok)
  case False
  have "sender_ok (writer_exit t)" if "sender_ok t" "sent_credit t = 0" for t
    using that(2) by (intro sender_keep [OF that(1)]) (simp_all add: writer_exit_def sent_credit_def)
  with False assms show ?thesis by (auto simp: writer_sent_def sent_credit_def)
next
  case True
  have mark: "sender_ok (mark_terminal_sent fr t)" if "sender_ok t" "is_terminal fr \<longrightarrow> fr \<in> set (wire_out t)" for fr t
  proof -
    have "sender_ok (t\<lparr>local_terminal_sent := True\<rparr>)" if "is_terminal fr"
      using that \<open>sender_ok t\<close> \<open>is_terminal fr \<longrightarrow> fr \<in> set (wire_out t)\<close>
      by (auto simp: sender_ok_def credit_seen_def wired_def sent_credit_def list_ex_iff)
    with \<open>sender_ok t\<close> show ?thesis by (simp add: mark_terminal_sent_def is_terminal_def)
  qed
  have in_wire: "fr \<in> set (wire_out s)" if "sent_frame s = Some fr" for fr
    using out_okD(1) [OF assms(3)] that by simp
  from True assms(4) consider (life) m where "writer_at s = WrLife m True" | (data) fr r where "writer_at s = WrData fr r True"
    by auto
  then show ?thesis
  proof cases
    case life
    then have "sent_frame s = Some m" by (simp add: sent_frame_def)
    then have "sender_ok (mark_terminal_sent m s)" using mark [OF assms(1)] in_wire by blast
    then have "sender_ok (mark_terminal_sent m s\<lparr>writer_at := WrIdle\<rparr>)"
      by (rule sender_keep) (simp_all add: sent_credit_def life)
    with life True show ?thesis by (simp add: writer_sent_def)
  next
    case data
    then have "sent_frame s = Some fr" by (simp add: sent_frame_def)
    then have wire: "fr \<in> set (wire_out s)" by (rule in_wire)
    let ?t = "(if r > 0 then on_flow (commit (sh_id s) r) s else s)\<lparr>writer_at := WrIdle\<rparr>"
    have inv: "flow_inv (sh_flow s)" using assms(2) by (simp add: flow_ok_def)
    have rec: "snd_rec (sh_flow ?t) (sh_id s) = map_option (\<lambda>(sent, ex). (sent + unat r, ex)) (snd_rec (sh_flow s) (sh_id s))"
    proof (cases "own (sh_flow s) (sh_id s)")
      case None
      then have n: "streams (sh_flow s) (sh_id s) = None" by (simp add: own_def)
      then show ?thesis by (simp add: snd_rec_def commit_def)
    next
      case (Some x)
      obtain res u c where x: "x = (res, u, c)" by (cases x)
      have "unat r \<le> res" using assms(2) Some x data by (auto simp: flow_ok_def held_credit_def split: if_splits)
      with snd_rec_commit [OF inv] Some x show ?thesis
        by (cases "r = 0"; cases "snd_rec (sh_flow s) (sh_id s)") (auto simp: word_gt_0)
    qed
    have "sender_ok ?t"
      unfolding sender_ok_def
    proof (intro conjI allI impI)
      have e: "wired ?t = wired s" "credit_seen ?t = credit_seen s" "sh_id ?t = sh_id s" "sent_credit ?t = 0"
        "arrived ?t = arrived s" "wire_out ?t = wire_out s" "local_terminal_sent ?t = local_terminal_sent s"
        by (simp_all add: wired_def credit_seen_def sent_credit_def)
      show "wired ?t \<le> credit_seen ?t" and "list_all (\<lambda>fr. \<exists>f. parse_frame fr = Inr f) (wire_out ?t)"
        and "local_terminal_sent ?t \<Longrightarrow> list_ex is_terminal (wire_out ?t)"
        using assms(1) unfolding e by (simp_all add: sender_ok_def)
      fix sent ex
      assume "snd_rec (sh_flow ?t) (sh_id ?t) = Some (sent, ex)"
      then obtain sent0 where "snd_rec (sh_flow s) (sh_id s) = Some (sent0, ex)" and "sent = sent0 + unat r"
        unfolding e(3) rec by auto
      moreover have "sent_credit s = unat r" using data by (simp add: sent_credit_def)
      ultimately show "wired ?t = sent + sent_credit ?t" and "ex = max_advert (arrived ?t)"
        using assms(1) unfolding e by (simp_all add: sender_ok_def)
    qed
    then have "sender_ok (mark_terminal_sent fr ?t)" using mark wire by simp
    moreover have "mark_terminal_sent fr ?t =
        mark_terminal_sent fr (if r > 0 then on_flow (commit (sh_id s) r) s else s)\<lparr>writer_at := WrIdle\<rparr>"
      by (rule mark_writer)
    ultimately show ?thesis using data True by (simp add: writer_sent_def Let_def)
  qed
qed

lemma sender_step:
  assumes "stream_inv s" and "sender_ok s" and "stream_guard s e"
  shows "sender_ok (stream_step s e)"
proof (cases e)
  case (SvFlow op)
  with assms sender_env show ?thesis by (simp only: stream_inv_def)
next
  case SvWriterTransmit
  with assms show ?thesis by (simp add: sender_transmit stream_inv_def del: stream_guard.simps)
next
  case (SvWriterSent ok)
  with assms show ?thesis by (simp add: sender_sent stream_inv_def del: stream_guard.simps)
qed (use assms in \<open>simp_all add: sender_message sender_reading sender_writer\<close>)

section \<open>The receiving half\<close>

definition rcv_rec :: "ConnFlow \<Rightarrow> u64 \<Rightarrow> (nat \<times> nat) option" where
  "rcv_rec f i = map_option (\<lambda>t. (unat (received t), unat (local_max t))) (streams f i)"

text \<open>The highest limit that the frames sent and those about to be sent advertise.\<close>

definition adverts :: "WebrtcStream \<Rightarrow> nat" where
  "adverts s = max (max_advert (wire_out s)) (max_advert (pending_life s))"

definition receiver_ok :: "WebrtcStream \<Rightarrow> bool" where
  "receiver_ok s \<longleftrightarrow>
     (\<forall>rc lm. rcv_rec (sh_flow s) (sh_id s) = Some (rc, lm) \<longrightarrow>
        unat (max_stream_data (local_limits (sh_flow s))) \<le> lm \<and> adverts s \<le> lm
        \<and> (writer_at s \<noteq> WrDone \<longrightarrow> lm \<le> max (unat (max_stream_data (local_limits (sh_flow s)))) (adverts s))
        \<and> (fatal_calls s = [] \<longrightarrow> rc = length (data_of (arrived s))))"

lemma rcv_rec_quiet [simp]:
  "rcv_rec (fail_send i f) j = rcv_rec f j"
  "rcv_rec (mark_cancelled i f) j = rcv_rec f j"
  "rcv_rec (release i n f) j = rcv_rec f j"
  "rcv_rec (commit i n f) j = rcv_rec f j"
  "rcv_rec (on_peer_max_stream_data i v f) j = rcv_rec f j"
  "rcv_rec (snd (poll_reserve w i n f)) j = rcv_rec f j"
  "rcv_rec (peer_stream_retired f) j = rcv_rec f j"
  by (auto simp: rcv_rec_def flow_op_defs poll_reserve_def Let_def split: option.splits prod.splits if_splits)

lemma rcv_rec_drop [simp]: "rcv_rec (drop_stream i f) i = None"
  by (simp add: rcv_rec_def drop_stream_def split: option.split)

lemma local_limits_quiet [simp]:
  "local_limits (fail_send i f) = local_limits f"
  "local_limits (mark_cancelled i f) = local_limits f"
  "local_limits (release i n f) = local_limits f"
  "local_limits (commit i n f) = local_limits f"
  "local_limits (on_peer_max_stream_data i v f) = local_limits f"
  "local_limits (snd (poll_reserve w i n f)) = local_limits f"
  "local_limits (peer_stream_retired f) = local_limits f"
  "local_limits (drop_stream i f) = local_limits f"
  "local_limits (snd (on_consumed i n f)) = local_limits f"
  "local_limits (snd (on_data_received i n f)) = local_limits f"
  by (auto simp: flow_op_defs poll_reserve_def on_consumed_def consume_conn_def on_data_received_def
      Let_def split: option.splits prod.splits if_splits)

lemma local_limits_step: "local_limits (flow_step f op) = local_limits f"
  by (cases op) (simp_all add: flow_fail_def on_peer_hello_def on_peer_max_data_def on_peer_max_streams_def
      new_stream_def reserve_stream_slot_def commit_stream_slot_def release_stream_slot_def
      peer_stream_opened_def Let_def)

lemma rcv_rec_other:
  assumes "op_stream op \<noteq> Some i" and "i \<le> next_id f" and "flow_guard f op"
  shows "rcv_rec (flow_step f op) i = rcv_rec f i"
proof (cases op)
  case FlNewStream
  then have "i \<noteq> next_id f + 1"
    using assms(2,3) by (auto simp: word_le_nat_alt word_less_nat_alt nowrap)
  with FlNewStream show ?thesis by (simp add: rcv_rec_def new_stream_def Let_def)
next
  case (FlDropStream j)
  with assms(1) show ?thesis by (auto simp: rcv_rec_def drop_stream_def split: option.split)
next
  case (FlDataReceived j n)
  with assms(1) show ?thesis by (auto simp: rcv_rec_def on_data_received_def split: option.split)
next
  case (FlConsumed j n)
  with assms(1) show ?thesis
    by (auto simp: rcv_rec_def on_consumed_def consume_conn_def Let_def split: option.splits prod.splits)
qed (auto simp: rcv_rec_def flow_fail_def on_peer_hello_def on_peer_max_data_def
      on_peer_max_streams_def reserve_stream_slot_def commit_stream_slot_def release_stream_slot_def
      peer_stream_opened_def peer_stream_retired_def Let_def,
    simp_all add: rcv_rec_def [symmetric])

text \<open>Consumption may raise the limit, and what it advertises is the limit it now enforces.\<close>

lemma rcv_rec_consumed:
  assumes inv: "flow_inv f" and o: "own f i = Some (r, u, c)" and n: "unat n \<le> u"
    and rec: "rcv_rec f i = Some (rc, lm)" and d: "on_consumed i n f = (adv, f')"
  obtains lm' where "rcv_rec f' i = Some (rc, lm')" and "lm \<le> lm'" and "adv = None \<Longrightarrow> lm' = lm" "\<And>a. adv = Some a \<Longrightarrow> unat a = lm'"
proof -
  from o obtain t where t: "streams f i = Some t" "unat (send_reserved t) = r" "unread t = u" "cancelled t = c"
    by (rule own_Some)
  have ri: "recv_inv f" using inv by (simp add: flow_inv_def)
  have le: "unat (consumed t) + unat n \<le> unat (received t)"
    using n t(3) recv_stream_bounds [OF recv_inv_stream [OF ri t(1)]] by (simp add: unread_def)
  obtain adv' t' where cs: "consume_stream (max_stream_data (local_limits f)) n t = (adv', t')" by fastforce
  have f': "adv = adv'" "f' = consume_conn n (put_stream i t' f)"
    using d t(1) cs by (simp_all add: on_consumed_def)
  have r': "received t' = received t"
    by (rule consume_stream_ok(4) [OF recv_inv_stream [OF ri t(1)] le recv_inv_bounds(5) [OF ri] cs])
  have grow: "local_max t \<le> local_max t'"
    by (rule consume_stream_grows [OF recv_inv_stream [OF ri t(1)] le recv_inv_bounds(5) [OF ri] cs])
  have "rcv_rec f' i = Some (rc, unat (local_max t'))"
    using f' t(1) rec r' by (auto simp: rcv_rec_def consume_conn_def Let_def)
  moreover have "lm \<le> unat (local_max t')" using rec t(1) grow by (auto simp: rcv_rec_def word_le_nat_alt)
  moreover have "adv = None \<Longrightarrow> unat (local_max t') = lm"
    and "\<And>a. adv = Some a \<Longrightarrow> unat a = unat (local_max t')"
    using f'(1) cs t(1) rec by (auto simp: rcv_rec_def consume_stream_def Let_def split: if_splits)
  ultimately show thesis by (rule that)
qed

lemma rcv_rec_data:
  assumes inv: "flow_inv f" and n: "unat n \<le> MAX_FRAME_PAYLOAD"
    and d: "on_data_received i n f = (Inr x, f')" and rec: "rcv_rec f i = Some (rc, lm)"
  shows "rcv_rec f' i = Some (rc + unat n, lm)"
proof -
  have ri: "recv_inv f" using inv by (simp add: flow_inv_def)
  obtain t where t: "streams f i = Some t" and "unat (received t) = rc" "unat (local_max t) = lm"
    using rec by (auto simp: rcv_rec_def)
  with d on_data_received_cases(1,2) [OF ri t n] show ?thesis
    by (auto simp: rcv_rec_def split: if_splits)
qed

lemma receiver_keep:
  assumes "receiver_ok s" and "adverts t \<le> adverts s"
    and "writer_at t \<noteq> WrDone \<Longrightarrow> writer_at s \<noteq> WrDone \<and> adverts t = adverts s"
    and "fatal_calls t = [] \<Longrightarrow> fatal_calls s = [] \<and> data_of (arrived t) = data_of (arrived s)"
    and "rcv_rec (sh_flow t) (sh_id t) = rcv_rec (sh_flow s) (sh_id s) \<or> rcv_rec (sh_flow t) (sh_id t) = None"
    and "local_limits (sh_flow t) = local_limits (sh_flow s)"
  shows "receiver_ok t"
  unfolding receiver_ok_def
proof (intro allI impI)
  let ?init = "unat (max_stream_data (local_limits (sh_flow s)))"
  fix rc lm
  assume t: "rcv_rec (sh_flow t) (sh_id t) = Some (rc, lm)"
  with assms(5) have s: "rcv_rec (sh_flow s) (sh_id s) = Some (rc, lm)" by auto
  with assms(1) have r: "?init \<le> lm" "adverts s \<le> lm"
    "writer_at s \<noteq> WrDone \<longrightarrow> lm \<le> max ?init (adverts s)"
    "fatal_calls s = [] \<longrightarrow> rc = length (data_of (arrived s))" by (simp_all add: receiver_ok_def)
  from r(2) assms(2) have "adverts t \<le> lm" by linarith
  moreover have "writer_at t \<noteq> WrDone \<longrightarrow> lm \<le> max ?init (adverts t)" using r(3) assms(3) by auto
  ultimately show "unat (max_stream_data (local_limits (sh_flow t))) \<le> lm \<and> adverts t \<le> lm
        \<and> (writer_at t \<noteq> WrDone \<longrightarrow> lm \<le> max (unat (max_stream_data (local_limits (sh_flow t)))) (adverts t))
        \<and> (fatal_calls t = [] \<longrightarrow> rc = length (data_of (arrived t)))"
    using r assms(4,6) by simp
qed

lemmas adverts_eval = adverts_def out_view_defs

lemma receiver_frame [simp]:
  "receiver_ok (s\<lparr>inbuf := x1\<rparr>) = receiver_ok s" "receiver_ok (s\<lparr>peer_fin := x2\<rparr>) = receiver_ok s"
  "receiver_ok (s\<lparr>peer_reset := x3\<rparr>) = receiver_ok s" "receiver_ok (s\<lparr>peer_stop := x4\<rparr>) = receiver_ok s"
  "receiver_ok (s\<lparr>local_terminal := x5\<rparr>) = receiver_ok s" "receiver_ok (s\<lparr>read_cancel := x6\<rparr>) = receiver_ok s"
  "receiver_ok (s\<lparr>drop_data := x7\<rparr>) = receiver_ok s" "receiver_ok (s\<lparr>dc_open := x8\<rparr>) = receiver_ok s"
  "receiver_ok (s\<lparr>dc_closed := x9\<rparr>) = receiver_ok s" "receiver_ok (s\<lparr>read_waker := x10\<rparr>) = receiver_ok s"
  "receiver_ok (s\<lparr>is_teardown := x11\<rparr>) = receiver_ok s" "receiver_ok (s\<lparr>open_notified := x12\<rparr>) = receiver_ok s"
  "receiver_ok (s\<lparr>buf_low_notified := x13\<rparr>) = receiver_ok s" "receiver_ok (s\<lparr>data_q := x14\<rparr>) = receiver_ok s"
  "receiver_ok (s\<lparr>pending_grant := x15\<rparr>) = receiver_ok s" "receiver_ok (s\<lparr>handle_live := x16\<rparr>) = receiver_ok s"
  "receiver_ok (s\<lparr>close_write_pending := x17\<rparr>) = receiver_ok s" "receiver_ok (s\<lparr>accepted := x18\<rparr>) = receiver_ok s"
  "receiver_ok (s\<lparr>delivered := x19\<rparr>) = receiver_ok s"
  "receiver_ok (s\<lparr>local_terminal_sent := x20\<rparr>) = receiver_ok s"
  "receiver_ok (wake_reader s) = receiver_ok s" "receiver_ok (mark_closed s) = receiver_ok s"
  "receiver_ok (release_held r s) = receiver_ok s"
  "receiver_ok (on_flow (fail_send i) s) = receiver_ok s" "receiver_ok (on_flow (mark_cancelled i) s) = receiver_ok s"
  "receiver_ok (on_flow (release i n) s) = receiver_ok s" "receiver_ok (on_flow (commit i n) s) = receiver_ok s"
  "receiver_ok (on_flow (on_peer_max_stream_data i v) s) = receiver_ok s"
  by (simp_all add: receiver_ok_def adverts_eval)

lemma receiver_retire [simp]:
  assumes "receiver_ok s"
  shows "receiver_ok (maybe_retire s)"
  by (rule receiver_keep [OF assms]) (simp_all add: maybe_retire_fields adverts_eval)

lemma receiver_fatal [simp]:
  assumes "receiver_ok s"
  shows "receiver_ok (fatal_hook m s)"
  by (rule receiver_keep [OF assms]) (simp_all add: adverts_eval, simp_all add: fatal_hook_def)

lemma receiver_life:
  assumes "receiver_ok s" and "advert_of m = 0"
  shows "receiver_ok (life_send m s)"
  using assms by (auto simp: life_send_def receiver_ok_def adverts_eval)

lemma receiver_consumed:
  assumes "receiver_ok s" and "flow_inv (sh_flow s)"
    and "own (sh_flow s) (sh_id s) = None \<or> (\<exists>r u c. own (sh_flow s) (sh_id s) = Some (r, u, c) \<and> unat n \<le> u)"
  shows "receiver_ok (shared_consumed n s)"
proof (cases "own (sh_flow s) (sh_id s)")
  case None
  then have "streams (sh_flow s) (sh_id s) = None" by (simp add: own_def)
  then show ?thesis
    by (simp add: receiver_ok_def rcv_rec_def on_consumed_def consume_conn_def Let_def)
next
  case (Some x)
  let ?init = "unat (max_stream_data (local_limits (sh_flow s)))"
  obtain adv f where d: "on_consumed (sh_id s) n (sh_flow s) = (adv, f)" by fastforce
  obtain r u c where o: "own (sh_flow s) (sh_id s) = Some (r, u, c)" "unat n \<le> u"
    using assms(3) Some by auto
  then obtain rc lm where rec: "rcv_rec (sh_flow s) (sh_id s) = Some (rc, lm)"
    by (auto simp: own_def rcv_rec_def)
  from rcv_rec_consumed [OF assms(2) o(1,2) rec d] obtain lm' where
    l: "rcv_rec f (sh_id s) = Some (rc, lm')" "lm \<le> lm'" "adv = None \<Longrightarrow> lm' = lm" "\<And>a. adv = Some a \<Longrightarrow> unat a = lm'" by blast
  have lim: "local_limits f = local_limits (sh_flow s)"
    using local_limits_quiet(9) [of "sh_id s" n "sh_flow s"] d by simp
  have cur: "?init \<le> lm" "adverts s \<le> lm" "writer_at s \<noteq> WrDone \<longrightarrow> lm \<le> max ?init (adverts s)"
    "fatal_calls s = [] \<longrightarrow> rc = length (data_of (arrived s))"
    using assms(1) rec by (simp_all add: receiver_ok_def)
  have view: "adverts (s\<lparr>sh_flow := f\<rparr>) = adverts s" by (simp add: adverts_eval)
  show ?thesis
  proof (cases adv)
    case None
    with l cur lim view have "receiver_ok (s\<lparr>sh_flow := f\<rparr>)" by (simp add: receiver_ok_def)
    with None d show ?thesis by (simp add: shared_consumed_def)
  next
    case (Some a)
    have "a \<le> MAX_OFFSET" using adv_in_range [of "sh_id s" n "sh_flow s"] d Some by simp
    then have a: "advert_of (encode_max_stream_data a) = lm'" using l(4) [OF Some] by simp
    show ?thesis
    proof (cases "writer_at s = WrDone")
      case True
      with l cur lim view have "receiver_ok (s\<lparr>sh_flow := f\<rparr>)" by (simp add: receiver_ok_def)
      with Some True d show ?thesis by (simp add: shared_consumed_def life_send_def)
    next
      case False
      let ?t = "s\<lparr>sh_flow := f, life_q := life_q s @ [encode_max_stream_data a]\<rparr>"
      have "adverts ?t = max (adverts s) lm'" using a by (simp add: adverts_eval max.assoc)
      with l cur lim have "receiver_ok ?t" by (simp add: receiver_ok_def)
      with Some False d show ?thesis by (simp add: shared_consumed_def life_send_def)
    qed
  qed
qed

lemma receiver_discard:
  assumes "receiver_ok s" and "flow_inv (sh_flow s)"
    and "own (sh_flow s) (sh_id s) = None \<or> (\<exists>r u c. own (sh_flow s) (sh_id s) = Some (r, u, c) \<and> unat n \<le> u)"
  shows "receiver_ok (discard_consumed n s)"
  using assms(1) receiver_consumed [OF assms] by (simp add: discard_consumed_def)

text \<open>The whole buffer never exceeds the unread bytes the engine counts.\<close>

lemma unread_covers:
  assumes "flow_ok s"
  shows "own (sh_flow s) (sh_id s) = None
     \<or> (\<exists>r u c. own (sh_flow s) (sh_id s) = Some (r, u, c) \<and> unat (of_nat (inbuf_bytes s) :: u64) \<le> u)"
  using assms by (auto simp: flow_ok_def unat_of_nat intro: take_bit_nat_less_eq_self)

lemma receiver_arrived:
  assumes "receiver_ok s" and "data_payload data = [] \<or> fatal_calls s \<noteq> []"
  shows "receiver_ok (s\<lparr>arrived := arrived s @ [data]\<rparr>)"
  using assms by (auto simp: receiver_ok_def adverts_eval)

lemma on_frame_keeps_arrived [simp]: "arrived (on_frame data s) = arrived s"
  by (auto simp: on_frame_def on_data_frame_def on_fin_frame_def on_reset_frame_def on_stop_frame_def
      Let_def split: sum.split ParsedFrame.split prod.split)

lemma receiver_message:
  assumes "receiver_ok s" and "flow_ok s" and "\<not> dc_closed s" and "state_ok s"
  shows "receiver_ok (on_message data s)"
proof (cases "parse_frame data")
  case (Inl m)
  have "receiver_ok (fatal_hook m s)" using assms(1) by simp
  from receiver_arrived [OF this, of data] Inl show ?thesis
    by (simp add: on_message_def on_frame_def fatal_hook_def)
next
  case (Inr f)
  note k = parsed_kind(4) [OF Inr]
  show ?thesis
  proof (cases f)
    case (PfData p)
    have pay: "data_payload data = p" using k PfData by simp
    have len: "unat (of_nat (length p) :: u64) = length p" "length p \<le> MAX_FRAME_PAYLOAD"
      using parsed_frame_ok [OF Inr] PfData by (auto intro!: unat_of_nat_small simp: frame_consts)
    show ?thesis
    proof (cases "peer_terminal s")
      case True
      have "receiver_ok (fatal_hook ''DATA after terminal frame'' s)" using assms(1) by simp
      from receiver_arrived [OF this, of data] True Inr PfData show ?thesis
        by (simp add: on_message_def on_frame_def on_data_frame_def peer_terminal_def Let_def fatal_hook_def)
    next
      case nt: False
      obtain r fl where d: "on_data_received (sh_id s) (of_nat (length p)) (sh_flow s) = (r, fl)" by fastforce
      have inv: "flow_inv (sh_flow s)" using assms(2) by (simp add: flow_ok_def)
      have n: "unat (of_nat (length p) :: u64) \<le> MAX_FRAME_PAYLOAD" using len by simp
      note m = own_data_received [OF inv n d]
      show ?thesis
      proof (cases r)
        case (Inl e)
        with m(3) have "fl = sh_flow s" by simp
        moreover have "receiver_ok (fatal_hook e s)" using assms(1) by simp
        ultimately show ?thesis
          using receiver_arrived [of "fatal_hook e s" data] Inl nt Inr PfData d
          by (simp add: on_message_def on_frame_def on_data_frame_def peer_terminal_def Let_def fatal_hook_def)
      next
        case r: (Inr x)
        have live: "\<not> retired_fired s" using assms(3,4) by (simp add: state_ok_def retire_due_def)
        then obtain q u c where o: "own (sh_flow s) (sh_id s) = Some (q, u, c)" using assms(2) by (simp add: flow_ok_def)
        have o': "own fl (sh_id s) = Some (q, u + length p, c)" using m(2) [OF o] r len by simp
        have lim: "local_limits fl = local_limits (sh_flow s)"
          using local_limits_quiet(10) [of "sh_id s" "of_nat (length p)" "sh_flow s"] d by simp
        have ok: "receiver_ok (s\<lparr>sh_flow := fl, arrived := arrived s @ [data]\<rparr>)"
        proof -
          obtain rc lm where rec: "rcv_rec (sh_flow s) (sh_id s) = Some (rc, lm)"
            using o by (auto simp: own_def rcv_rec_def)
          have "rcv_rec fl (sh_id s) = Some (rc + length p, lm)"
            using rcv_rec_data [OF inv n d [unfolded r] rec] len by simp
          with assms(1) rec lim pay show ?thesis by (auto simp: receiver_ok_def adverts_eval)
        qed
        show ?thesis
        proof (cases "read_cancel s")
          case True
          have "receiver_ok (shared_consumed (of_nat (length p)) (s\<lparr>sh_flow := fl, arrived := arrived s @ [data]\<rparr>))"
            using m(1) o' len by (intro receiver_consumed [OF ok]) simp_all
          moreover have "shared_consumed n (t\<lparr>arrived := a\<rparr>) = (shared_consumed n t)\<lparr>arrived := a\<rparr>" for n t a
            by (simp add: shared_consumed_def life_send_def Let_def split: prod.split option.split)
          ultimately show ?thesis
            using True r nt Inr PfData d
            by (simp add: on_message_def on_frame_def on_data_frame_def peer_terminal_def Let_def)
        next
          case False
          have "receiver_ok ((wake_reader (s\<lparr>sh_flow := fl, inbuf := i\<rparr>))\<lparr>arrived := arrived s @ [data]\<rparr>)" for i
            using ok by (simp add: receiver_ok_def adverts_eval)
          with False r nt Inr PfData d show ?thesis
            by (simp add: on_message_def on_frame_def on_data_frame_def peer_terminal_def Let_def)
        qed
      qed
    qed
  next
    case PfFin
    then have "receiver_ok (on_frame data s)" using assms(1) Inr by (simp add: on_frame_def on_fin_frame_def)
    with receiver_arrived [of "on_frame data s" data] k PfFin show ?thesis
      by (simp add: on_message_def)
  next
    case (PfReset c)
    have "receiver_ok (on_reset_frame c s)"
    proof (cases "peer_terminal s")
      case True
      with assms(1) show ?thesis by (simp add: on_reset_frame_def peer_terminal_def)
    next
      case False
      have "receiver_ok (discard_consumed (of_nat (inbuf_bytes s)) (wake_reader (s\<lparr>peer_reset := e, inbuf := []\<rparr>)))" for e
        using assms(1,2) unread_covers [OF assms(2)] by (intro receiver_discard) (simp_all add: flow_ok_def)
      with False show ?thesis by (simp add: on_reset_frame_def peer_terminal_def Let_def inbuf_bytes_def)
    qed
    then have "receiver_ok (on_frame data s)" using PfReset Inr by (simp add: on_frame_def)
    with receiver_arrived [of "on_frame data s" data] k PfReset show ?thesis
      by (simp add: on_message_def)
  next
    case (PfStopSending c)
    have "receiver_ok (on_stop_frame c s)"
      using assms(1) by (simp add: on_stop_frame_def Let_def receiver_life)
    then have "receiver_ok (on_frame data s)" using PfStopSending Inr by (simp add: on_frame_def)
    with receiver_arrived [of "on_frame data s" data] k PfStopSending show ?thesis
      by (simp add: on_message_def)
  next
    case (PfMaxStreamData v)
    then have "receiver_ok (on_frame data s)" using assms(1) Inr by (simp add: on_frame_def)
    with receiver_arrived [of "on_frame data s" data] k PfMaxStreamData show ?thesis
      by (simp add: on_message_def)
  qed
qed

lemma receiver_read:
  assumes "receiver_ok s" and "flow_ok s"
  shows "receiver_ok (snd (poll_read w cap s))"
proof (cases "inbuf s")
  case Nil
  with assms(1) show ?thesis by (simp add: poll_read_def split: option.split)
next
  case (Cons chunk rest)
  have "receiver_ok (maybe_retire (shared_consumed (of_nat n) (s\<lparr>inbuf := i, delivered := d\<rparr>)))"
    if "n \<le> length chunk" for n i d
  proof -
    have "unat (of_nat n :: u64) \<le> n" by (auto simp: unat_of_nat intro: take_bit_nat_less_eq_self)
    also have "n \<le> inbuf_bytes s" using that Cons by (simp add: inbuf_bytes_def)
    finally have "unat (of_nat n :: u64) \<le> inbuf_bytes s" .
    then have "receiver_ok (shared_consumed (of_nat n) (s\<lparr>inbuf := i, delivered := d\<rparr>))"
      using assms by (intro receiver_consumed) (auto simp: flow_ok_def)
    then show ?thesis by simp
  qed
  with Cons show ?thesis by (simp add: poll_read_def Let_def min_def)
qed

lemma receiver_cancel:
  assumes "receiver_ok s" and "flow_ok s"
  shows "receiver_ok (cancel_read c s)"
proof -
  let ?t = "on_flow (mark_cancelled (sh_id s)) (wake_reader (s\<lparr>read_cancel := True, inbuf := []\<rparr>))"
  have "flow_inv (mark_cancelled (sh_id s) (sh_flow s))"
    using flow_step_inv [of "sh_flow s" "FlMarkCancelled (sh_id s)"] assms(2) by (simp add: flow_ok_def)
  then have "receiver_ok (discard_consumed (of_nat (inbuf_bytes s)) ?t)"
    using assms(1) unread_covers [OF assms(2)] by (intro receiver_discard) auto
  with assms(1) show ?thesis by (simp add: cancel_read_def Let_def receiver_life)
qed

lemma receiver_reserve:
  "poll_reserve w i n (sh_flow s) = (r, f) \<Longrightarrow> receiver_ok (s\<lparr>sh_flow := f\<rparr>) = receiver_ok s"
  using rcv_rec_quiet(6) [of w i n "sh_flow s" "sh_id s"] local_limits_quiet(6) [of w i n "sh_flow s"]
  by (simp add: receiver_ok_def adverts_eval)

lemma receiver_rest:
  assumes "receiver_ok s"
  shows "receiver_ok (reset_write c s)" and "receiver_ok (snd (poll_shutdown q ok s))"
    and "receiver_ok (snd (close_write_begin s))" and "receiver_ok (snd (close_write_finish sent s))"
    and "receiver_ok (close_write_abandon s)" and "receiver_ok (stream_drop s)"
    and "receiver_ok (on_channel_close s)" and "receiver_ok (on_open s)" and "receiver_ok (snd (poll_write w buf q ok s))"
  using assms
  by (simp_all add: reset_write_def poll_shutdown_def close_write_begin_def
      close_write_finish_def close_write_abandon_def stream_drop_def on_channel_close_def on_open_def
      poll_write_def write_credit_def write_queue_def give_back_grant_def Let_def receiver_reserve receiver_life
      split: list.split option.split poll.split sum.split prod.split)

lemma receiver_env:
  assumes "receiver_ok s" and "flow_ok s" and "stream_guard s (SvFlow op)"
  shows "receiver_ok (stream_step s (SvFlow op))"
proof -
  have "op_stream op \<noteq> Some (sh_id s)" "sh_id s \<le> next_id (sh_flow s)" "flow_guard (sh_flow s) op"
    using assms(2,3) by (simp_all add: flow_ok_def)
  from rcv_rec_other [OF this] show ?thesis
    by (intro receiver_keep [OF assms(1)]) (simp_all add: adverts_eval local_limits_step)
qed

lemma receiver_exit:
  assumes "receiver_ok s"
  shows "receiver_ok (writer_exit s)"
  by (rule receiver_keep [OF assms]) (simp_all add: writer_exit_def adverts_eval)

lemma receiver_move:
  assumes "receiver_ok s" and "writer_at s \<noteq> WrDone"
    and "max_advert (pending_life (s\<lparr>writer_at := x, life_q := l\<rparr>)) = max_advert (pending_life s)"
  shows "receiver_ok (s\<lparr>life_q := l, writer_at := x\<rparr>)"
  by (rule receiver_keep [OF assms(1)]) (use assms(2,3) in \<open>simp_all add: adverts_eval\<close>)

lemma receiver_writer:
  assumes "receiver_ok s"
  shows "writer_at s = WrWaiting \<Longrightarrow> receiver_ok (writer_start s)"
    and "writer_at s = WrIdle \<Longrightarrow> receiver_ok (writer_select s)" and "receiver_ok (writer_buffer n s)"
    and "out_ok s \<Longrightarrow> receiver_ok (writer_transmit s)" and "stream_guard s (SvWriterSent ok) \<Longrightarrow> receiver_ok (writer_sent ok s)"
proof -
  note exit = receiver_exit
  have move: "receiver_ok (t\<lparr>writer_at := x\<rparr>)"
    if "receiver_ok t" "\<And>m b. x \<noteq> WrLife m b" "held_life t = []" "writer_at t \<noteq> WrDone" for t x
  proof -
    have "held_life (t\<lparr>writer_at := x\<rparr>) = []" using that(2) by (cases x) (auto simp: held_life_def)
    with that(3,4) show ?thesis
      by (intro receiver_keep [OF that(1)]) (simp_all add: adverts_def pending_life_def)
  qed
  show "receiver_ok (writer_start s)" if "writer_at s = WrWaiting"
    using assms that move [of s WrIdle] exit by (simp add: writer_start_def held_life_def split: poll.split sum.split)
  show "receiver_ok (writer_select s)" if w: "writer_at s = WrIdle"
  proof (cases "life_q s")
    case (Cons m rest)
    have "receiver_ok (s\<lparr>life_q := rest, writer_at := WrLife m False\<rparr>)"
      using Cons w by (intro receiver_move [OF assms]) (simp_all add: adverts_eval)
    with Cons show ?thesis by (simp add: writer_select_def)
  next
    case Nil
    then show ?thesis
      using assms w exit [OF assms] move [of "s\<lparr>data_q := l\<rparr>" "WrHold fr r" for l fr r]
      by (simp add: writer_select_def held_life_def Let_def split: list.split prod.split)
  qed
  show "receiver_ok (writer_buffer n s)"
    using assms exit [of "release_held r s" for r] move [of s "WrData fr r False" for fr r]
    by (simp add: writer_buffer_def held_life_def split: writer.split)
  show "receiver_ok (writer_transmit s)" if o: "out_ok s"
  proof (cases "writer_at s")
    case (WrData fr r b)
    show ?thesis
    proof (cases b)
      case False
      have "entry_ok (fr, r)" using out_okD(3) [OF o] view_writer(4) [of s fr r] WrData False by simp
      then have "advert_of fr = 0" by (cases rule: entry_cases) simp_all
      then have "receiver_ok (s\<lparr>writer_at := WrData fr r True, wire_out := wire_out s @ [fr]\<rparr>)"
        using WrData by (intro receiver_keep [OF assms]) (simp_all add: adverts_eval)
      with WrData False show ?thesis by (simp add: writer_transmit_def)
    qed (use assms WrData in \<open>simp add: writer_transmit_def\<close>)
  next
    case (WrLife m b)
    show ?thesis
    proof (cases b)
      case False
      have "receiver_ok (s\<lparr>writer_at := WrLife m True, wire_out := wire_out s @ [m]\<rparr>)"
        using WrLife False by (intro receiver_keep [OF assms]) (auto simp: adverts_eval)
      with WrLife False show ?thesis by (simp add: writer_transmit_def)
    qed (use assms WrLife in \<open>simp add: writer_transmit_def\<close>)
  qed (use assms in \<open>simp_all add: writer_transmit_def\<close>)
  show "receiver_ok (writer_sent ok s)" if g: "stream_guard s (SvWriterSent ok)"
  proof (cases ok)
    case False
    with g assms show ?thesis by (auto simp: writer_sent_def exit)
  next
    case True
    with g consider (life) m where "writer_at s = WrLife m True" | (data) fr r where "writer_at s = WrData fr r True"
      by auto
    then show ?thesis
    proof cases
      case life
      have "receiver_ok (mark_terminal_sent m s)" using assms by (simp add: mark_terminal_sent_def)
      then have "receiver_ok (mark_terminal_sent m s\<lparr>writer_at := WrIdle\<rparr>)"
        by (rule move) (simp_all add: held_life_def life)
      with life True show ?thesis by (simp add: writer_sent_def)
    next
      case data
      let ?t = "mark_terminal_sent fr (if r > 0 then on_flow (commit (sh_id s) r) s else s)"
      have "receiver_ok ?t" using assms by (simp add: mark_terminal_sent_def)
      then have "receiver_ok (?t\<lparr>writer_at := WrIdle\<rparr>)"
        by (rule move) (simp_all add: held_life_def data)
      with data True show ?thesis by (simp add: writer_sent_def Let_def)
    qed
  qed
qed

lemma receiver_step:
  assumes "stream_inv s" and "receiver_ok s" and "stream_guard s e"
  shows "receiver_ok (stream_step s e)"
proof (cases e)
  case (SvFlow op)
  with assms receiver_env show ?thesis by (simp only: stream_inv_def)
next
  case (SvWriterSent ok)
  with assms receiver_writer(5) show ?thesis by (simp del: stream_guard.simps)
qed (use assms in \<open>simp_all add: receiver_message receiver_rest receiver_read receiver_cancel receiver_writer stream_inv_def\<close>)

section \<open>Both halves of one end\<close>

definition end_inv :: "WebrtcStream \<Rightarrow> bool" where
  "end_inv s \<longleftrightarrow> stream_inv s \<and> sender_ok s \<and> receiver_ok s"

interpretation stream_end: machine stream_step stream_guard end_inv
  by unfold_locales (simp add: end_inv_def stream_step_inv sender_step receiver_step)

lemma end_new_inv:
  assumes "flow_inv f" and "next_id f < 18446744073709551615"
    and "pin \<Longrightarrow> peer_retired_streams f < peer_opened_streams f"
  shows "end_inv (Stream_new pin td op f)"
proof -
  have "sender_ok (Stream_new pin td op f)" and "receiver_ok (Stream_new pin td op f)"
    by (simp_all add: sender_ok_def wired_def snd_rec_def sent_credit_def receiver_ok_def rcv_rec_def
        adverts_eval Stream_new_def new_stream_def StreamState_default_def Let_def)
  with stream_new_inv [OF assms] show ?thesis by (simp add: end_inv_def)
qed

end
