(* ===== verification/KpsStreamView.thy ===== *)
theory KpsStreamView
  imports KpsLinkInv
begin

text \<open>
  What a step of a stream leaves alone at the engine it shares with others. \<open>engine_part\<close> is
  the interface: a view of a stream that depends on the engine, the id and the retirement
  flag, and that none of the engine calls made for that stream changes, but perhaps the
  commit of a sent frame and the receipt of data. Such a view is the same after a step that
  makes neither call; \<open>engine_unsent\<close> and \<open>engine_unreceived\<close> allow one of them, and
  \<open>engine_view\<close> both. The instances of the latter are the limits, the engine's part that
  belongs to others, and the slots held at the peer.
\<close>

locale engine_part =
  fixes V :: "WebrtcStream \<Rightarrow> 'a"
  assumes V_cong: "sh_flow t = sh_flow s \<Longrightarrow> sh_id t = sh_id s \<Longrightarrow> peer_initiated t = peer_initiated s \<Longrightarrow>
      retired_fired t = retired_fired s \<Longrightarrow> V t = V s"
    and V_fail: "V (s\<lparr>sh_flow := fail_send (sh_id s) (sh_flow s)\<rparr>) = V s"
    and V_cancel: "V (s\<lparr>sh_flow := mark_cancelled (sh_id s) (sh_flow s)\<rparr>) = V s"
    and V_release: "V (s\<lparr>sh_flow := release (sh_id s) n (sh_flow s)\<rparr>) = V s"
    and V_advert: "V (s\<lparr>sh_flow := on_peer_max_stream_data (sh_id s) v (sh_flow s)\<rparr>) = V s"
    and V_consumed: "V (s\<lparr>sh_flow := snd (on_consumed (sh_id s) n (sh_flow s))\<rparr>) = V s"
    and V_reserve: "V (s\<lparr>sh_flow := snd (poll_reserve w (sh_id s) n (sh_flow s))\<rparr>) = V s"
    and V_retire: "V (maybe_retire s) = V s"
begin

lemma V_update [simp]:
  "V (s\<lparr>inbuf := x1\<rparr>) = V s" "V (s\<lparr>peer_fin := x2\<rparr>) = V s"
  "V (s\<lparr>peer_reset := x3\<rparr>) = V s" "V (s\<lparr>peer_stop := x4\<rparr>) = V s"
  "V (s\<lparr>local_terminal := x5\<rparr>) = V s" "V (s\<lparr>read_cancel := x6\<rparr>) = V s"
  "V (s\<lparr>drop_data := x7\<rparr>) = V s" "V (s\<lparr>dc_open := x8\<rparr>) = V s"
  "V (s\<lparr>dc_closed := x9\<rparr>) = V s" "V (s\<lparr>read_waker := x10\<rparr>) = V s"
  "V (s\<lparr>is_teardown := x11\<rparr>) = V s" "V (s\<lparr>open_notified := x12\<rparr>) = V s"
  "V (s\<lparr>buf_low_notified := x13\<rparr>) = V s" "V (s\<lparr>data_q := x14\<rparr>) = V s"
  "V (s\<lparr>pending_grant := x15\<rparr>) = V s" "V (s\<lparr>handle_live := x16\<rparr>) = V s"
  "V (s\<lparr>close_write_pending := x17\<rparr>) = V s" "V (s\<lparr>accepted := x18\<rparr>) = V s"
  "V (s\<lparr>delivered := x19\<rparr>) = V s" "V (s\<lparr>life_q := x20\<rparr>) = V s"
  "V (s\<lparr>arrived := x21\<rparr>) = V s" "V (s\<lparr>wire_out := x22\<rparr>) = V s"
  "V (s\<lparr>writer_at := x23\<rparr>) = V s" "V (s\<lparr>lost_credit := x24\<rparr>) = V s"
  "V (s\<lparr>local_terminal_sent := x25\<rparr>) = V s"
  by (rule V_cong; simp)+

lemma V_helper [simp]:
  "V (wake_reader s) = V s" "V (fatal_hook m s) = V s" "V (life_send fr s) = V s" "V (mark_closed s) = V s"
  by (rule V_cong; simp)+

lemma V_engine [simp]:
  "i = sh_id s \<Longrightarrow> V (on_flow (fail_send i) s) = V s" "i = sh_id s \<Longrightarrow> V (on_flow (mark_cancelled i) s) = V s"
  "i = sh_id s \<Longrightarrow> V (on_flow (release i n) s) = V s"
  "i = sh_id s \<Longrightarrow> V (on_flow (on_peer_max_stream_data i v) s) = V s"
  by (simp_all add: on_flow_def V_fail V_cancel V_release V_advert)

lemma V_consume [simp]: "V (shared_consumed n s) = V s" "V (discard_consumed n s) = V s"
proof -
  show "V (shared_consumed n s) = V s"
    using V_consumed [where s = s and n = n]
    by (cases "on_consumed (sh_id s) n (sh_flow s)") (simp add: shared_consumed_def Let_def split: option.split)
  then show "V (discard_consumed n s) = V s" by (simp add: discard_consumed_def)
qed

lemma V_wrap [simp]:
  "V (maybe_retire s) = V s" "V (mark_terminal_sent fr s) = V s" "V (release_held r s) = V s"
  "V (writer_exit s) = V s"
  by (simp_all add: V_retire mark_terminal_sent_def release_held_def writer_exit_def)

lemma V_granted: "poll_reserve w (sh_id s) n (sh_flow s) = (r', f) \<Longrightarrow> V (s\<lparr>sh_flow := f\<rparr>) = V s"
  using V_reserve [where s = s and w = w and n = n] by simp

lemma V_frames [simp]:
  "V (on_fin_frame s) = V s" "V (on_reset_frame code s) = V s" "V (on_stop_frame code s) = V s"
  by (simp_all add: on_fin_frame_def on_reset_frame_def on_stop_frame_def Let_def)

lemma V_step_part:
  assumes "\<And>op. e \<noteq> SvFlow op" and "\<And>data. e \<noteq> SvMessage data" and "e \<noteq> SvWriterSent True"
  shows "V (stream_step s e) = V s"
proof (cases e)
  case (SvFlow op)
  with assms show ?thesis by blast
next
  case (SvMessage data)
  with assms show ?thesis by blast
next
  case (SvWriterStart)
  then show ?thesis by (simp add: writer_start_def split: poll.split sum.split)
next
  case (SvWriterBuffer n)
  then show ?thesis by (simp add: writer_buffer_def split: writer.split)
next
  case (SvWriterSent ok)
  with assms(3) show ?thesis by (simp add: writer_sent_def Let_def split: writer.split)
next
  case SvWriterSelect
  then show ?thesis by (simp add: writer_select_def Let_def split: list.split prod.split)
qed (simp_all add: stream_op_defs poll_write_def write_credit_def write_queue_def give_back_grant_def V_granted
      split: poll.split sum.split list.split writer.split bool.split prod.split option.split)

end

locale engine_unsent = engine_part +
  assumes V_received: "V (s\<lparr>sh_flow := snd (on_data_received (sh_id s) n (sh_flow s))\<rparr>) = V s"
begin

lemma V_arrival: "on_data_received (sh_id s) n (sh_flow s) = (r, f) \<Longrightarrow> V (s\<lparr>sh_flow := f\<rparr>) = V s"
  using V_received [where s = s and n = n] by simp

lemma V_message: "V (stream_step s (SvMessage data)) = V s"
  by (simp add: on_message_def on_frame_def on_data_frame_def V_arrival Let_def
      split: sum.split prod.split ParsedFrame.split)

end

locale engine_unreceived = engine_part +
  assumes V_commit: "V (s\<lparr>sh_flow := commit (sh_id s) n (sh_flow s)\<rparr>) = V s"
begin

lemma V_sent: "V (stream_step s (SvWriterSent ok)) = V s"
proof -
  have "i = sh_id s \<Longrightarrow> V (on_flow (commit i n) s) = V s" for i n by (simp add: on_flow_def V_commit)
  then show ?thesis by (simp add: writer_sent_def Let_def split: writer.split)
qed

end

locale engine_view = engine_unsent V + engine_unreceived V for V :: "WebrtcStream \<Rightarrow> 'a"
begin

lemma V_step: "(\<And>op. e \<noteq> SvFlow op) \<Longrightarrow> V (stream_step s e) = V s"
  using V_step_part [of e s] V_message [of s] V_sent [of s]
  by (cases "(\<exists>data. e = SvMessage data) \<or> e = SvWriterSent True") (auto simp del: stream_step.simps)

end

section \<open>The limits announced and told\<close>

definition limits_of :: "WebrtcStream \<Rightarrow> FlowLimits \<times> u64" where
  "limits_of s = (local_limits (sh_flow s), peer_init_stream_data (sh_flow s))"

interpretation limits: engine_view limits_of
  by unfold_locales (simp_all add: limits_of_def maybe_retire_fields)

section \<open>What belongs to others\<close>

definition rest_of_engine :: "u64 \<Rightarrow> ConnFlow \<Rightarrow> (u64 \<rightharpoonup> StreamState) \<times> u64 list" where
  "rest_of_engine i f =
     ((streams f)(i := None),
      [next_id f, peer_max_data f, peer_max_streams f, streams_opened f, streams_reserved f, peer_opened_streams f])"

lemma rest_of_engine_quiet [simp]:
  "rest_of_engine i (fail_send i f) = rest_of_engine i f"
  "rest_of_engine i (mark_cancelled i f) = rest_of_engine i f"
  "rest_of_engine i (commit i n f) = rest_of_engine i f"
  "rest_of_engine i (release i n f) = rest_of_engine i f"
  "rest_of_engine i (on_peer_max_stream_data i v f) = rest_of_engine i f"
  "rest_of_engine i (snd (on_consumed i n f)) = rest_of_engine i f"
  "rest_of_engine i (snd (on_data_received i n f)) = rest_of_engine i f"
  "rest_of_engine i (snd (poll_reserve w i n f)) = rest_of_engine i f"
  "rest_of_engine i (drop_stream i f) = rest_of_engine i f"
  "rest_of_engine i (peer_stream_retired f) = rest_of_engine i f"
  by (auto simp: rest_of_engine_def flow_op_defs on_consumed_def consume_conn_def on_data_received_def
      poll_reserve_def Let_def split: option.split prod.split)

definition rest_of :: "WebrtcStream \<Rightarrow> (u64 \<rightharpoonup> StreamState) \<times> u64 list" where
  "rest_of s = rest_of_engine (sh_id s) (sh_flow s)"

interpretation rest: engine_view rest_of
  by unfold_locales (simp_all add: rest_of_def maybe_retire_fields)

section \<open>Slots at the peer\<close>

text \<open>A peer-initiated stream holds one slot until it retires, and its retirement returns it.\<close>

definition holds_slot :: "WebrtcStream \<Rightarrow> bool" where
  "holds_slot s \<longleftrightarrow> peer_initiated s \<and> \<not> retired_fired s"

definition slots_of :: "WebrtcStream \<Rightarrow> u64" where
  "slots_of s = peer_retired_streams (sh_flow s) + of_bool (holds_slot s)"

lemma peer_retired_quiet [simp]:
  "peer_retired_streams (fail_send i f) = peer_retired_streams f"
  "peer_retired_streams (mark_cancelled i f) = peer_retired_streams f"
  "peer_retired_streams (commit i n f) = peer_retired_streams f"
  "peer_retired_streams (release i n f) = peer_retired_streams f"
  "peer_retired_streams (on_peer_max_stream_data i v f) = peer_retired_streams f"
  "peer_retired_streams (snd (on_consumed i n f)) = peer_retired_streams f"
  "peer_retired_streams (snd (on_data_received i n f)) = peer_retired_streams f"
  "peer_retired_streams (snd (poll_reserve w i n f)) = peer_retired_streams f"
  "peer_retired_streams (drop_stream i f) = peer_retired_streams f"
  "peer_retired_streams (peer_stream_retired f) = peer_retired_streams f + 1"
  by (auto simp: flow_op_defs on_consumed_def consume_conn_def on_data_received_def
      poll_reserve_def Let_def split: option.split prod.split)

interpretation slots: engine_view slots_of
  by unfold_locales (simp_all add: slots_of_def holds_slot_def maybe_retire_fields)

end
