(* ===== verification/KpsConnStreams.thy ===== *)
theory KpsConnStreams
  imports KpsConn KpsStreamView
begin

text \<open>
  The streams of a connection and the engine they share: the invariant of each stream over
  the common engine (\<open>streams_ok\<close>), and that a step of one stream, a call of the connection on
  the engine, and a new stream keep the invariant of all.
\<close>

section \<open>One stream while others act\<close>

lemma end_inv_teardown [simp]: "end_inv (s\<lparr>is_teardown := td\<rparr>) = end_inv s"
  by (simp add: end_inv_def stream_inv_def flow_ok_def held_credit_def inbuf_bytes_def)

lemma end_rely:
  assumes "end_inv s" and "flow_inv f" and same: "streams f (sh_id s) = streams (sh_flow s) (sh_id s)"
    and "next_id (sh_flow s) \<le> next_id f" and lim: "local_limits f = local_limits (sh_flow s)"
    and init: "peer_init_stream_data (sh_flow s) \<le> peer_init_stream_data f"
    and slot: "holds_slot s \<Longrightarrow> peer_retired_streams f < peer_opened_streams f"
  shows "end_inv (s\<lparr>sh_flow := f\<rparr>)"
proof -
  have own: "own f (sh_id s) = own (sh_flow s) (sh_id s)" and snd: "snd_rec f (sh_id s) = snd_rec (sh_flow s) (sh_id s)"
    and rcv: "rcv_rec f (sh_id s) = rcv_rec (sh_flow s) (sh_id s)"
    using same by (simp_all add: own_def snd_rec_def rcv_rec_def)
  have "state_ok (s\<lparr>sh_flow := f\<rparr>)" and "out_ok (s\<lparr>sh_flow := f\<rparr>)" and "in_ok (s\<lparr>sh_flow := f\<rparr>)"
    using assms(1) by (simp_all add: end_inv_def stream_inv_def)
  moreover have "flow_ok (s\<lparr>sh_flow := f\<rparr>)"
    using assms(1,2,4) own slot
    by (auto simp: end_inv_def stream_inv_def flow_ok_def held_credit_def inbuf_bytes_def holds_slot_def)
  moreover have "sender_ok (s\<lparr>sh_flow := f\<rparr>)"
  proof -
    have "credit_seen s \<le> credit_seen (s\<lparr>sh_flow := f\<rparr>)"
      using init by (simp add: credit_seen_def word_le_nat_alt)
    moreover have "sender_ok s" using assms(1) by (simp add: end_inv_def)
    ultimately show ?thesis using snd by (auto simp: sender_ok_def wired_def sent_credit_def)
  qed
  moreover have "receiver_ok (s\<lparr>sh_flow := f\<rparr>)"
    using assms(1) rcv lim by (simp add: end_inv_def receiver_ok_def adverts_eval)
  ultimately show ?thesis by (simp add: end_inv_def stream_inv_def)
qed

lemma end_rely_at:
  assumes "end_inv (s\<lparr>sh_flow := f\<rparr>)" and "flow_inv g" and "streams g (sh_id s) = streams f (sh_id s)"
    and "next_id g = next_id f" and "local_limits g = local_limits f"
    and "peer_init_stream_data f \<le> peer_init_stream_data g"
    and "holds_slot s \<Longrightarrow> peer_retired_streams g < peer_opened_streams g"
  shows "end_inv (s\<lparr>sh_flow := g\<rparr>)"
  using end_rely [OF assms(1,2)] assms(3-7) by (simp add: holds_slot_def)

section \<open>All streams of a connection\<close>

definition streams_ok :: "ConnFlow \<Rightarrow> (u64 \<rightharpoonup> WebrtcStream) \<Rightarrow> bool" where
  "streams_ok f m \<longleftrightarrow>
     flow_inv f \<and> finite (dom m) \<and> dom (streams f) \<subseteq> dom m
     \<and> (\<forall>i s. m i = Some s \<longrightarrow> sh_id s = i \<and> end_inv (s\<lparr>sh_flow := f\<rparr>))
     \<and> map_total (\<lambda>s. of_bool (holds_slot s)) m + unat (peer_retired_streams f) = unat (peer_opened_streams f)"

lemma streams_okD:
  assumes "streams_ok f m"
  shows "flow_inv f" and "finite (dom m)" and "dom (streams f) \<subseteq> dom m"
    and "m i = Some s \<Longrightarrow> sh_id s = i" and "m i = Some s \<Longrightarrow> end_inv (s\<lparr>sh_flow := f\<rparr>)"
    and "map_total (\<lambda>s. of_bool (holds_slot s)) m + unat (peer_retired_streams f) = unat (peer_opened_streams f)"
  using assms by (simp_all add: streams_ok_def)

lemma streams_ok_id:
  assumes "streams_ok f m" and "m i = Some s"
  shows "i \<le> next_id f"
  using streams_okD(5) [OF assms] streams_okD(4) [OF assms]
  by (simp add: end_inv_def stream_inv_def flow_ok_def)

lemma slot_held:
  assumes "streams_ok f m" and "m i = Some s" and "holds_slot s"
  shows "peer_retired_streams f < peer_opened_streams f"
  using map_total_member [OF streams_okD(2) [OF assms(1)] assms(2), of "\<lambda>s. of_bool (holds_slot s)"]
    streams_okD(6) [OF assms(1)] assms(3)
  by (simp add: word_less_nat_alt)

text \<open>What the connection itself does at the engine: no stream's record is touched.\<close>

lemma streams_ok_engine:
  assumes "streams_ok f m" and "flow_inv g" and "streams g = streams f" and "next_id g = next_id f"
    and "local_limits g = local_limits f" and "peer_init_stream_data f \<le> peer_init_stream_data g"
    and "peer_retired_streams g = peer_retired_streams f" and "peer_opened_streams g = peer_opened_streams f"
  shows "streams_ok g m"
proof -
  have "end_inv (s\<lparr>sh_flow := g\<rparr>)" if "m i = Some s" for i s
    using assms slot_held [OF assms(1) that] by (intro end_rely_at [OF streams_okD(5) [OF assms(1) that]]) simp_all
  with assms show ?thesis by (auto simp: streams_ok_def)
qed

text \<open>A step of one stream.\<close>

lemma rest_of_others:
  assumes "rest_of t = rest_of s" and "sh_id t = sh_id s"
  shows "j \<noteq> sh_id s \<Longrightarrow> streams (sh_flow t) j = streams (sh_flow s) j"
    and "next_id (sh_flow t) = next_id (sh_flow s)" and "streams_reserved (sh_flow t) = streams_reserved (sh_flow s)"
    and "streams_opened (sh_flow t) = streams_opened (sh_flow s)"
    and "peer_opened_streams (sh_flow t) = peer_opened_streams (sh_flow s)"
    and "peer_max_data (sh_flow t) = peer_max_data (sh_flow s)"
    and "peer_max_streams (sh_flow t) = peer_max_streams (sh_flow s)"
proof -
  have "((streams (sh_flow t))(sh_id s := None)) j = ((streams (sh_flow s))(sh_id s := None)) j"
    using assms by (simp add: rest_of_def rest_of_engine_def)
  then show "j \<noteq> sh_id s \<Longrightarrow> streams (sh_flow t) j = streams (sh_flow s) j" by simp
qed (use assms in \<open>simp_all add: rest_of_def rest_of_engine_def\<close>)

lemma step_same_id [simp]:
  "sh_id (stream_step s e) = sh_id s" "peer_initiated (stream_step s e) = peer_initiated s"
  by (cases e; simp add: stream_op_defs poll_write_def write_credit_def write_queue_def give_back_grant_def
      split: poll.split sum.split list.split writer.split bool.split prod.split option.split ParsedFrame.split)+

lemma streams_ok_step:
  assumes ok: "streams_ok f m" and i: "m i = Some s" and g: "stream_guard (s\<lparr>sh_flow := f, is_teardown := td\<rparr>) e"
    and own: "\<And>op. e \<noteq> SvFlow op"
  defines "t \<equiv> stream_step (s\<lparr>sh_flow := f, is_teardown := td\<rparr>) e"
  shows "streams_ok (sh_flow t) (m(i \<mapsto> t))" and "sh_id t = i"
proof -
  let ?s = "s\<lparr>sh_flow := f, is_teardown := td\<rparr>"
  have id: "sh_id s = i" using streams_okD(4) [OF ok i] .
  then show tid: "sh_id t = i" by (simp add: t_def)
  have "end_inv (s\<lparr>sh_flow := f\<rparr>)" using streams_okD(5) [OF ok i] .
  then have "end_inv ((s\<lparr>sh_flow := f\<rparr>)\<lparr>is_teardown := td\<rparr>)" by simp
  then have s: "end_inv ?s" by simp
  then have t: "end_inv t" using g unfolding t_def by (rule stream_end.step_inv)
  have rest: "rest_of t = rest_of ?s" and lim: "limits_of t = limits_of ?s" and slots: "slots_of t = slots_of ?s"
    using own unfolding t_def by (intro rest.V_step limits.V_step slots.V_step; blast)+
  note r = rest_of_others [OF rest, simplified, unfolded tid id, OF refl]
  have fl: "flow_inv (sh_flow t)" using t by (simp add: end_inv_def stream_inv_def flow_ok_def)
  have count: "unat (peer_retired_streams (sh_flow t)) + of_bool (holds_slot t)
      = unat (peer_retired_streams f) + of_bool (holds_slot s)"
  proof -
    have b: "unat (peer_retired_streams f) < 18446744073709551615" "unat (peer_retired_streams (sh_flow t)) < 18446744073709551615"
      using count_inv_peer_bounds [of f] count_inv_peer_bounds [of "sh_flow t"] streams_okD(1) [OF ok] fl
      by (auto simp: flow_inv_def)
    have "holds_slot ?s = holds_slot s" by (simp add: holds_slot_def)
    then have "peer_retired_streams (sh_flow t) + of_bool (holds_slot t) = peer_retired_streams f + of_bool (holds_slot s)"
      using slots by (simp add: slots_of_def)
    moreover have "unat (peer_retired_streams g + of_bool P) = unat (peer_retired_streams g) + of_bool P"
      if "unat (peer_retired_streams g) < 18446744073709551615" for g P
      using that by (cases P) (simp_all add: nowrap)
    ultimately show ?thesis using b by metis
  qed
  have total: "map_total (\<lambda>s. of_bool (holds_slot s)) (m(i \<mapsto> t)) + of_bool (holds_slot s)
      = map_total (\<lambda>s. of_bool (holds_slot s)) m + of_bool (holds_slot t)"
    using map_total_update [OF streams_okD(2) [OF ok] i, of "\<lambda>s. of_bool (holds_slot s) :: nat" t] .
  have sum: "map_total (\<lambda>s. of_bool (holds_slot s)) (m(i \<mapsto> t)) + unat (peer_retired_streams (sh_flow t))
      = unat (peer_opened_streams (sh_flow t))"
    using total count streams_okD(6) [OF ok] r(5) by simp
  have others: "end_inv (u\<lparr>sh_flow := sh_flow t\<rparr>)" if "m j = Some u" and "j \<noteq> i" for j u
  proof -
    have u: "sh_id u = j" and eu: "end_inv (u\<lparr>sh_flow := f\<rparr>)" using streams_okD(4,5) [OF ok that(1)] by blast+
    have "holds_slot u \<Longrightarrow> peer_retired_streams (sh_flow t) < peer_opened_streams (sh_flow t)"
      using map_total_member [of "m(i \<mapsto> t)" j u "\<lambda>s. of_bool (holds_slot s) :: nat"] that streams_okD(2) [OF ok] sum
      by (simp add: word_less_nat_alt)
    then show ?thesis
      using that u r(1,2) lim fl by (intro end_rely_at [OF eu]) (simp_all add: limits_of_def)
  qed
  have dom: "dom (streams (sh_flow t)) \<subseteq> dom (m(i \<mapsto> t))"
  proof
    fix j assume "j \<in> dom (streams (sh_flow t))"
    show "j \<in> dom (m(i \<mapsto> t))"
    proof (cases "j = i")
      case False
      with \<open>j \<in> dom (streams (sh_flow t))\<close> r(1) [of j] have "j \<in> dom (streams f)" by (auto simp: dom_def)
      with streams_okD(3) [OF ok] show ?thesis by auto
    qed simp
  qed
  show "streams_ok (sh_flow t) (m(i \<mapsto> t))"
    using fl streams_okD(2) [OF ok] dom tid t others sum streams_okD(4) [OF ok]
    by (auto simp: streams_ok_def)
qed

section \<open>A new stream\<close>

lemma stream_new_fields [simp]:
  "sh_id (Stream_new pin td op f) = next_id f + 1" "peer_initiated (Stream_new pin td op f) = pin"
  "retired_fired (Stream_new pin td op f) = False" "sh_flow (Stream_new pin td op f) = snd (new_stream f)"
  "handle_live (Stream_new pin td op f)" "\<not> close_write_pending (Stream_new pin td op f)"
  "fatal_calls (Stream_new pin td op f) = []"
  by (simp_all add: Stream_new_def new_stream_def Let_def)

lemma new_stream_engine [simp]:
  "next_id (snd (new_stream f)) = next_id f + 1" "local_limits (snd (new_stream f)) = local_limits f"
  "peer_init_stream_data (snd (new_stream f)) = peer_init_stream_data f"
  "peer_retired_streams (snd (new_stream f)) = peer_retired_streams f"
  "peer_opened_streams (snd (new_stream f)) = peer_opened_streams f"
  "streams_reserved (snd (new_stream f)) = streams_reserved f"
  "peer_max_data (snd (new_stream f)) = peer_max_data f"
  "peer_max_streams (snd (new_stream f)) = peer_max_streams f"
  "j \<noteq> next_id f + 1 \<Longrightarrow> streams (snd (new_stream f)) j = streams f j"
  by (simp_all add: new_stream_def Let_def)

lemma new_id_fresh:
  assumes "streams_ok f m" and "next_id g = next_id f" and "next_id g < 18446744073709551615"
  shows "m (next_id g + 1) = None"
proof (rule ccontr)
  assume "m (next_id g + 1) \<noteq> None"
  then obtain s where "m (next_id g + 1) = Some s" by blast
  from streams_ok_id [OF assms(1) this] assms(2,3) show False
    by (simp add: word_le_nat_alt word_less_nat_alt nowrap)
qed

text \<open>\<open>g\<close> is the engine when the stream is made: a peer's stream was counted there already.\<close>

lemma streams_ok_new:
  fixes pin td op :: bool
  assumes ok: "streams_ok f m" and inv: "flow_inv g" and same: "streams g = streams f" "next_id g = next_id f"
    "local_limits g = local_limits f" "peer_init_stream_data g = peer_init_stream_data f"
    "peer_retired_streams g = peer_retired_streams f"
    and opened: "unat (peer_opened_streams g) = unat (peer_opened_streams f) + of_bool pin"
    and room: "next_id g < 18446744073709551615"
  defines "t \<equiv> Stream_new pin td op g"
  shows "streams_ok (sh_flow t) (m(sh_id t \<mapsto> t))"
proof -
  let ?h = "snd (new_stream g)"
  have free: "m (next_id g + 1) = None" using new_id_fresh [OF ok same(2) room] .
  have slot: "pin \<Longrightarrow> peer_retired_streams g < peer_opened_streams g"
    using streams_okD(6) [OF ok] opened same(5) by (simp add: word_less_nat_alt)
  have t: "end_inv t" unfolding t_def using inv room slot by (rule end_new_inv)
  then have hi: "flow_inv ?h" by (simp add: end_inv_def stream_inv_def flow_ok_def t_def)
  have eta: "end_inv (t\<lparr>sh_flow := ?h\<rparr>)"
  proof -
    have "t\<lparr>sh_flow := ?h\<rparr> = t" by (simp add: t_def)
    with t show ?thesis by metis
  qed
  have others: "end_inv (u\<lparr>sh_flow := ?h\<rparr>)" if "m j = Some u" for j u
  proof (rule end_rely [where s = "u\<lparr>sh_flow := f\<rparr>" and f = ?h, simplified])
    have j: "sh_id u = j" "j \<noteq> next_id g + 1" using streams_okD(4) [OF ok that] free that by auto
    show "end_inv (u\<lparr>sh_flow := f\<rparr>)" using streams_okD(5) [OF ok that] .
    show "flow_inv ?h" by (rule hi)
    show "streams ?h (sh_id u) = streams f (sh_id u)" using j same(1) by simp
    show "next_id f \<le> next_id g + 1"
      using same(2) room by (simp add: word_le_nat_alt word_less_nat_alt nowrap)
    show "local_limits g = local_limits f" and "peer_init_stream_data f \<le> peer_init_stream_data g"
      using same by simp_all
    show "peer_retired_streams g < peer_opened_streams g" if "holds_slot (u\<lparr>sh_flow := f\<rparr>)"
    proof -
      have "holds_slot u" using that by (simp add: holds_slot_def)
      with slot_held [OF ok \<open>m j = Some u\<close>] same(5) opened show ?thesis by (simp add: word_less_nat_alt)
    qed
  qed
  have "dom (streams ?h) \<subseteq> dom (m(next_id g + 1 \<mapsto> t))"
    using streams_okD(3) [OF ok] same(1) by (auto simp: new_stream_def Let_def split: if_splits)
  moreover have "map_total (\<lambda>s. of_bool (holds_slot s)) (m(next_id g + 1 \<mapsto> t)) = of_bool pin + map_total (\<lambda>s. of_bool (holds_slot s)) m"
    using map_total_insert [OF streams_okD(2) [OF ok] free, of "\<lambda>s. of_bool (holds_slot s) :: nat" t]
    by (simp add: holds_slot_def t_def)
  ultimately show ?thesis
    using hi eta others streams_okD(2,4,6) [OF ok] same(5) opened
    by (auto simp: streams_ok_def t_def)
qed

end
