(* ===== verification/KpsConnInv.thy ===== *)
theory KpsConnInv
  imports KpsConnStreams "HOL-Library.Multiset"
begin

text \<open>
  The connection as a machine and its invariant: the streams over the shared engine
  (\<open>streams_ok\<close>), the HELLO exchange (\<open>hello_ok\<close>), the slots that \<open>open_stream\<close> holds
  (\<open>slots_ok\<close>), that nothing is surfaced before establishment (\<open>gate_ok\<close>), and that every
  stream is in one place (\<open>places_ok\<close>).
\<close>

section \<open>The connection as a machine\<close>

datatype conn_ev =
    CvControlOpen
  | CvHelloSent bool
  | CvControl bytes
  | CvReservedLost string pc_state
  | CvFatalSend ErrorCode dc_state bool
  | CvFatalFinish ErrorCode
  | CvUnsupported bool
  | CvAdvert dc_state bool
  | CvMark "StreamError option"
  | CvWatch watch_branch
  | CvIncoming dc_state
  | CvSurface u64 bool
  | CvStream u64 stream_ev
  | CvOpen
  | CvOpenEstablished bool
  | CvOpenSlot
  | CvOpenChannel "string + dc_state"
  | CvOpenReady bool u64
  | CvAbandon conn_task
  | CvAccept
  | CvClose ErrorCode
  | CvCloseSend ErrorCode bool bool
  | CvCloseFinish ErrorCode "string + unit"
  | CvDatagram bytes
  | CvReceiveDatagram bool

fun conn_step :: "WebrtcConn \<Rightarrow> conn_ev \<Rightarrow> WebrtcConn" where
  "conn_step c CvControlOpen = send_hello c"
| "conn_step c (CvHelloSent ok) = send_hello_finish ok c"
| "conn_step c (CvControl data) = on_control data c"
| "conn_step c (CvReservedLost which st) = reserved_channel_lost which st c"
| "conn_step c (CvFatalSend code ready ok) = fatal_send code ready ok c"
| "conn_step c (CvFatalFinish code) = fatal_finish code c"
| "conn_step c (CvUnsupported ok) = unsupported_finish ok c"
| "conn_step c (CvAdvert ready ok) = control_writer ready ok c"
| "conn_step c (CvMark err) = mark err c"
| "conn_step c (CvWatch b) = watch_step b c"
| "conn_step c (CvIncoming ready) = handle_incoming ready c"
| "conn_step c (CvSurface i est) = surface i est c"
| "conn_step c (CvStream i e) = stream_event i e c"
| "conn_step c CvOpen = snd (open_begin c)"
| "conn_step c (CvOpenEstablished b) = snd (open_established b c)"
| "conn_step c CvOpenSlot = snd (open_slot c)"
| "conn_step c (CvOpenChannel r) = snd (open_channel r c)"
| "conn_step c (CvOpenReady b i) = snd (open_ready b i c)"
| "conn_step c (CvAbandon t) = call_abandon t c"
| "conn_step c CvAccept = snd (accept_stream c)"
| "conn_step c (CvClose code) = close_begin code c"
| "conn_step c (CvCloseSend code op ok) = send_close_and_flush code op ok c"
| "conn_step c (CvCloseFinish code r) = snd (close_finish code r c)"
| "conn_step c (CvDatagram p) = on_datagram p c"
| "conn_step c (CvReceiveDatagram b) = snd (receive_datagram b c)"

text \<open>The calls of the application on a stream's handle.\<close>

fun app_event :: "stream_ev \<Rightarrow> bool" where
  "app_event (SvRead w cap) = True"
| "app_event (SvWrite w buf q ok) = True"
| "app_event (SvShutdown q ok) = True"
| "app_event SvCloseWrite = True"
| "app_event (SvCloseWriteFinish sent) = True"
| "app_event SvCloseWriteAbandon = True"
| "app_event (SvCancelRead code) = True"
| "app_event (SvResetWrite code) = True"
| "app_event SvDrop = True"
| "app_event _ = False"

fun open_call :: "conn_task \<Rightarrow> bool" where
  "open_call TkOpenWait = True"
| "open_call TkOpenSlot = True"
| "open_call TkOpenChannel = True"
| "open_call (TkOpenReady i) = True"
| "open_call _ = False"

fun close_call :: "conn_task \<Rightarrow> bool" where
  "close_call (TkClose code) = True"
| "close_call (TkCloseSent code) = True"
| "close_call _ = False"

text \<open>
  When each event can happen: a task moves only while it is there, the application uses only
  streams it was handed, stream ids do not run out, and the runtime picks a ready branch.
\<close>

fun conn_guard :: "WebrtcConn \<Rightarrow> conn_ev \<Rightarrow> bool" where
  "conn_guard c (CvHelloSent ok) \<longleftrightarrow> TkHello \<in> set (tasks c)"
| "conn_guard c (CvFatalSend code ready ok) \<longleftrightarrow> TkFatal code \<in> set (tasks c)"
| "conn_guard c (CvFatalFinish code) \<longleftrightarrow> TkFatalSent code \<in> set (tasks c)"
| "conn_guard c (CvUnsupported ok) \<longleftrightarrow> TkUnsupported \<in> set (tasks c)"
| "conn_guard c (CvAdvert ready ok) \<longleftrightarrow> control_writer_live c"
| "conn_guard c (CvWatch b) \<longleftrightarrow> watch_ready c b"
| "conn_guard c (CvIncoming ready) \<longleftrightarrow> next_id (conn_flow c) < 18446744073709551615"
| "conn_guard c (CvSurface i est) \<longleftrightarrow> TkSurface i est \<in> set (tasks c)"
| "conn_guard c (CvStream i e) \<longleftrightarrow>
     (\<exists>s. conn_streams c i = Some s \<and> stream_guard (load c s) e)
     \<and> (\<forall>op. e \<noteq> SvFlow op) \<and> (app_event e \<longrightarrow> i \<in> set (handed_out c))"
| "conn_guard c (CvOpenEstablished b) \<longleftrightarrow> TkOpenWait \<in> set (tasks c)"
| "conn_guard c CvOpenSlot \<longleftrightarrow> TkOpenSlot \<in> set (tasks c)"
| "conn_guard c (CvOpenChannel r) \<longleftrightarrow>
     TkOpenChannel \<in> set (tasks c) \<and> next_id (conn_flow c) < 18446744073709551615"
| "conn_guard c (CvOpenReady b i) \<longleftrightarrow> TkOpenReady i \<in> set (tasks c)"
| "conn_guard c (CvAbandon t) \<longleftrightarrow> t \<in> set (tasks c) \<and> (open_call t \<or> close_call t)"
| "conn_guard c (CvCloseSend code op ok) \<longleftrightarrow> TkClose code \<in> set (tasks c)"
| "conn_guard c (CvCloseFinish code r) \<longleftrightarrow> TkCloseSent code \<in> set (tasks c)"
| "conn_guard c _ \<longleftrightarrow> True"

section \<open>The invariant\<close>

text \<open>
  The limits announced are the defaults; the peer's are zero until its HELLO; establishment
  needs both HELLOs.
\<close>

definition hello_ok :: "bool \<Rightarrow> bool \<Rightarrow> bool \<Rightarrow> ConnFlow \<Rightarrow> bool" where
  "hello_ok est snt rcvd f \<longleftrightarrow>
     local_limits f = DEFAULT_FLOW_LIMITS \<and> (est \<longrightarrow> snt \<and> rcvd)
     \<and> (\<not> rcvd \<longrightarrow> peer_init_stream_data f = 0 \<and> peer_max_data f = 0 \<and> peer_max_streams f = 0)"

text \<open>Every open call that waits for its channel holds a reserved slot.\<close>

definition slots_ok :: "conn_task list \<Rightarrow> ConnFlow \<Rightarrow> bool" where
  "slots_ok ts f \<longleftrightarrow> count_list ts TkOpenChannel \<le> unat (streams_reserved f)"

fun early :: "conn_task \<Rightarrow> bool" where
  "early (TkSurface i est) \<longleftrightarrow> \<not> est"
| "early TkOpenSlot \<longleftrightarrow> False"
| "early TkOpenChannel \<longleftrightarrow> False"
| "early (TkOpenReady i) \<longleftrightarrow> False"
| "early _ \<longleftrightarrow> True"

definition gate_ok :: "bool \<Rightarrow> u64 list \<Rightarrow> u64 list \<Rightarrow> conn_task list \<Rightarrow> bool" where
  "gate_ok est q H ts \<longleftrightarrow> est \<or> (q = [] \<and> H = [] \<and> list_all early ts)"

fun task_id :: "conn_task \<Rightarrow> u64 list" where
  "task_id (TkSurface i est) = [i]"
| "task_id (TkOpenReady i) = [i]"
| "task_id _ = []"

definition task_ids :: "conn_task list \<Rightarrow> u64 list" where
  "task_ids ts = concat (map task_id ts)"

text \<open>A stream that no application holds: its handle is there and no call is in progress.\<close>

definition idle :: "(u64 \<rightharpoonup> WebrtcStream) \<Rightarrow> u64 \<Rightarrow> bool" where
  "idle m i \<longleftrightarrow> (\<exists>s. m i = Some s \<and> handle_live s \<and> \<not> close_write_pending s)"

definition unowned :: "WebrtcConn \<Rightarrow> u64 multiset" where
  "unowned c = mset (inc_queue c) + mset (inc_staged c) + mset (task_ids (tasks c))"

definition places_ok :: "u64 list \<Rightarrow> u64 multiset \<Rightarrow> (u64 \<rightharpoonup> WebrtcStream) \<Rightarrow> bool" where
  "places_ok H U m \<longleftrightarrow>
     (\<forall>i. count (mset H + U) i \<le> 1) \<and> set H \<subseteq> dom m \<and> (\<forall>i\<in>#U. idle m i)"

definition conn_inv :: "WebrtcConn \<Rightarrow> bool" where
  "conn_inv c \<longleftrightarrow>
     streams_ok (conn_flow c) (conn_streams c)
     \<and> hello_ok (established c) (hello_sent c) (hello_received c) (conn_flow c)
     \<and> slots_ok (tasks c) (conn_flow c)
     \<and> gate_ok (established c) (inc_queue c) (handed_out c) (tasks c)
     \<and> places_ok (handed_out c) (unowned c) (conn_streams c)"

section \<open>Lists of tasks\<close>

lemma task_ids_simps [simp]:
  "task_ids [] = []" "task_ids (t # ts) = task_id t @ task_ids ts" "task_ids (ts @ us) = task_ids ts @ task_ids us"
  by (simp_all add: task_ids_def)

lemma task_ids_remove:
  "t \<in> set ts \<Longrightarrow> mset (task_ids ts) = mset (task_id t) + mset (task_ids (remove1 t ts))"
  by (induction ts) (auto simp: ac_simps)

lemma list_all_remove1: "list_all P ts \<Longrightarrow> list_all P (remove1 t ts)"
  by (induction ts) auto

lemma count_list_remove1:
  "count_list (remove1 t ts) u = (if t = u then count_list ts u - 1 else count_list ts u)"
proof (induction ts)
  case (Cons a ts)
  have "t \<in> set ts \<Longrightarrow> count_list ts t \<noteq> 0" by (simp add: count_list_0_iff)
  with Cons show ?case by (cases "t \<in> set ts") (auto simp: count_list_0_iff remove1_idem)
qed simp

lemma count_list_member: "t \<in> set ts \<Longrightarrow> 0 < count_list ts t"
  by (metis count_list_0_iff gr0I)

text \<open>Tasks that hold no stream and no slot, and may run at any time.\<close>

fun plain :: "conn_task \<Rightarrow> bool" where
  "plain (TkSurface i est) = False"
| "plain TkOpenSlot = False"
| "plain TkOpenChannel = False"
| "plain (TkOpenReady i) = False"
| "plain _ = True"

lemma plain_task [simp]:
  assumes "plain t"
  shows "task_id t = []" "early t" "t \<noteq> TkOpenChannel"
  using assms by (cases t; simp)+

section \<open>What the helpers leave alone\<close>

definition conn_view :: "WebrtcConn \<Rightarrow> ConnFlow \<times> (u64 \<rightharpoonup> WebrtcStream) \<times> bool list \<times> u64 list list" where
  "conn_view c = (conn_flow c, conn_streams c, [established c, hello_sent c, hello_received c],
     [handed_out c, inc_queue c, inc_staged c])"

lemma conn_viewD:
  assumes "conn_view d = conn_view c"
  shows "conn_flow d = conn_flow c" "conn_streams d = conn_streams c" "established d = established c"
    "hello_sent d = hello_sent c" "hello_received d = hello_received c" "handed_out d = handed_out c"
    "inc_queue d = inc_queue c" "inc_staged d = inc_staged c"
  using assms by (simp_all add: conn_view_def)

lemma conn_inv_view:
  assumes "conn_inv c" and "conn_view d = conn_view c" and "tasks d = tasks c"
  shows "conn_inv d"
  using assms(1,3) by (simp add: conn_inv_def unowned_def conn_viewD [OF assms(2)])

lemma conn_view_helpers [simp]:
  "conn_view (mark err c) = conn_view c" "conn_view (pc_close c) = conn_view c"
  "conn_view (control_send m ok c) = conn_view c" "conn_view (fatal code msg c) = conn_view c"
  "conn_view (spawn t c) = conn_view c" "conn_view (finish_task t c) = conn_view c"
  "conn_view (c\<lparr>tearing_down := td\<rparr>) = conn_view c" "conn_view (c\<lparr>watcher := w\<rparr>) = conn_view c"
  "conn_view (c\<lparr>dg_rx := dg\<rparr>) = conn_view c" "conn_view (c\<lparr>control_writer_live := b\<rparr>) = conn_view c"
  by (simp_all add: conn_view_def mark_def mark_store_def mark_swap_def pc_close_def control_send_def
      fatal_def spawn_def finish_task_def)

lemma tasks_helpers [simp]:
  "tasks (mark err c) = tasks c" "tasks (pc_close c) = tasks c" "tasks (control_send m ok c) = tasks c"
  "tasks (spawn t c) = tasks c @ [t]" "tasks (finish_task t c) = remove1 t (tasks c)"
  "tasks (fatal code msg c) = (if tearing_down c then tasks c else tasks c @ [TkFatal code])"
  by (simp_all add: mark_def mark_store_def mark_swap_def pc_close_def control_send_def
      fatal_def spawn_def finish_task_def)

lemma conn_inv_quiet:
  "conn_inv c \<Longrightarrow> conn_inv (mark err c)" "conn_inv c \<Longrightarrow> conn_inv (pc_close c)"
  "conn_inv c \<Longrightarrow> conn_inv (control_send m ok c)" "conn_inv c \<Longrightarrow> conn_inv (c\<lparr>tearing_down := td\<rparr>)"
  "conn_inv c \<Longrightarrow> conn_inv (c\<lparr>watcher := w\<rparr>)" "conn_inv c \<Longrightarrow> conn_inv (c\<lparr>dg_rx := dg\<rparr>)"
  "conn_inv c \<Longrightarrow> conn_inv (c\<lparr>control_writer_live := b\<rparr>)"
  by (erule conn_inv_view; simp)+

lemma conn_inv_spawn:
  assumes "conn_inv c" and "plain t"
  shows "conn_inv (spawn t c)"
  using assms
  by (simp add: conn_inv_def unowned_def slots_ok_def gate_ok_def conn_viewD [OF conn_view_helpers(5)])

lemma conn_inv_finish:
  assumes "conn_inv c" and "plain t"
  shows "conn_inv (finish_task t c)"
proof (cases "t \<in> set (tasks c)")
  case True
  then have "mset (task_ids (remove1 t (tasks c))) = mset (task_ids (tasks c))"
    using task_ids_remove [OF True] assms(2) by simp
  moreover have "list_all early (tasks c) \<Longrightarrow> list_all early (remove1 t (tasks c))"
    by (rule list_all_remove1)
  ultimately show ?thesis
    using assms
    by (auto simp: conn_inv_def unowned_def slots_ok_def gate_ok_def count_list_remove1 conn_viewD [OF conn_view_helpers(6)])
next
  case False
  then have "finish_task t c = c" by (simp add: finish_task_def remove1_idem)
  with assms(1) show ?thesis by simp
qed

lemma conn_inv_fatal: "conn_inv c \<Longrightarrow> conn_inv (fatal code msg c)"
  by (auto simp: fatal_def intro!: conn_inv_spawn conn_inv_quiet)

lemma conn_inv_fatals: "conn_inv c \<Longrightarrow> conn_inv (fatals calls c)"
  by (induction calls c rule: fatals.induct) (simp_all add: conn_inv_fatal)

section \<open>HELLO and control messages\<close>

lemma conn_inv_check_and_flush:
  assumes "conn_inv c"
  shows "conn_inv (check_and_flush c)"
proof (cases "fst (hello_check c)")
  case False
  then have "check_and_flush c = c" by (auto simp: check_and_flush_def hello_check_def)
  with assms show ?thesis by simp
next
  case True
  then have "hello_sent c" "hello_received c" "\<not> established c"
    by (auto simp: hello_check_def split: if_splits)
  with assms show ?thesis
    by (auto simp: check_and_flush_def hello_check_def flush_staged_def conn_inv_def hello_ok_def gate_ok_def
        unowned_def ac_simps)
qed

lemma flow_inv_hello:
  assumes "flow_inv f" and "limits_ok l" and "peer_init_stream_data f = 0" "peer_max_data f = 0" "peer_max_streams f = 0"
  shows "flow_inv (on_peer_hello l f)"
  using flow_step_inv [OF assms(1), of "FlPeerHello l"] assms(2-5) by simp

lemma conn_inv_engine:
  assumes "conn_inv c" and "flow_inv (g (conn_flow c))" and "streams (g (conn_flow c)) = streams (conn_flow c)"
    and "next_id (g (conn_flow c)) = next_id (conn_flow c)"
    and "local_limits (g (conn_flow c)) = local_limits (conn_flow c)"
    and "peer_init_stream_data (conn_flow c) \<le> peer_init_stream_data (g (conn_flow c))"
    and "peer_retired_streams (g (conn_flow c)) = peer_retired_streams (conn_flow c)"
    and "peer_opened_streams (g (conn_flow c)) = peer_opened_streams (conn_flow c)"
    and "streams_reserved (conn_flow c) \<le> streams_reserved (g (conn_flow c))"
    and "hello_ok (established c) (hello_sent c) (hello_received c) (g (conn_flow c))"
  shows "conn_inv (on_flow_conn g c)"
  using assms
  by (auto simp: conn_inv_def on_flow_conn_def unowned_def slots_ok_def word_le_nat_alt intro: streams_ok_engine)

lemma conn_inv_flow: "conn_inv c \<Longrightarrow> flow_inv (conn_flow c)"
  by (simp add: conn_inv_def streams_ok_def)

lemma conn_inv_on_hello:
  assumes "conn_inv c" and "limits_ok l"
  shows "conn_inv (on_hello v l c)"
proof (cases "hello_received c")
  case True
  with assms(1) show ?thesis by (simp add: on_hello_def conn_inv_fatal)
next
  case False
  let ?c = "c\<lparr>hello_received := True\<rparr>"
  have z: "peer_init_stream_data (conn_flow c) = 0" "peer_max_data (conn_flow c) = 0"
    "peer_max_streams (conn_flow c) = 0" and e: "\<not> established c"
    and lim: "local_limits (conn_flow c) = DEFAULT_FLOW_LIMITS"
    using assms(1) False by (auto simp: conn_inv_def hello_ok_def)
  have inv: "conn_inv ?c" using assms(1) e by (simp add: conn_inv_def hello_ok_def unowned_def)
  have "conn_inv (on_flow_conn (on_peer_hello l) ?c)"
    using flow_inv_hello [OF conn_inv_flow [OF assms(1)] assms(2) z] z e lim
    by (intro conn_inv_engine [OF inv]) (simp_all add: on_peer_hello_def hello_ok_def)
  with inv False show ?thesis
    by (simp add: on_hello_def conn_inv_spawn conn_inv_check_and_flush Let_def)
qed

lemma decoded_control_ok:
  assumes "decode_control data = Inr m"
  shows "case m of CtlHello v l \<Rightarrow> limits_ok l | CtlMaxData v \<Rightarrow> v \<le> MAX_OFFSET
    | CtlMaxStreams v \<Rightarrow> v \<le> MAX_OFFSET | CtlClose code \<Rightarrow> True"
  using decoded_in_control_grammar [OF assms] by (cases rule: control_grammar.cases) simp_all

lemma conn_inv_control:
  assumes "conn_inv c"
  shows "conn_inv (on_control data c)"
proof (cases "decode_control data")
  case (Inl m)
  with assms show ?thesis by (simp add: on_control_def conn_inv_fatal)
next
  case (Inr m)
  note ok = decoded_control_ok [OF Inr]
  have fl: "flow_inv (conn_flow c)" using assms by (rule conn_inv_flow)
  show ?thesis
  proof (cases m)
    case (CtlClose code)
    with Inr assms show ?thesis by (simp add: on_control_def conn_inv_quiet)
  next
    case (CtlHello v l)
    with Inr ok assms show ?thesis by (simp add: on_control_def conn_inv_on_hello)
  next
    case (CtlMaxData v)
    have "conn_inv (on_flow_conn (on_peer_max_data v) c)" if "hello_received c"
      using that assms flow_step_inv [OF fl, of "FlPeerMaxData v"] ok CtlMaxData
      by (intro conn_inv_engine [OF assms]) (simp_all add: on_peer_max_data_def conn_inv_def hello_ok_def)
    with Inr CtlMaxData assms show ?thesis by (simp add: on_control_def conn_inv_fatal)
  next
    case (CtlMaxStreams v)
    have "conn_inv (on_flow_conn (on_peer_max_streams v) c)" if "hello_received c"
      using that assms flow_step_inv [OF fl, of "FlPeerMaxStreams v"] ok CtlMaxStreams
      by (intro conn_inv_engine [OF assms]) (simp_all add: on_peer_max_streams_def conn_inv_def hello_ok_def)
    with Inr CtlMaxStreams assms show ?thesis by (simp add: on_control_def conn_inv_fatal)
  qed
qed

lemma conn_inv_send_hello:
  assumes "conn_inv c"
  shows "conn_inv (send_hello c)" and "conn_inv (send_hello_finish ok c)"
proof -
  have "conn_inv (c\<lparr>hello_sent := True\<rparr>)" using assms by (simp add: conn_inv_def hello_ok_def unowned_def)
  then show "conn_inv (send_hello c)" using assms by (simp add: send_hello_def conn_inv_spawn)
  show "conn_inv (send_hello_finish ok c)"
    using assms by (simp add: send_hello_finish_def conn_inv_check_and_flush conn_inv_quiet conn_inv_finish)
qed

lemma conn_inv_closing:
  assumes "conn_inv c"
  shows "conn_inv (reserved_channel_lost which st c)" and "conn_inv (fatal_send code ready ok c)"
    and "conn_inv (fatal_finish code c)" and "conn_inv (unsupported_finish ok c)"
    and "conn_inv (close_begin code c)" and "conn_inv (send_close_and_flush code op ok c)" and "conn_inv (snd (close_finish code r c))"
    and "conn_inv (on_datagram p c)" and "conn_inv (snd (receive_datagram b c))"
  using assms
  by (simp_all add: reserved_channel_lost_def fatal_send_def fatal_finish_def unsupported_finish_def close_begin_def
      close_finish_def send_close_and_flush_def on_datagram_def receive_datagram_def conn_inv_quiet conn_inv_fatal
      conn_inv_spawn conn_inv_finish split: list.split)

lemma conn_inv_flow_fail:
  assumes "conn_inv c"
  shows "conn_inv (on_flow_conn (flow_fail err) c)"
  using assms flow_step_inv [OF conn_inv_flow [OF assms], of "FlFail err"]
  by (intro conn_inv_engine [OF assms]) (simp_all add: flow_fail_def conn_inv_def hello_ok_def)

lemma conn_inv_watch: "conn_inv c \<Longrightarrow> conn_inv (watch_step b c)"
  by (simp add: watch_step_def conn_inv_flow_fail conn_inv_quiet conn_inv_fatal split: watch.split watch_branch.split)

lemma flow_inv_advert [simp]: "flow_inv (f\<lparr>advert_tx := x\<rparr>) = flow_inv f"
  by (simp add: flow_inv_def)

lemma conn_inv_control_writer:
  assumes "conn_inv c"
  shows "conn_inv (control_writer ready ok c)"
proof (cases "advert_tx (conn_flow c)")
  case Nil
  with assms show ?thesis by (simp add: control_writer_def)
next
  case (Cons m rest)
  have "conn_inv (on_flow_conn (\<lambda>f. f\<lparr>advert_tx := rest\<rparr>) c)"
    using assms conn_inv_flow [OF assms]
    by (intro conn_inv_engine [OF assms]) (simp_all add: conn_inv_def hello_ok_def)
  with Cons show ?thesis by (simp add: control_writer_def Let_def conn_inv_quiet)
qed

section \<open>Streams in and out\<close>

lemma conn_inv_load:
  assumes "conn_inv c" and "conn_streams c i = Some s"
  shows "sh_id s = i" and "end_inv (load c s)"
proof -
  have "end_inv (s\<lparr>sh_flow := conn_flow c\<rparr>)" and "sh_id s = i"
    using assms by (simp_all add: conn_inv_def streams_ok_def)
  then have "end_inv ((s\<lparr>sh_flow := conn_flow c\<rparr>)\<lparr>is_teardown := tearing_down c \<or> cs_closed c\<rparr>)" by simp
  with \<open>sh_id s = i\<close> show "sh_id s = i" and "end_inv (load c s)" by (simp_all add: load_def)
qed

lemma app_state_step:
  assumes "\<not> app_event e"
  shows "handle_live (stream_step s e) = handle_live s" and "close_write_pending (stream_step s e) = close_write_pending s"
  using assms
  by (cases e; simp add: stream_op_defs
      split: poll.split sum.split list.split writer.split bool.split prod.split option.split ParsedFrame.split)+

lemma places_ok_stream:
  assumes "places_ok H U m" and "m i = Some s" and "i \<in># U \<Longrightarrow> handle_live t \<and> \<not> close_write_pending t"
  shows "places_ok H U (m(i \<mapsto> t))"
  using assms by (auto simp: places_ok_def idle_def)

lemma not_unowned:
  assumes "places_ok H U m" and "i \<in> set H"
  shows "i \<notin># U"
proof -
  have "count (mset H) i + count U i \<le> 1" using assms(1) by (simp add: places_ok_def)
  moreover have "count (mset H) i \<noteq> 0" using assms(2) by simp
  ultimately have "count U i = 0" by linarith
  then show ?thesis by (simp add: not_in_iff)
qed

text \<open>A step of a stream; the stream may be one that nobody holds any more.\<close>

lemma conn_inv_stream_event:
  assumes inv: "conn_inv c" and i: "conn_streams c i = Some s" and g: "stream_guard (load c s) e"
    and own: "\<And>op. e \<noteq> SvFlow op" and app: "app_event e \<Longrightarrow> i \<notin># unowned c"
  shows "conn_inv (stream_event i e c)"
proof -
  define t where "t = stream_step (load c s) e"
  have so: "streams_ok (conn_flow c) (conn_streams c)" using inv by (simp add: conn_inv_def)
  have t: "streams_ok (sh_flow t) ((conn_streams c)(i \<mapsto> t))" "sh_id t = i"
    using streams_ok_step [OF so i g [unfolded load_def] own] by (simp_all add: t_def load_def)
  have rest: "rest_of t = rest_of (load c s)" and lim: "limits_of t = limits_of (load c s)"
    using own unfolding t_def by (intro rest.V_step limits.V_step; blast)+
  have l: "sh_flow (load c s) = conn_flow c" "sh_id t = sh_id (load c s)" by (simp_all add: load_def t_def)
  note r = rest_of_others [OF rest l(2), unfolded l(1)]
  have live: "handle_live t \<and> \<not> close_write_pending t" if "i \<in># unowned c"
  proof -
    have "idle (conn_streams c) i" using inv that by (simp add: conn_inv_def places_ok_def)
    then have "handle_live (load c s)" "\<not> close_write_pending (load c s)" using i by (simp_all add: idle_def load_def)
    moreover have "\<not> app_event e" using app that by blast
    ultimately show ?thesis using app_state_step [of e "load c s"] by (simp add: t_def)
  qed
  have "conn_inv (put_conn_stream t c)"
    using inv t r lim live places_ok_stream [of "handed_out c" "unowned c" "conn_streams c" i s t] i
    by (simp add: conn_inv_def put_conn_stream_def unowned_def hello_ok_def slots_ok_def limits_of_def l(1))
  then show ?thesis using i by (simp add: stream_event_def t_def Let_def conn_inv_fatals)
qed

text \<open>A new stream goes to a task that nobody else knows.\<close>

lemma places_ok_add:
  assumes "places_ok H U m" and "m i = None" and "handle_live t" and "\<not> close_write_pending t"
  shows "places_ok H (add_mset i U) (m(i \<mapsto> t))"
proof -
  have "i \<notin> set H" and "i \<notin># U" using assms(1,2) by (auto simp: places_ok_def idle_def)
  then have "count (mset H + U) i = 0" by (simp add: not_in_iff)
  with assms show ?thesis by (auto simp: places_ok_def idle_def)
qed

lemma handle_incoming_inv:
  assumes inv: "conn_inv c" and room: "next_id (conn_flow c) < 18446744073709551615"
  shows "conn_inv (handle_incoming ready c)"
proof (cases "peer_opened_streams (conn_flow c) \<ge> advertised_max_streams (conn_flow c)")
  case True
  then show ?thesis using inv by (simp add: handle_incoming_def peer_stream_opened_def conn_inv_fatal)
next
  case False
  let ?f = "conn_flow c"
  let ?g = "?f\<lparr>peer_opened_streams := peer_opened_streams ?f + 1\<rparr>"
  let ?t = "Stream_new True (tearing_down c \<or> cs_closed c) (ready = DcOpen) ?g"
  have so: "streams_ok ?f (conn_streams c)" using inv by (simp add: conn_inv_def)
  have g: "snd (peer_stream_opened ?f) = ?g" using False by (simp add: peer_stream_opened_def)
  then have gi: "flow_inv ?g" using flow_step_inv [OF conn_inv_flow [OF inv], of FlPeerOpened] by simp
  have "unat (peer_opened_streams ?f) < unat (advertised_max_streams ?f)" using False by (simp add: word_le_nat_alt)
  then have up: "unat (peer_opened_streams ?f + 1) = unat (peer_opened_streams ?f) + 1"
    using unat_bound [of "advertised_max_streams ?f"] by (simp add: nowrap)
  have "streams_ok (sh_flow ?t) ((conn_streams c)(sh_id ?t \<mapsto> ?t))"
    using gi room up by (intro streams_ok_new [OF so]) simp_all
  moreover have "conn_streams c (next_id ?g + 1) = None"
    using new_id_fresh [OF so, of ?g] room by simp
  ultimately show ?thesis
    using inv False places_ok_add [of "handed_out c" "unowned c" "conn_streams c" "next_id ?g + 1" ?t]
    by (auto simp: handle_incoming_def peer_stream_opened_def new_conn_stream_def put_conn_stream_def spawn_def Let_def
        conn_inv_def unowned_def hello_ok_def slots_ok_def gate_ok_def)
qed

text \<open>A task that holds a stream ends and gives it on.\<close>

lemma task_held:
  assumes "t \<in> set (tasks c)"
  shows "mset (task_ids (tasks c)) = mset (task_id t) + mset (task_ids (remove1 t (tasks c)))"
  by (rule task_ids_remove [OF assms])

lemma conn_inv_surface:
  assumes inv: "conn_inv c" and t: "TkSurface i est \<in> set (tasks c)"
  shows "conn_inv (surface i est c)"
proof -
  have "est \<Longrightarrow> established c"
    using inv t by (auto simp: conn_inv_def gate_ok_def list_all_iff)
  moreover have "list_all early (tasks c) \<Longrightarrow> list_all early (remove1 (TkSurface i est) (tasks c))"
    by (rule list_all_remove1)
  ultimately show ?thesis
    using inv task_held [OF t]
    by (auto simp: surface_def inc_push_def inc_stage_def finish_task_def Let_def conn_inv_def unowned_def
        slots_ok_def gate_ok_def count_list_remove1)
qed

lemma conn_inv_accept:
  assumes "conn_inv c"
  shows "conn_inv (snd (accept_stream c))"
proof (cases "inc_queue c")
  case Nil
  with assms show ?thesis by (simp add: accept_stream_def inc_pop_def)
next
  case (Cons i rest)
  have p: "places_ok (handed_out c) (unowned c) (conn_streams c)" and g: "established c"
    using assms Cons by (auto simp: conn_inv_def gate_ok_def)
  have u: "unowned c = add_mset i (mset rest + mset (inc_staged c) + mset (task_ids (tasks c)))"
    using Cons by (simp add: unowned_def)
  have "places_ok (handed_out c @ [i]) (mset rest + mset (inc_staged c) + mset (task_ids (tasks c))) (conn_streams c)"
    using p unfolding u by (auto simp: places_ok_def idle_def)
  with assms Cons g show ?thesis
    by (simp add: accept_stream_def inc_pop_def hand_out_def conn_inv_def unowned_def gate_ok_def)
qed

section \<open>Opening a stream\<close>

lemma conn_inv_tasks:
  assumes "conn_inv c" and "established c" and "mset (task_ids ts) = mset (task_ids (tasks c))"
    and "count_list ts TkOpenChannel \<le> unat (streams_reserved (conn_flow c))"
  shows "conn_inv (c\<lparr>tasks := ts\<rparr>)"
  using assms by (simp add: conn_inv_def unowned_def slots_ok_def gate_ok_def)

lemma conn_inv_slots: "conn_inv c \<Longrightarrow> count_list (tasks c) TkOpenChannel \<le> unat (streams_reserved (conn_flow c))"
  by (simp add: conn_inv_def slots_ok_def)

lemma conn_inv_late:
  assumes "conn_inv c" and "t \<in> set (tasks c)" and "\<not> early t"
  shows "established c"
  using assms by (auto simp: conn_inv_def gate_ok_def list_all_iff)

lemma conn_inv_open_begin: "conn_inv c \<Longrightarrow> conn_inv (snd (open_begin c))"
  by (simp add: open_begin_def conn_inv_spawn)

lemma conn_inv_open_established:
  assumes "conn_inv c"
  shows "conn_inv (snd (open_established b c))"
proof (cases "wait_established b c")
  case Pending
  with assms show ?thesis by (simp add: open_established_def)
next
  case (Ready r)
  show ?thesis
  proof (cases r)
    case (Inl e)
    with Ready assms show ?thesis by (simp add: open_established_def conn_inv_finish)
  next
    case (Inr u)
    with Ready have "established c" by (auto simp: wait_established_def split: if_splits)
    moreover have "conn_inv (finish_task TkOpenWait c)" using assms by (rule conn_inv_finish) simp
    ultimately have "conn_inv (finish_task TkOpenWait c\<lparr>tasks := tasks (finish_task TkOpenWait c) @ [TkOpenSlot]\<rparr>)"
      using conn_inv_slots [of "finish_task TkOpenWait c"]
      by (intro conn_inv_tasks) (simp_all add: conn_viewD [OF conn_view_helpers(6)])
    with Ready Inr show ?thesis by (simp add: open_established_def spawn_def)
  qed
qed

lemma remove_slotless:
  assumes "t \<in> set ts" and "task_id t = []"
  shows "mset (task_ids (remove1 t ts)) = mset (task_ids ts)"
  using task_ids_remove [OF assms(1)] assms(2) by simp

lemma conn_inv_open_slot:
  assumes inv: "conn_inv c" and t: "TkOpenSlot \<in> set (tasks c)"
  shows "conn_inv (snd (open_slot c))"
proof -
  let ?f = "conn_flow c"
  have est: "established c" using conn_inv_late [OF inv t] by simp
  have fi: "flow_inv ?f" using inv by (rule conn_inv_flow)
  obtain r g where rg: "reserve_stream_slot ?f = (r, g)" by fastforce
  have gi: "flow_inv g" using flow_step_inv [OF fi, of FlReserveSlot] rg by simp
  have up: "unat (streams_reserved ?f) + of_bool (r = Ready (Inr ())) = unat (streams_reserved g)"
  proof (cases "r = Ready (Inr ())")
    case True
    then have "g = ?f\<lparr>streams_reserved := streams_reserved ?f + 1\<rparr>"
      using rg by (auto simp: reserve_stream_slot_def split: if_splits)
    moreover have "unat (streams_reserved ?f) < 18446744073709551615"
      using fi by (auto simp: flow_inv_def count_inv_def u64_simps)
    ultimately show ?thesis using True by (simp add: nowrap)
  qed (use rg in \<open>auto simp: reserve_stream_slot_def split: if_splits\<close>)
  have "conn_inv (on_flow_conn (\<lambda>_. g) c)"
    using rg gi inv up
    by (intro conn_inv_engine [OF inv])
       (auto simp: reserve_stream_slot_def conn_inv_def hello_ok_def word_le_nat_alt split: if_splits)
  then have inv1: "conn_inv (c\<lparr>conn_flow := g\<rparr>)" by (simp add: on_flow_conn_def)
  have fin: "conn_inv (finish_task TkOpenSlot (c\<lparr>conn_flow := g\<rparr>))"
    using conn_inv_tasks [OF inv1, of "remove1 TkOpenSlot (tasks c)"] est remove_slotless [OF t] conn_inv_slots [OF inv1]
    by (simp add: finish_task_def count_list_remove1)
  have sp: "conn_inv (c\<lparr>conn_flow := g, stream_seq := q, tasks := remove1 TkOpenSlot (tasks c) @ [TkOpenChannel]\<rparr>)"
    if "r = Ready (Inr ())" for q
  proof -
    have "conn_inv (c\<lparr>conn_flow := g, stream_seq := q\<rparr>)"
      by (rule conn_inv_view [OF inv1]) (simp_all add: conn_view_def)
    then show ?thesis
      using conn_inv_tasks [of "c\<lparr>conn_flow := g, stream_seq := q\<rparr>" "remove1 TkOpenSlot (tasks c) @ [TkOpenChannel]"]
        est remove_slotless [OF t] conn_inv_slots [OF inv] up that
      by (simp add: count_list_remove1)
  qed
  show ?thesis
    using rg inv1 fin sp
    by (auto simp: open_slot_def spawn_def finish_task_def split: poll.split sum.split)
qed

lemma conn_inv_open_channel:
  assumes inv: "conn_inv c" and t: "TkOpenChannel \<in> set (tasks c)" and room: "next_id (conn_flow c) < 18446744073709551615"
  shows "conn_inv (snd (open_channel r c))"
proof -
  let ?f = "conn_flow c"
  have est: "established c" using conn_inv_late [OF inv t] by simp
  have fi: "flow_inv ?f" using inv by (rule conn_inv_flow)
  have n: "0 < count_list (tasks c) TkOpenChannel" using t by (rule count_list_member)
  then have res: "0 < streams_reserved ?f" using conn_inv_slots [OF inv] by (simp add: word_less_nat_alt)
  have less: "count_list (remove1 TkOpenChannel (tasks c)) TkOpenChannel \<le> unat (streams_reserved ?f - 1)"
    using conn_inv_slots [OF inv] n res by (simp add: count_list_remove1 unat_sub_exact word_le_nat_alt word_less_nat_alt)
  have ids: "mset (task_ids (remove1 TkOpenChannel (tasks c))) = mset (task_ids (tasks c))"
    using remove_slotless [OF t] by simp
  have so: "streams_ok ?f (conn_streams c)" using inv by (simp add: conn_inv_def)
  have hi: "hello_ok (established c) (hello_sent c) (hello_received c) ?f" using inv by (simp add: conn_inv_def)
  show ?thesis
  proof (cases r)
    case (Inl e)
    have "flow_inv (release_stream_slot ?f)" using flow_step_inv [OF fi, of FlReleaseSlot] res by simp
    then have "streams_ok (release_stream_slot ?f) (conn_streams c)"
      by (intro streams_ok_engine [OF so]) (simp_all add: release_stream_slot_def)
    with Inl inv est less ids hi show ?thesis
      by (simp add: open_channel_def on_flow_conn_def finish_task_def conn_inv_def unowned_def slots_ok_def gate_ok_def
          hello_ok_def) (simp add: release_stream_slot_def)
  next
    case (Inr ready)
    let ?g = "commit_stream_slot ?f"
    let ?t = "Stream_new False (tearing_down c \<or> cs_closed c) (ready = DcOpen) ?g"
    have gi: "flow_inv ?g" using flow_step_inv [OF fi, of FlCommitSlot] res by simp
    have same: "next_id ?g = next_id ?f" by (simp add: commit_stream_slot_def)
    have "streams_ok (sh_flow ?t) ((conn_streams c)(sh_id ?t \<mapsto> ?t))"
      using gi room same by (intro streams_ok_new [OF so]) (simp_all add: commit_stream_slot_def)
    moreover have "conn_streams c (next_id ?g + 1) = None"
      using new_id_fresh [OF so same] room same by simp
    moreover have "streams_reserved ?g = streams_reserved ?f - 1" and "local_limits ?g = local_limits ?f"
      by (simp_all add: commit_stream_slot_def)
    moreover have "places_ok (handed_out c) (unowned c) (conn_streams c)" using inv by (simp add: conn_inv_def)
    ultimately show ?thesis
      using Inr est less ids hi places_ok_add [of "handed_out c" "unowned c" "conn_streams c" "next_id ?g + 1" ?t]
      by (simp add: open_channel_def new_conn_stream_def put_conn_stream_def on_flow_conn_def spawn_def finish_task_def Let_def
          conn_inv_def unowned_def slots_ok_def gate_ok_def hello_ok_def)
  qed
qed

text \<open>The end of an open call: the stream is handed out, or its handle is dropped.\<close>

lemma held_in_task:
  assumes "TkOpenReady i \<in> set (tasks c)"
  shows "unowned c = add_mset i (unowned (finish_task (TkOpenReady i) c))"
  using task_held [OF assms] by (simp add: unowned_def finish_task_def)

lemma conn_inv_hand_out:
  assumes inv: "conn_inv c" and t: "TkOpenReady i \<in> set (tasks c)"
  shows "conn_inv (hand_out i (finish_task (TkOpenReady i) c))"
proof -
  have est: "established c" using conn_inv_late [OF inv t] by simp
  have "places_ok (handed_out c) (unowned c) (conn_streams c)" using inv by (simp add: conn_inv_def)
  then have "places_ok (handed_out c @ [i]) (unowned (finish_task (TkOpenReady i) c)) (conn_streams c)"
    unfolding held_in_task [OF t] by (auto simp: places_ok_def idle_def)
  with inv est show ?thesis
    by (simp add: hand_out_def finish_task_def conn_inv_def unowned_def slots_ok_def gate_ok_def count_list_remove1)
qed

lemma conn_inv_drop_handle:
  assumes inv: "conn_inv c" and t: "TkOpenReady i \<in> set (tasks c)"
  shows "conn_inv (stream_event i SvDrop (finish_task (TkOpenReady i) c))"
proof -
  let ?c = "finish_task (TkOpenReady i) c"
  have est: "established c" using conn_inv_late [OF inv t] by simp
  have p: "places_ok (handed_out c) (unowned c) (conn_streams c)" using inv by (simp add: conn_inv_def)
  note u = held_in_task [OF t]
  have "places_ok (handed_out c) (unowned ?c) (conn_streams c)"
  proof -
    have "count (mset (handed_out c) + unowned ?c) j \<le> 1" for j
    proof -
      have "count (mset (handed_out c) + unowned ?c) j \<le> count (mset (handed_out c) + unowned c) j"
        unfolding u by simp
      also have "\<dots> \<le> 1" using p unfolding places_ok_def by blast
      finally show ?thesis .
    qed
    with p show ?thesis unfolding u by (simp add: places_ok_def)
  qed
  with inv est have c: "conn_inv ?c"
    by (simp add: finish_task_def conn_inv_def unowned_def slots_ok_def gate_ok_def count_list_remove1)
  have "i \<in># unowned c" unfolding u by simp
  then obtain s where s: "conn_streams c i = Some s" "handle_live s" "\<not> close_write_pending s"
    using p by (auto simp: places_ok_def idle_def)
  have "i \<notin># unowned ?c"
  proof -
    have "count (mset (handed_out c) + unowned c) i \<le> 1" using p by (simp add: places_ok_def)
    then show ?thesis unfolding u by (simp add: not_in_iff)
  qed
  with s show ?thesis
    by (intro conn_inv_stream_event [OF c]) (simp_all add: finish_task_def load_def)
qed

lemma conn_inv_open_ready:
  assumes "conn_inv c" and "TkOpenReady i \<in> set (tasks c)"
  shows "conn_inv (snd (open_ready b i c))"
  using assms
  by (simp add: open_ready_def Let_def conn_inv_hand_out conn_inv_drop_handle split: option.split poll.split sum.split)

lemma conn_inv_abandon:
  assumes inv: "conn_inv c" and t: "t \<in> set (tasks c)" and "open_call t \<or> close_call t"
  shows "conn_inv (call_abandon t c)"
proof -
  have "conn_inv (finish_task t c)" if "task_id t = []" and "\<not> early t"
    using conn_inv_tasks [OF inv, of "remove1 t (tasks c)"] conn_inv_late [OF inv t that(2)]
      remove_slotless [OF t that(1)] conn_inv_slots [OF inv]
    by (simp add: finish_task_def count_list_remove1)
  with assms show ?thesis
    by (cases t) (simp_all add: call_abandon_def conn_inv_finish conn_inv_drop_handle)
qed

section \<open>Every step\<close>

lemma conn_step_inv:
  assumes "conn_inv c" and "conn_guard c e"
  shows "conn_inv (conn_step c e)"
proof (cases e)
  case (CvStream i ev)
  with assms(2) obtain s where s: "conn_streams c i = Some s" "stream_guard (load c s) ev"
    and own: "\<And>op. ev \<noteq> SvFlow op" and app: "app_event ev \<Longrightarrow> i \<in> set (handed_out c)" by auto
  have p: "places_ok (handed_out c) (unowned c) (conn_streams c)" using assms(1) by (simp add: conn_inv_def)
  have "conn_inv (stream_event i ev c)"
    using not_unowned [OF p] app by (intro conn_inv_stream_event [OF assms(1) s own]) blast
  with CvStream show ?thesis by simp
qed (use assms in \<open>simp_all add: conn_inv_send_hello conn_inv_control conn_inv_closing conn_inv_control_writer
    conn_inv_quiet conn_inv_watch handle_incoming_inv conn_inv_surface conn_inv_open_begin conn_inv_open_established
    conn_inv_open_slot conn_inv_open_channel conn_inv_open_ready conn_inv_abandon conn_inv_accept\<close>)

interpretation conn: machine conn_step conn_guard conn_inv
  by unfold_locales (rule conn_step_inv)

lemma conn_new_inv: "conn_inv (WebrtcConn_new addr)"
proof -
  have "flow_inv (ConnFlow_new DEFAULT_FLOW_LIMITS)" by (rule flow_new_inv [OF default_limits_ok])
  then show ?thesis
    by (simp add: conn_inv_def WebrtcConn_new_def streams_ok_def hello_ok_def slots_ok_def gate_ok_def places_ok_def
        unowned_def) (simp add: ConnFlow_new_def)
qed

end
