(* ===== verification/KpsStreamProps.thy ===== *)
theory KpsStreamProps
  imports KpsStreamRead
begin

text \<open>
  The properties of one stream over its invariant, each with a run that meets its
  hypotheses, and the runs that show where the code falls short of its documentation.
\<close>

section \<open>Reachable streams\<close>

text \<open>The states a stream can be in: some legal run from its construction leads there.\<close>

definition stream_reachable :: "WebrtcStream \<Rightarrow> bool" where
  "stream_reachable s \<longleftrightarrow>
     (\<exists>pin td op f es. flow_inv f \<and> next_id f < 18446744073709551615
        \<and> (pin \<longrightarrow> peer_retired_streams f < peer_opened_streams f)
        \<and> legal stream_step stream_guard (Stream_new pin td op f) es
        \<and> s = foldl stream_step (Stream_new pin td op f) es)"

lemma reachable_inv: "stream_reachable s \<Longrightarrow> stream_inv s"
  unfolding stream_reachable_def by (blast intro: stream.run_inv stream_new_inv)

lemma reachable_run:
  assumes "stream_reachable s" and "legal stream_step stream_guard s es"
  shows "stream_reachable (foldl stream_step s es)"
proof -
  from assms(1) obtain pin td op f fs where
    "flow_inv f" "next_id f < 18446744073709551615" "pin \<longrightarrow> peer_retired_streams f < peer_opened_streams f"
    "legal stream_step stream_guard (Stream_new pin td op f) fs" "s = foldl stream_step (Stream_new pin td op f) fs"
    unfolding stream_reachable_def by blast
  moreover from this assms(2) have "legal stream_step stream_guard (Stream_new pin td op f) (fs @ es)"
    by (simp add: legal_append)
  ultimately show ?thesis
    unfolding stream_reachable_def by (metis foldl_append)
qed

text \<open>Runs by evaluation: an engine after the HELLO exchange, and a stream of it.\<close>

lemma word_numeral_le_one:
  "(numeral k :: 'a::len word) \<le> 1 \<longleftrightarrow> unat (numeral k :: 'a word) \<le> unat (1 :: 'a word)"
  by (rule word_le_nat_alt)

lemmas hello_eval = word_numeral_le_one flow_op_defs new_stream_def poll_reserve_def on_data_received_def
  on_consumed_def consume_stream_def consume_conn_def put_stream_def wake_locked_def
  ConnFlow_new_def StreamState_default_def DEFAULT_FLOW_LIMITS_def limits_ok_def sat_def
  Let_def push_bit_eq_mult MAX_OFFSET_def min_def max_def

lemmas stream_eval = stream_op_defs wait_open_def poll_write_def write_credit_def write_queue_def
  give_back_grant_def life_send_def on_flow_def fatal_hook_def wake_reader_def maybe_retire_def
  mark_closed_def mark_terminal_sent_def release_held_def shared_consumed_def discard_consumed_def
  inbuf_bytes_def queue_answer_def peer_terminal_def is_kind_def encoder_defs queued_credit_def
  parse_frame_def frame_consts WRITE_BUFFER_LOW_def retired_hook_def

definition hello_engine :: ConnFlow where
  "hello_engine = on_peer_hello DEFAULT_FLOW_LIMITS (ConnFlow_new DEFAULT_FLOW_LIMITS)"

definition fresh :: WebrtcStream where
  "fresh = Stream_new False False False hello_engine"

lemma hello_engine_inv: "flow_inv hello_engine"
  using flow_step_inv [OF flow_new_inv [OF default_limits_ok], of "FlPeerHello DEFAULT_FLOW_LIMITS"]
  by (simp add: hello_engine_def ConnFlow_new_def)

lemma fresh_reachable: "stream_reachable fresh"
  unfolding stream_reachable_def fresh_def
  by (intro exI [of _ False] exI [of _ hello_engine] exI [of _ "[]"] conjI hello_engine_inv)
     (simp_all add: hello_engine_def hello_eval)

lemmas fresh_eval = fresh_def Stream_new_def hello_engine_def hello_eval stream_eval

text \<open>Two bytes written and sent, two received and one of them read, the write half closed.\<close>

definition talk :: "stream_ev list" where
  "talk = [SvOpen, SvWriterStart, SvWrite 7 [1, 2] (Ready (Inr ())) True, SvWriterSelect,
     SvWriterBuffer 0, SvWriterTransmit, SvWriterSent True, SvMessage [0, 8, 9], SvRead 3 1,
     SvShutdown (Ready (Inr ())) True, SvWriterSelect, SvWriterBuffer 0, SvWriterTransmit,
     SvWriterSent True]"

definition talked :: WebrtcStream where
  "talked = foldl stream_step fresh talk"

lemma talk_legal: "legal stream_step stream_guard fresh talk"
  by (simp add: talk_def fresh_eval)

lemma talked_reachable: "stream_reachable talked"
  unfolding talked_def by (rule reachable_run [OF fresh_reachable talk_legal])

lemma talked_eval:
  "wire_out talked = [[0, 1, 2], [1]]" "accepted talked = [1, 2]" "arrived talked = [[0, 8, 9]]"
  "delivered talked = [8]" "inbuf talked = [[9]]" "fatal_calls talked = []" "retired_fired talked = False"
  "writer_at talked = WrIdle" "data_q talked = []" "pending_grant talked = 0" "peer_fin talked = False"
  "dc_closed talked = False" "local_terminal_sent talked = True" "peer_reset talked = None"
  "read_cancel talked = False" "sh_id talked = 1" "retired_calls talked = 0"
  by (simp_all add: talked_def talk_def fresh_eval)

section \<open>Credit and retirement\<close>

lemma no_loss_step:
  "writer_at s \<noteq> WrDone \<longrightarrow> lost_credit s = 0 \<Longrightarrow> stream_guard s e
     \<Longrightarrow> writer_at (stream_step s e) \<noteq> WrDone \<longrightarrow> lost_credit (stream_step s e) = 0"
  by (cases e)
     (auto simp: stream_op_defs poll_write_def write_credit_def write_queue_def give_back_grant_def Let_def
       split: poll.splits sum.splits list.splits writer.splits bool.splits prod.splits option.splits
         ParsedFrame.splits if_splits)

interpretation loss: machine stream_step stream_guard "\<lambda>s. writer_at s \<noteq> WrDone \<longrightarrow> lost_credit s = 0"
  by unfold_locales (rule no_loss_step)

lemma reachable_no_loss:
  "stream_reachable s \<Longrightarrow> writer_at s \<noteq> WrDone \<Longrightarrow> lost_credit s = 0"
  unfolding stream_reachable_def
  by (auto dest!: loss.run_inv [rotated] simp: Stream_new_def new_stream_def Let_def)

text \<open>
  While a stream is registered and its writer task runs, no credit leaks and none is
  counted twice: the bytes reserved for it at the engine are exactly those of the frames in
  its DATA queue, of the frame the writer holds, and of the grant the handle holds; and the
  bytes the engine counts as received but not consumed are exactly those in its buffer.
\<close>

theorem stream_credit_accounted:
  assumes "stream_reachable s" and "\<not> retired_fired s" and "writer_at s \<noteq> WrDone"
  shows "\<exists>t. streams (sh_flow s) (sh_id s) = Some t
    \<and> unat (send_reserved t) = queued_credit (data_q s) + held_credit s + unat (pending_grant s)
    \<and> unat (received t) - unat (consumed t) = inbuf_bytes s"
proof -
  have "flow_ok s" using reachable_inv [OF assms(1)] by (simp add: stream_inv_def)
  with assms(2) reachable_no_loss [OF assms(1,3)] show ?thesis
    by (auto simp: flow_ok_def own_def unread_def)
qed

theorem stream_credit_accounted_witness:
  "\<exists>t. streams (sh_flow talked) 1 = Some t \<and> unat (send_reserved t) = 0
     \<and> unat (received t) - unat (consumed t) = 1"
  using stream_credit_accounted [OF talked_reachable]
  by (simp add: talked_eval held_credit_def inbuf_bytes_def)

text \<open>
  C15: A stream retires once, and exactly when its terminal frame has been handed to the
  transport, the peer's has arrived, its channel has closed and its buffer is drained; from
  then on the engine no longer knows it.
\<close>

theorem stream_retires_once:
  assumes "stream_reachable s"
  shows "retired_calls s = (if local_terminal_sent s \<and> peer_terminal s \<and> dc_closed s \<and> inbuf s = [] then 1 else 0)
    \<and> (streams (sh_flow s) (sh_id s) = None \<longleftrightarrow> retired_calls s = 1)"
proof -
  have st: "state_ok s" and fl: "flow_ok s"
    using reachable_inv [OF assms] by (simp_all add: stream_inv_def)
  have "retired_calls s = (if local_terminal_sent s \<and> peer_terminal s \<and> dc_closed s \<and> inbuf s = [] then 1 else 0)"
    using st by (auto simp: state_ok_def retire_due_def)
  moreover have "streams (sh_flow s) (sh_id s) = None \<longleftrightarrow> retired_calls s = 1"
    using st fl by (cases "retired_fired s") (auto simp: state_ok_def flow_ok_def own_def)
  ultimately show ?thesis by blast
qed

theorem stream_retires_once_witness:
  "retired_calls talked = 0 \<and> streams (sh_flow talked) 1 \<noteq> None"
  using stream_retires_once [OF talked_reachable] by (simp add: talked_eval peer_terminal_def)

section \<open>What is sent and what is read\<close>

text \<open>
  What a stream puts on its channel obeys the order rule of the wire (at most one of FIN
  and RESET, no DATA after it) and carries a prefix of the bytes the application's writes
  were told are accepted, in order; once the FIN is there, it carries all of them.
\<close>

theorem stream_wire_faithful:
  assumes "stream_reachable s"
  shows "wire_ok False (wire_out s) \<and> (\<exists>rest. accepted s = data_of (wire_out s) @ rest)
    \<and> (list_ex (is_kind FtFin) (wire_out s) \<longrightarrow> accepted s = data_of (wire_out s))"
proof -
  have "out_ok s" using reachable_inv [OF assms] by (simp add: stream_inv_def)
  then show ?thesis by (auto simp: out_ok_def payload_ok_def)
qed

theorem stream_wire_faithful_witness:
  "accepted talked = data_of [[0, 1, 2], [1]]"
  using stream_wire_faithful [OF talked_reachable] by (simp add: talked_eval is_kind_def)

text \<open>
  C13: As long as the peer broke no rule, the bytes read so far, followed by the buffered
  ones, are a prefix of the payload of the frames that arrived; they are all of it unless
  reading was cancelled or the peer reset. In particular a read into a non-empty buffer that
  reports end of stream means that a FIN arrived and that every byte before it was read.
\<close>

theorem stream_read_faithful:
  assumes "stream_reachable s" and "fatal_calls s = []"
  shows "(\<exists>rest. data_of (arrived s) = delivered s @ concat (inbuf s) @ rest
            \<and> (\<not> read_cancel s \<and> peer_reset s = None \<longrightarrow> rest = []))
    \<and> (fst (poll_read w (Suc cap) s) = Ready (Inr []) \<longrightarrow>
         list_ex (is_kind FtFin) (arrived s) \<and> delivered s = data_of (arrived s))"
proof -
  have inn: "in_ok s" and st: "state_ok s"
    using reachable_inv [OF assms(1)] by (simp_all add: stream_inv_def)
  have ne: "[] \<notin> set (inbuf s)" using st by (simp add: state_ok_def flags_ok_def)
  have "inbuf s = [] \<and> \<not> read_cancel s \<and> peer_reset s = None \<and> peer_fin s"
    if "fst (poll_read w (Suc cap) s) = Ready (Inr [])"
    using that ne by (auto simp: poll_read_def Let_def min_def
        split: list.splits option.splits if_splits)
  with inn assms(2) show ?thesis by (fastforce simp: in_ok_def)
qed

theorem stream_read_faithful_witness:
  "data_of [[0, 8, 9]] = [8] @ concat [[9]]"
  using stream_read_faithful [OF talked_reachable] by (simp add: talked_eval)

section \<open>Wake-ups of the reader\<close>

definition read_blocked :: "WebrtcStream \<Rightarrow> bool" where
  "read_blocked s \<longleftrightarrow>
     inbuf s = [] \<and> \<not> read_cancel s \<and> peer_reset s = None \<and> \<not> peer_fin s \<and> \<not> dc_closed s"

lemma read_blocked_pending: "fst (poll_read w cap s) = Pending \<longleftrightarrow> read_blocked s"
  by (auto simp: poll_read_def read_blocked_def Let_def split: list.split option.split)

definition keeps_reader :: "waker \<Rightarrow> WebrtcStream \<Rightarrow> bool" where
  "keeps_reader w s \<longleftrightarrow>
     (if read_blocked s then read_waker s = Some w \<or> w \<in> set (reads_woken s)
      else w \<in> set (reads_woken s))"

lemma wake_reader_wakes [simp]:
  "read_waker s = Some w \<Longrightarrow> reads_woken (wake_reader s) = reads_woken s @ [w]"
  by (simp add: wake_reader_def)

lemma woken_keeps: "w \<in> set (reads_woken s) \<Longrightarrow> keeps_reader w s"
  by (simp add: keeps_reader_def)

lemma quiet_keeps:
  assumes "read_blocked s" and "read_waker s = Some w"
    and "inbuf t = inbuf s" "read_cancel t = read_cancel s" "peer_reset t = peer_reset s"
      "peer_fin t = peer_fin s" "dc_closed t = dc_closed s" "read_waker t = read_waker s"
  shows "keeps_reader w t"
  using assms by (simp add: keeps_reader_def read_blocked_def)

lemma frame_keeps_reader:
  assumes "read_blocked s" and "read_waker s = Some w"
  shows "keeps_reader w (on_message data s)"
proof (cases "parse_frame data")
  case (Inl m)
  then show ?thesis
    by (intro quiet_keeps [OF assms]) (simp_all add: on_message_def on_frame_def)
next
  case (Inr f)
  have b: "\<not> read_cancel s" "peer_reset s = None" "\<not> peer_fin s" using assms(1) by (simp_all add: read_blocked_def)
  show ?thesis
  proof (cases f)
    case (PfData p)
    obtain r fl where d: "on_data_received (sh_id s) (of_nat (length p)) (sh_flow s) = (r, fl)" by fastforce
    show ?thesis
    proof (cases r)
      case (Inl m)
      with Inr PfData b d show ?thesis
        by (intro quiet_keeps [OF assms]) (simp_all add: on_message_def on_frame_def on_data_frame_def Let_def)
    next
      case r: (Inr u)
      with Inr PfData b d assms(2) show ?thesis
        by (intro woken_keeps) (simp add: on_message_def on_frame_def on_data_frame_def Let_def)
    qed
  next
    case PfFin
    with Inr b assms(2) show ?thesis
      by (intro woken_keeps) (simp add: on_message_def on_frame_def on_fin_frame_def)
  next
    case (PfReset c)
    with Inr b assms(2) show ?thesis
      by (intro woken_keeps) (simp add: on_message_def on_frame_def on_reset_frame_def Let_def)
  next
    case (PfStopSending c)
    with Inr show ?thesis
      by (intro quiet_keeps [OF assms]) (simp_all add: on_message_def on_frame_def on_stop_frame_def Let_def)
  next
    case (PfMaxStreamData v)
    with Inr show ?thesis
      by (intro quiet_keeps [OF assms]) (simp_all add: on_message_def on_frame_def)
  qed
qed

lemma close_keeps_reader:
  assumes "read_waker s = Some w"
  shows "keeps_reader w (on_channel_close s)" and "\<not> read_cancel s \<Longrightarrow> keeps_reader w (cancel_read c s)"
proof -
  have "reads_woken (wake_reader (s\<lparr>dc_closed := True\<rparr>)) = reads_woken s @ [w]" using assms by simp
  then show "keeps_reader w (on_channel_close s)"
    by (intro woken_keeps) (simp add: on_channel_close_def Let_def)
  have "reads_woken (wake_reader (s\<lparr>read_cancel := True, inbuf := []\<rparr>)) = reads_woken s @ [w]" using assms by simp
  then show "\<not> read_cancel s \<Longrightarrow> keeps_reader w (cancel_read c s)"
    by (intro woken_keeps) (simp add: cancel_read_def Let_def)
qed

text \<open>
  C16: No wake-up is lost for a reader: if a read is waiting with its waker registered, then
  after any other event either it would still have to wait and the waker is still
  registered, or the waker was woken (data, FIN, RESET, close of the channel, cancel).
\<close>

theorem no_lost_read_wakeup:
  assumes "fst (poll_read w0 cap0 s) = Pending" and "read_waker s = Some w" and "\<forall>v cap. e \<noteq> SvRead v cap"
  shows "w \<in> set (reads_woken (stream_step s e))
    \<or> (fst (poll_read w0 cap0 (stream_step s e)) = Pending \<and> read_waker (stream_step s e) = Some w)"
proof -
  have b: "read_blocked s" using assms(1) by (simp add: read_blocked_pending)
  note q = quiet_keeps [OF b assms(2)]
  have "keeps_reader w (stream_step s e)"
  proof (cases e)
    case (SvMessage data)
    with frame_keeps_reader [OF b assms(2)] show ?thesis by simp
  next
    case SvClosed
    with close_keeps_reader [OF assms(2)] show ?thesis by simp
  next
    case (SvCancelRead c)
    with close_keeps_reader [OF assms(2)] b show ?thesis by (simp add: read_blocked_def)
  next
    case (SvRead v cap)
    with assms(3) show ?thesis by blast
  qed (intro q;
      simp add: stream_op_defs poll_write_def write_credit_def write_queue_def give_back_grant_def Let_def
        split: poll.split sum.split list.split writer.split bool.split prod.split option.split)+
  then show ?thesis
    by (auto simp: keeps_reader_def read_blocked_pending split: if_splits)
qed

theorem no_lost_read_wakeup_witness:
  "reads_woken (stream_step (snd (poll_read 5 10 fresh)) (SvMessage [1])) = [5]"
proof -
  let ?s = "snd (poll_read 5 10 fresh)"
  have s: "read_waker ?s = Some 5" "fst (poll_read 5 10 ?s) = Pending"
    and r: "fst (poll_read 5 10 (stream_step ?s (SvMessage [1]))) \<noteq> Pending"
    "length (reads_woken (stream_step ?s (SvMessage [1]))) = 1"
    by (simp_all add: fresh_eval)
  have "5 \<in> set (reads_woken (stream_step ?s (SvMessage [1])))"
    using no_lost_read_wakeup [OF s(2,1), of "SvMessage [1]"] r(1) by simp
  with r(2) show ?thesis by (auto simp: length_Suc_conv)
qed

section \<open>Writing, branch by branch\<close>

lemma write_credit_held:
  assumes "pending_grant s \<noteq> 0"
  shows "write_credit w buf s = (Ready (Inr ()), s)"
  using assms by (simp add: write_credit_def)

lemma write_credit_fresh:
  assumes "stream_inv s" and "pending_grant s = 0" and "write_credit w buf s = (Ready (Inr x), t)"
  shows "unat (pending_grant t) \<le> length buf"
proof -
  have inv: "flow_inv (sh_flow s)" using assms(1) by (simp add: stream_inv_def flow_ok_def)
  let ?want = "of_nat (min (length buf) MAX_FRAME_PAYLOAD) :: u64"
  obtain r f where p: "poll_reserve w (sh_id s) ?want (sh_flow s) = (r, f)" by fastforce
  with assms(2,3) obtain g where g: "r = Ready (Inr g)" and t: "pending_grant t = g"
    by (auto simp: write_credit_def Let_def split: poll.splits sum.splits)
  have "g \<le> ?want" using own_reserve(3) [OF inv p g] by blast
  moreover have "unat ?want = min (length buf) MAX_FRAME_PAYLOAD"
    by (intro unat_of_nat_small) (simp add: frame_consts)
  ultimately show ?thesis using t by (simp add: word_le_nat_alt)
qed

text \<open>
  C17: A write aborts the program (the slice \<open>&buf[..n]\<close> is out of range) in exactly one
  situation: a grant is held from an earlier write that had to wait for the DATA queue, the
  queue now has room, and the new buffer is shorter than that grant. In every other state
  and for every other buffer it returns.
\<close>

theorem write_panics_iff:
  assumes "stream_reachable s"
  shows "fst (poll_write w buf q item_ok s) = None \<longleftrightarrow>
    peer_stop s = None \<and> local_terminal s = None \<and> \<not> dc_closed s
    \<and> q = Ready (Inr ()) \<and> length buf < unat (pending_grant s)"
proof -
  have inv: "stream_inv s" by (rule reachable_inv [OF assms])
  obtain r t where c: "write_credit w buf s = (r, t)" by fastforce
  show ?thesis
  proof (cases "pending_grant s = 0")
    case False
    then show ?thesis
      by (auto simp: poll_write_def write_credit_held write_queue_def Let_def
          split: option.split poll.split sum.split)
  next
    case True
    have "r = Ready (Inr x) \<Longrightarrow> unat (pending_grant t) \<le> length buf" for x
      using write_credit_fresh [OF inv True, of w buf x t] c by blast
    with True c show ?thesis
      by (auto simp: poll_write_def write_queue_def Let_def not_less
          split: option.split poll.split sum.split)
  qed
qed

text \<open>A write of three bytes that has to wait for the queue, after the channel opened.\<close>

definition waiting_write :: WebrtcStream where
  "waiting_write = foldl stream_step fresh [SvOpen, SvWriterStart, SvWrite 7 [1, 2, 3] Pending True]"

lemma waiting_write_reachable: "stream_reachable waiting_write"
  unfolding waiting_write_def by (rule reachable_run [OF fresh_reachable]) (simp add: fresh_eval)

theorem write_panics_iff_witness:
  "fst (poll_write 7 [1, 2] (Ready (Inr ())) True waiting_write) = None"
  using write_panics_iff [OF waiting_write_reachable, of 7 "[1, 2]" "Ready (Inr ())" True]
  by (simp add: waiting_write_def fresh_eval)

text \<open>
  A write of an empty buffer on an open stream never completes: whatever credit is
  available, it waits for more (no grant of zero bytes exists).
\<close>

theorem empty_write_pends:
  assumes "stream_reachable s" and "pending_grant s = 0" and "peer_stop s = None"
    and "local_terminal s = None" and "\<not> dc_closed s" and "\<not> is_failed (sh_flow s)"
    and "streams (sh_flow s) (sh_id s) = Some t" and "\<not> send_failed t"
  shows "fst (poll_write w [] q item_ok s) = Some Pending"
proof -
  have "reserve_grant (sh_flow s) t 0 = 0" by (simp add: reserve_grant_def)
  then have "fst (poll_reserve w (sh_id s) 0 (sh_flow s)) = Pending"
    using assms(6-8) by (simp add: poll_reserve_live Let_def)
  with assms(2-5) show ?thesis
    by (auto simp: poll_write_def write_credit_def Let_def split: prod.split)
qed

theorem empty_write_pends_witness:
  "fst (poll_write 7 [] (Ready (Inr ())) True fresh) = Some Pending"
  by (rule empty_write_pends [OF fresh_reachable, where t = "the (streams (sh_flow fresh) 1)"])
     (simp_all add: fresh_eval)

section \<open>Where a write half gets stuck\<close>

text \<open>A FIN recorded but never queued: no terminal frame exists anywhere.\<close>

definition fin_lost :: "WebrtcStream \<Rightarrow> bool" where
  "fin_lost s \<longleftrightarrow>
     local_terminal s = Some TermFin \<and> \<not> close_write_pending s \<and> \<not> local_terminal_sent s
     \<and> terminals (wire_out s) (held_data s @ data_q s) (pending_life s) = []
     \<and> (\<forall>fr\<in>set_option (sent_frame s). \<not> is_terminal fr)"

lemma fin_lost_frame [simp]:
  "fin_lost (s\<lparr>inbuf := x_inbuf\<rparr>) = fin_lost s"
  "fin_lost (s\<lparr>peer_fin := x_peer_fin\<rparr>) = fin_lost s"
  "fin_lost (s\<lparr>peer_reset := x_peer_reset\<rparr>) = fin_lost s"
  "fin_lost (s\<lparr>peer_stop := x_peer_stop\<rparr>) = fin_lost s"
  "fin_lost (s\<lparr>read_cancel := x_read_cancel\<rparr>) = fin_lost s"
  "fin_lost (s\<lparr>dc_open := x_dc_open\<rparr>) = fin_lost s"
  "fin_lost (s\<lparr>dc_closed := x_dc_closed\<rparr>) = fin_lost s"
  "fin_lost (s\<lparr>retired_fired := x_retired_fired\<rparr>) = fin_lost s"
  "fin_lost (s\<lparr>st_closed := x_st_closed\<rparr>) = fin_lost s"
  "fin_lost (s\<lparr>read_waker := x_read_waker\<rparr>) = fin_lost s"
  "fin_lost (s\<lparr>sh_flow := x_sh_flow\<rparr>) = fin_lost s"
  "fin_lost (s\<lparr>is_teardown := x_is_teardown\<rparr>) = fin_lost s"
  "fin_lost (s\<lparr>fatal_calls := x_fatal_calls\<rparr>) = fin_lost s"
  "fin_lost (s\<lparr>retired_calls := x_retired_calls\<rparr>) = fin_lost s"
  "fin_lost (s\<lparr>reads_woken := x_reads_woken\<rparr>) = fin_lost s"
  "fin_lost (s\<lparr>open_notified := x_open_notified\<rparr>) = fin_lost s"
  "fin_lost (s\<lparr>closed_notified := x_closed_notified\<rparr>) = fin_lost s"
  "fin_lost (s\<lparr>buf_low_notified := x_buf_low_notified\<rparr>) = fin_lost s"
  "fin_lost (s\<lparr>close_tasks := x_close_tasks\<rparr>) = fin_lost s"
  "fin_lost (s\<lparr>handle_live := x_handle_live\<rparr>) = fin_lost s"
  "fin_lost (s\<lparr>arrived := x_arrived\<rparr>) = fin_lost s"
  "fin_lost (s\<lparr>delivered := x_delivered\<rparr>) = fin_lost s"
  "fin_lost (s\<lparr>lost_credit := x_lost_credit\<rparr>) = fin_lost s"
  "fin_lost (s\<lparr>pending_grant := x_pending_grant\<rparr>) = fin_lost s"
  "fin_lost (s\<lparr>accepted := x_accepted\<rparr>) = fin_lost s"
  "fin_lost (wake_reader s) = fin_lost s"
  "fin_lost (on_flow h s) = fin_lost s"
  "fin_lost (release_held r s) = fin_lost s"
  "fin_lost (fatal_hook m s) = fin_lost s"
  "fin_lost (maybe_retire s) = fin_lost s"
  "fin_lost (mark_closed s) = fin_lost s"
  by (simp_all add: fin_lost_def out_view_defs)

lemma fin_lost_life:
  assumes "fin_lost s" and "\<not> is_terminal m"
  shows "fin_lost (life_send m s)"
proof -
  have "pending_life (s\<lparr>life_q := life_q s @ [m]\<rparr>) = pending_life s @ [m]" by simp
  with assms show ?thesis by (simp add: life_send_def fin_lost_def terminals_append)
qed

lemma fin_lost_consumed: "fin_lost s \<Longrightarrow> fin_lost (shared_consumed n s)" "fin_lost s \<Longrightarrow> fin_lost (discard_consumed n s)"
  by (auto simp: shared_consumed_def discard_consumed_def Let_def intro!: fin_lost_life split: prod.split option.split)

lemma fin_lost_exit: "fin_lost s \<Longrightarrow> fin_lost (writer_exit s)"
  by (auto simp: fin_lost_def writer_exit_def out_view_defs terminals_def filter_empty_conv)

lemma fin_lost_message: "fin_lost s \<Longrightarrow> fin_lost (on_message data s)"
  by (auto simp: on_message_def on_frame_def on_data_frame_def on_fin_frame_def on_reset_frame_def
      on_stop_frame_def Let_def fin_lost_consumed fin_lost_def [of s]
      split: sum.split ParsedFrame.split prod.split option.split)

lemma fin_lost_writer:
  assumes "fin_lost s"
  shows "writer_at s = WrWaiting \<Longrightarrow> fin_lost (writer_start s)"
    and "writer_at s = WrIdle \<Longrightarrow> fin_lost (writer_select s)"
    and "fin_lost (writer_buffer n s)" and "fin_lost (writer_transmit s)"
    and "stream_guard s (SvWriterSent ok) \<Longrightarrow> fin_lost (writer_sent ok s)"
proof -
  show "writer_at s = WrWaiting \<Longrightarrow> fin_lost (writer_start s)"
    using assms fin_lost_exit [OF assms]
    by (auto simp: writer_start_def split: poll.split sum.split) (simp add: fin_lost_def out_view_defs)
  show "writer_at s = WrIdle \<Longrightarrow> fin_lost (writer_select s)"
  proof -
    assume w: "writer_at s = WrIdle"
    show ?thesis
    proof (cases "life_q s")
      case (Cons m rest)
      with assms w show ?thesis by (simp add: writer_select_def fin_lost_def out_view_defs)
    next
      case Nil
      show ?thesis
      proof (cases "data_q s")
        case Nil
        with \<open>life_q s = []\<close> assms fin_lost_exit [OF assms] show ?thesis by (simp add: writer_select_def)
      next
        case (Cons x rest)
        have "fin_lost (s\<lparr>data_q := rest\<rparr>)" and "fin_lost (s\<lparr>data_q := rest, writer_at := WrHold (fst x) (snd x)\<rparr>)"
          using assms w Cons by (auto simp: fin_lost_def out_view_defs terminals_parts split: if_splits)
        with Nil Cons show ?thesis by (cases x) (simp add: writer_select_def Let_def)
      qed
    qed
  qed
  show "fin_lost (writer_buffer n s)"
    using assms fin_lost_exit [of "release_held r s" for r]
    by (auto simp: writer_buffer_def split: writer.split) (simp add: fin_lost_def out_view_defs)
  show "fin_lost (writer_transmit s)"
  proof (cases "writer_at s")
    case (WrLife m b)
    with assms show ?thesis
      by (cases b) (auto simp: writer_transmit_def fin_lost_def out_view_defs terminals_parts split: if_splits)
  next
    case (WrData fr r b)
    with assms show ?thesis
      by (cases b) (auto simp: writer_transmit_def fin_lost_def out_view_defs terminals_parts split: if_splits)
  qed (use assms in \<open>simp_all add: writer_transmit_def\<close>)
  assume g: "stream_guard s (SvWriterSent ok)"
  have idle: "fin_lost (t\<lparr>writer_at := WrIdle\<rparr>)"
    if "fin_lost t" "(\<exists>fr r. writer_at t = WrData fr r True) \<or> (\<exists>m. writer_at t = WrLife m True)" for t
    using that by (auto simp: fin_lost_def out_view_defs)
  have "mark_terminal_sent fr t = t" if "sent_frame s = Some fr" for fr t
    using that assms by (simp add: fin_lost_def mark_terminal_sent_def is_terminal_def)
  with assms g idle show "fin_lost (writer_sent ok s)"
    by (cases ok) (auto simp: writer_sent_def Let_def fin_lost_exit out_view_defs)
qed

lemma fin_lost_step:
  assumes "fin_lost s" and "stream_guard s e"
  shows "fin_lost (stream_step s e)"
proof (cases e)
  case (SvWriterSent ok)
  with assms fin_lost_writer(5) show ?thesis by (simp del: stream_guard.simps)
next
  case (SvCancelRead c)
  have "fin_lost (s\<lparr>read_cancel := True, inbuf := []\<rparr>)" using assms(1) by simp
  then show ?thesis
    using SvCancelRead assms(1)
    by (simp add: cancel_read_def Let_def fin_lost_consumed fin_lost_life)
qed (use assms in \<open>auto simp: fin_lost_def [of s] on_open_def poll_read_def poll_write_def poll_shutdown_def
    close_write_begin_def close_write_finish_def reset_write_def stream_drop_def
    on_channel_close_def Let_def fin_lost_message fin_lost_writer fin_lost_consumed
    split: list.split option.split\<close>)

interpretation fin_lost: machine stream_step stream_guard fin_lost
  by unfold_locales (rule fin_lost_step)

text \<open>
  When the future of \<open>close_write\<close> is dropped while it waits for the DATA queue (as a
  caller's timeout does), the FIN is lost for good: whatever happens afterwards, no terminal
  frame ever reaches the wire, the stream never retires, and every later \<open>close_write\<close>
  reports success at once.
\<close>

theorem abandoned_close_write_loses_fin:
  assumes "stream_reachable s" and "local_terminal s = None" and "handle_live s"
    and "legal stream_step stream_guard (stream_step (stream_step s SvCloseWrite) SvCloseWriteAbandon) es"
    and "t = foldl stream_step (stream_step (stream_step s SvCloseWrite) SvCloseWriteAbandon) es"
  shows "\<not> list_ex is_terminal (wire_out t) \<and> retired_fired t = False
    \<and> fst (close_write_begin t) = Some (Inr ())"
proof -
  have inv: "stream_inv s" by (rule reachable_inv [OF assms(1)])
  then have st: "state_ok s" and ou: "out_ok s" by (simp_all add: stream_inv_def)
  let ?u = "stream_step (stream_step s SvCloseWrite) SvCloseWriteAbandon"
  have cw: "\<not> close_write_pending s" using st assms(2) by (auto simp: state_ok_def flags_ok_def)
  have "fin_lost ?u"
    using st assms(2) no_terminals [OF out_okD(6) [OF ou]] sent_terminal [OF ou]
    by (auto simp: fin_lost_def close_write_begin_def close_write_abandon_def on_flow_def state_ok_def flags_ok_def
        out_view_defs)
  then have f: "fin_lost t" unfolding assms(5) by (rule fin_lost.run_inv [OF _ assms(4)])
  have "stream_reachable t"
    using reachable_run [OF assms(1), of "SvCloseWrite # SvCloseWriteAbandon # es"] assms(2-5) cw
    by (simp add: close_write_begin_def)
  then have "state_ok t" using reachable_inv by (simp add: stream_inv_def)
  with f have "retired_fired t = False" by (auto simp: state_ok_def retire_due_def fin_lost_def)
  with f show ?thesis
    using terminals_Nil(1) [of "wire_out t"] by (auto simp: fin_lost_def close_write_begin_def)
qed

theorem abandoned_close_write_loses_fin_witness:
  "fst (close_write_begin (foldl stream_step fresh
     [SvOpen, SvWriterStart, SvCloseWrite, SvCloseWriteAbandon, SvMessage [1]])) = Some (Inr ())"
  using abandoned_close_write_loses_fin [OF fresh_reachable, of "[]"]
    abandoned_close_write_loses_fin [where s = "foldl stream_step fresh [SvOpen, SvWriterStart]"
      and es = "[SvMessage [1]]", OF reachable_run [OF fresh_reachable]]
  by (simp add: fresh_eval)

text \<open>An ended writer task: nothing more reaches the wire.\<close>

lemma ended_writer_step:
  assumes "writer_at s = WrDone \<and> wire_out s = ws \<and> local_terminal_sent s = b" and "stream_guard s e"
  shows "writer_at (stream_step s e) = WrDone \<and> wire_out (stream_step s e) = ws
    \<and> local_terminal_sent (stream_step s e) = b"
proof (cases e)
  case (SvMessage data)
  with assms show ?thesis
    by (auto simp: stream_op_defs split: sum.split ParsedFrame.split prod.split)
qed (use assms in \<open>auto simp: on_open_def on_channel_close_def poll_read_def poll_write_def write_credit_def
    write_queue_def give_back_grant_def poll_shutdown_def close_write_begin_def close_write_finish_def
    close_write_abandon_def cancel_read_def reset_write_def stream_drop_def Let_def
    split: list.split option.split poll.split sum.split prod.split\<close>)

interpretation ended: machine stream_step stream_guard
  "\<lambda>s. writer_at s = WrDone \<and> wire_out s = ws \<and> local_terminal_sent s = b"
  by unfold_locales (rule ended_writer_step)

text \<open>
  Once the writer task has ended before a terminal frame went out, no later event puts
  a frame on the wire and the stream never retires: not a RESET in answer to STOP_SENDING,
  nor any other. Dropping the handle of an idle stream without closing it ends the task.
\<close>

theorem ended_writer_never_retires:
  assumes "stream_reachable s" and "writer_at s = WrDone" and "\<not> local_terminal_sent s"
    and "legal stream_step stream_guard s es"
  shows "wire_out (foldl stream_step s es) = wire_out s \<and> retired_calls (foldl stream_step s es) = 0"
proof -
  have e: "writer_at (foldl stream_step s es) = WrDone \<and> wire_out (foldl stream_step s es) = wire_out s
     \<and> local_terminal_sent (foldl stream_step s es) = False"
    by (rule ended.run_inv [OF _ assms(4)]) (use assms(2,3) in simp)
  have "state_ok (foldl stream_step s es)"
    using reachable_inv [OF reachable_run [OF assms(1,4)]] by (simp add: stream_inv_def)
  with e show ?thesis by (auto simp: state_ok_def retire_due_def)
qed

text \<open>The handle is dropped, then the peer asks to stop sending.\<close>

theorem ended_writer_never_retires_witness:
  "local_terminal (foldl stream_step fresh [SvOpen, SvWriterStart, SvDrop, SvWriterSelect, SvMessage [3, 0, 0, 0, 1]])
     = Some TermReset
   \<and> wire_out (foldl stream_step fresh [SvOpen, SvWriterStart, SvDrop, SvWriterSelect, SvMessage [3, 0, 0, 0, 1]]) = []"
proof -
  let ?s = "foldl stream_step fresh [SvOpen, SvWriterStart, SvDrop, SvWriterSelect]"
  have l: "legal stream_step stream_guard fresh [SvOpen, SvWriterStart, SvDrop, SvWriterSelect]"
    and w: "writer_at ?s = WrDone" "\<not> local_terminal_sent ?s" "wire_out ?s = []"
    and g: "legal stream_step stream_guard ?s [SvMessage [3, 0, 0, 0, 1]]"
    by (simp_all add: fresh_eval)
  have "local_terminal (stream_step ?s (SvMessage [3, 0, 0, 0, 1])) = Some TermReset"
    by (simp add: fresh_eval)
  with ended_writer_never_retires [OF reachable_run [OF fresh_reachable l] w(1,2) g] w(3)
  show ?thesis by simp
qed

text \<open>
  After \<open>close_write\<close> has queued its FIN, a STOP_SENDING from the peer no longer discards
  the DATA still waiting in the queue and is not answered with a RESET, although no terminal
  frame has been handed to the transport.
\<close>

theorem stop_after_close_write_keeps_data:
  assumes "stream_reachable s" and "local_terminal s = Some TermFin" and "parse_frame data = Inr (PfStopSending code)"
  shows "data_q (on_message data s) = data_q s \<and> life_q (on_message data s) = life_q s
    \<and> \<not> drop_data (on_message data s)"
proof -
  have "\<not> drop_data s"
    using reachable_inv [OF assms(1)] assms(2) by (simp add: stream_inv_def state_ok_def flags_ok_def)
  with assms(2,3) show ?thesis by (simp add: on_message_def on_frame_def on_stop_frame_def Let_def)
qed

definition queued_close :: WebrtcStream where
  "queued_close = foldl stream_step fresh [SvOpen, SvWriterStart, SvWrite 7 [1, 2] (Ready (Inr ())) True,
     SvShutdown (Ready (Inr ())) True]"

lemma queued_close_reachable: "stream_reachable queued_close"
  unfolding queued_close_def by (rule reachable_run [OF fresh_reachable]) (simp add: fresh_eval)

theorem stop_after_close_write_keeps_data_witness:
  "data_q (on_message [3, 0, 0, 0, 1] queued_close) = [([0, 1, 2], 2), ([1], 0)] \<and> wire_out queued_close = []"
  using stop_after_close_write_keeps_data [OF queued_close_reachable, of "[3, 0, 0, 0, 1]" EcCancelled]
  by (simp add: queued_close_def fresh_eval u32_from_be_bytes_def be_nat_def from_wire_def)

text \<open>
  A race with the close of the channel: both FINs are on the wire, the peer closes the
  channel as it must, and this happens before the await of the FIN's send has returned. Then
  the clean end of the stream is reported as a protocol error, fatal for the connection.
\<close>

theorem early_close_is_fatal:
  "legal stream_step stream_guard fresh
     [SvOpen, SvWriterStart, SvShutdown (Ready (Inr ())) True, SvWriterSelect, SvWriterBuffer 0,
      SvWriterTransmit, SvMessage [1], SvClosed]
   \<and> (let s = foldl stream_step fresh
        [SvOpen, SvWriterStart, SvShutdown (Ready (Inr ())) True, SvWriterSelect, SvWriterBuffer 0,
         SvWriterTransmit, SvMessage [1], SvClosed]
      in wire_out s = [encode_fin] \<and> peer_fin s
         \<and> fatal_calls s = [(EcProtocolError, ''data channel closed mid-stream'')])"
  by (simp add: fresh_eval)

end
