(* ===== verification/KpsConnProps.thy ===== *)
theory KpsConnProps
  imports KpsConnInv KpsStreamProps
begin

text \<open>
  The properties of a connection over every interleaving of its callbacks, tasks, streams
  and the application's calls.
\<close>

section \<open>Reachable connections\<close>

definition conn_reachable :: "WebrtcConn \<Rightarrow> bool" where
  "conn_reachable c \<longleftrightarrow>
     (\<exists>addr es. legal conn_step conn_guard (WebrtcConn_new addr) es
        \<and> c = foldl conn_step (WebrtcConn_new addr) es)"

lemma conn_reachable_inv: "conn_reachable c \<Longrightarrow> conn_inv c"
  unfolding conn_reachable_def by (blast intro: conn.run_inv conn_new_inv)

lemma conn_reachable_run:
  assumes "conn_reachable c" and "legal conn_step conn_guard c es"
  shows "conn_reachable (foldl conn_step c es)"
proof -
  from assms(1) obtain addr fs where "legal conn_step conn_guard (WebrtcConn_new addr) fs"
    "c = foldl conn_step (WebrtcConn_new addr) fs"
    unfolding conn_reachable_def by blast
  moreover from this assms(2) have "legal conn_step conn_guard (WebrtcConn_new addr) (fs @ es)"
    by (simp add: legal_append)
  ultimately show ?thesis unfolding conn_reachable_def by (metis foldl_append)
qed

lemma conn_new_reachable: "conn_reachable (WebrtcConn_new addr)"
  unfolding conn_reachable_def by (intro exI [of _ addr] exI [of _ "[]"]) simp

section \<open>Runs\<close>

definition here :: SocketAddr where
  "here = \<lparr>sa_ip = V4 2130706433, sa_port = 4433\<rparr>"

definition fresh_conn :: WebrtcConn where
  "fresh_conn = WebrtcConn_new here"

text \<open>Both HELLOs, then a stream of the peer that carries two bytes, one of them read.\<close>

definition greet :: "conn_ev list" where
  "greet = [CvControlOpen, CvHelloSent True, CvControl (encode_hello DEFAULT_FLOW_LIMITS)]"

definition greeted :: WebrtcConn where
  "greeted = foldl conn_step fresh_conn greet"

definition visited :: WebrtcConn where
  "visited = foldl conn_step greeted [CvIncoming DcOpen, CvSurface 1 True, CvAccept]"

definition served :: WebrtcConn where
  "served = foldl conn_step visited [CvStream 1 (SvMessage [0, 8, 9]), CvStream 1 (SvRead 3 1)]"

lemma hello_decodes [simp]: "decode_control (encode_hello DEFAULT_FLOW_LIMITS) = Inr (CtlHello WIRE_VERSION DEFAULT_FLOW_LIMITS)"
  using control.dec_enc [of "CtlHello WIRE_VERSION DEFAULT_FLOW_LIMITS"] by simp

lemmas conn_defs = WebrtcConn_new_def send_hello_def send_hello_finish_def on_control_def on_hello_def check_and_flush_def
  hello_check_def flush_staged_def on_flow_conn_def control_send_def spawn_def finish_task_def handle_incoming_def
  new_conn_stream_def put_conn_stream_def surface_def inc_push_def inc_stage_def accept_stream_def inc_pop_def hand_out_def
  stream_event_def load_def fatal_def fatal_send_def fatal_finish_def mark_def mark_swap_def mark_store_def pc_close_def
  watch_step_def watch_ready_def open_begin_def open_established_def wait_established_def open_slot_def open_channel_def
  open_ready_def call_abandon_def close_begin_def close_finish_def send_close_and_flush_def close_result_def
  unsupported_finish_def reserved_channel_lost_def conn_error_def

lemma greeted_value:
  "greeted = fresh_conn\<lparr>conn_flow := hello_engine, hello_sent := True, hello_received := True, established := True,
     hello_notified := 1, control_out := [encode_hello DEFAULT_FLOW_LIMITS]\<rparr>"
  by (simp add: greeted_def greet_def fresh_conn_def conn_defs hello_engine_def) (simp add: ConnFlow_new_def)

lemma greeted_reachable: "conn_reachable greeted"
  unfolding greeted_def fresh_conn_def
  by (rule conn_reachable_run [OF conn_new_reachable]) (simp add: greet_def conn_defs)

definition host_engine :: ConnFlow where
  "host_engine = hello_engine\<lparr>peer_opened_streams := 1\<rparr>"

definition guest :: WebrtcStream where
  "guest = Stream_new True False True host_engine"

lemmas guest_eval = guest_def host_engine_def Stream_new_def hello_engine_def hello_eval stream_eval

lemma hello_engine_facts:
  "next_id hello_engine = 0" "peer_stream_opened hello_engine = (Inr (), host_engine)" "next_id host_engine = 0"
  by (simp_all add: guest_eval)

lemma guest_facts:
  "guest\<lparr>sh_flow := sh_flow guest, is_teardown := False\<rparr> = guest" "sh_id guest = 1" "fatal_calls guest = []"
  "dc_closed guest = False"
  by (simp_all add: guest_eval)

lemma visited_value:
  "visited = greeted\<lparr>conn_flow := sh_flow guest, conn_streams := [1 \<mapsto> guest], inc_notified := 1, handed_out := [1]\<rparr>"
  unfolding visited_def greeted_value
  by (simp add: conn_defs fresh_conn_def hello_engine_facts Let_def)
     (simp add: guest_def hello_engine_facts new_stream_def Let_def)

lemma visited_reachable: "conn_reachable visited"
  unfolding visited_def
  by (rule conn_reachable_run [OF greeted_reachable])
     (simp add: greeted_value conn_defs fresh_conn_def hello_engine_facts Let_def)

definition served_stream :: WebrtcStream where
  "served_stream = stream_step (stream_step guest (SvMessage [0, 8, 9])) (SvRead 3 1)"

lemma told_facts:
  "stream_step guest (SvMessage [0, 8, 9])\<lparr>sh_flow := sh_flow (stream_step guest (SvMessage [0, 8, 9])), is_teardown := False\<rparr>
     = stream_step guest (SvMessage [0, 8, 9])"
  "fatal_calls (stream_step guest (SvMessage [0, 8, 9])) = []" "handle_live (stream_step guest (SvMessage [0, 8, 9]))"
  "\<not> close_write_pending (stream_step guest (SvMessage [0, 8, 9]))"
  by (simp_all add: guest_eval)

lemma served_stream_facts:
  "inbuf served_stream = [[9]]" "delivered served_stream = [8]" "holds_slot served_stream" "data_q served_stream = []"
  "writer_at served_stream = WrWaiting" "pending_grant served_stream = 0" "lost_credit served_stream = 0"
  "fatal_calls served_stream = []" "sh_id served_stream = 1" "retired_fired served_stream = False"
  by (simp_all add: served_stream_def holds_slot_def guest_eval)

lemma served_value:
  "served = greeted\<lparr>conn_flow := sh_flow served_stream, conn_streams := [1 \<mapsto> served_stream], inc_notified := 1, handed_out := [1]\<rparr>"
  using served_stream_facts(8,9) told_facts guest_facts
  by (simp add: served_def visited_value greeted_value fresh_conn_def WebrtcConn_new_def stream_event_def load_def
      put_conn_stream_def Let_def served_stream_def [symmetric] del: stream_step.simps One_nat_def)

lemma served_reachable: "conn_reachable served"
proof -
  have "legal conn_step conn_guard visited [CvStream 1 (SvMessage [0, 8, 9]), CvStream 1 (SvRead 3 1)]"
    using guest_facts told_facts
    by (simp add: visited_value greeted_value fresh_conn_def WebrtcConn_new_def stream_event_def load_def
      put_conn_stream_def Let_def del: stream_step.simps)
  then show ?thesis unfolding served_def by (rule conn_reachable_run [OF visited_reachable])
qed

section \<open>Sums over the streams of a connection\<close>

lemma map_total_transfer:
  assumes "finite (dom m)" and "dom n \<subseteq> dom m"
    and same: "\<And>k v. m k = Some v \<Longrightarrow> h v = (case n k of Some t \<Rightarrow> g t | None \<Rightarrow> 0)"
  shows "map_total g n = map_total h m"
  unfolding map_total_def
proof (rule sum.mono_neutral_cong_left [OF assms(1,2)])
  show "\<forall>k\<in>dom m - dom n. h (the (m k)) = 0"
    using same by (auto simp: dom_def)
  show "g (the (n k)) = h (the (m k))" if "k \<in> dom n" for k
    using that assms(2) same by (fastforce simp: dom_def)
qed

definition stream_credit :: "WebrtcStream \<Rightarrow> nat" where
  "stream_credit s =
     (if retired_fired s then 0
      else queued_credit (data_q s) + held_credit s + unat (pending_grant s) + lost_credit s)"

lemma stream_accounts:
  assumes "streams_ok f m" and "m i = Some s"
  shows "stream_credit s = (case streams f i of Some t \<Rightarrow> unat (send_reserved t) | None \<Rightarrow> 0)"
    and "inbuf_bytes s = (case streams f i of Some t \<Rightarrow> unread t | None \<Rightarrow> 0)"
proof -
  have id: "sh_id s = i" and inv: "end_inv (s\<lparr>sh_flow := f\<rparr>)" using streams_okD(4,5) [OF assms] by blast+
  then have own: "own f i = (if retired_fired s then None
      else Some (queued_credit (data_q s) + held_credit s + unat (pending_grant s) + lost_credit s,
                 inbuf_bytes s, read_cancel s))"
    by (simp add: end_inv_def stream_inv_def flow_ok_def held_credit_def inbuf_bytes_def)
  have "retired_fired s \<Longrightarrow> inbuf_bytes s = 0"
    using inv by (simp add: end_inv_def stream_inv_def state_ok_def retire_due_def inbuf_bytes_def)
  with own show "stream_credit s = (case streams f i of Some t \<Rightarrow> unat (send_reserved t) | None \<Rightarrow> 0)"
    and "inbuf_bytes s = (case streams f i of Some t \<Rightarrow> unread t | None \<Rightarrow> 0)"
    by (auto simp: own_def stream_credit_def split: if_splits)
qed

section \<open>Credit and buffers\<close>

lemma reserved_total:
  assumes "conn_inv c"
  shows "unat (conn_reserved (conn_flow c)) = map_total stream_credit (conn_streams c)"
    and "unat (conn_sent (conn_flow c)) + unat (conn_reserved (conn_flow c)) \<le> unat (peer_max_data (conn_flow c))"
proof -
  have so: "streams_ok (conn_flow c) (conn_streams c)" using assms by (simp add: conn_inv_def)
  have inv: "send_inv (conn_flow c)" using streams_okD(1) [OF so] by (simp add: flow_inv_def)
  have "map_total (\<lambda>t. unat (send_reserved t)) (streams (conn_flow c)) = map_total stream_credit (conn_streams c)"
    using streams_okD(2,3) [OF so] stream_accounts(1) [OF so] by (rule map_total_transfer)
  with inv show "unat (conn_reserved (conn_flow c)) = map_total stream_credit (conn_streams c)"
    and "unat (conn_sent (conn_flow c)) + unat (conn_reserved (conn_flow c)) \<le> unat (peer_max_data (conn_flow c))"
    by (simp_all add: send_inv_def)
qed



text \<open>
  C19: Memory is bounded whatever the peer sends: the bytes buffered and not yet read, over
  all streams of a connection together, never exceed the connection window of 8 MiB.
\<close>

theorem conn_buffer_bounded:
  assumes "conn_reachable c"
  shows "map_total inbuf_bytes (conn_streams c) \<le> 8388608"
proof -
  let ?f = "conn_flow c"
  have inv: "conn_inv c" using assms by (rule conn_reachable_inv)
  then have so: "streams_ok ?f (conn_streams c)" and lim: "local_limits ?f = DEFAULT_FLOW_LIMITS"
    by (simp_all add: conn_inv_def hello_ok_def)
  have ri: "recv_inv ?f" using streams_okD(1) [OF so] by (simp add: flow_inv_def)
  note b = recv_inv_bounds [OF ri]
  have w: "unat (max_data (local_limits ?f)) = 8388608"
    unfolding lim by (simp add: DEFAULT_FLOW_LIMITS_def push_bit_eq_mult)
  have "map_total unread (streams ?f) = map_total inbuf_bytes (conn_streams c)"
    using streams_okD(2,3) [OF so] stream_accounts(2) [OF so] by (rule map_total_transfer)
  moreover have "unat (conn_consumed ?f) + map_total unread (streams ?f) \<le> unat (conn_received ?f)"
    using ri by (simp add: recv_inv_def)
  moreover have "unat (conn_received ?f) \<le> unat (conn_advertised_at ?f) + 8388608"
  proof -
    have "unat (conn_advertised_at ?f + max_data (local_limits ?f)) = unat (conn_advertised_at ?f) + 8388608"
      using b w by (subst unat_window_sum) simp_all
    moreover have "conn_received ?f \<le> sat (conn_advertised_at ?f + max_data (local_limits ?f))"
      using ri unfolding recv_inv_def by metis
    ultimately show ?thesis by (simp add: u64_simps)
  qed
  ultimately show ?thesis using b(3) by linarith
qed

theorem conn_buffer_bounded_witness:
  "map_total inbuf_bytes (conn_streams served) \<le> 8388608"
  by (rule conn_buffer_bounded [OF served_reachable])

text \<open>
  C20: At most 100 streams of the peer are alive at a time: those that were opened and have
  not retired hold a slot each, and the slots never exceed MAX_STREAMS.
\<close>

theorem conn_peer_streams_bounded:
  assumes "conn_reachable c"
  shows "card {i. \<exists>s. conn_streams c i = Some s \<and> holds_slot s} \<le> 100"
proof -
  let ?f = "conn_flow c" and ?m = "conn_streams c"
  have inv: "conn_inv c" using assms by (rule conn_reachable_inv)
  then have so: "streams_ok ?f ?m" and lim: "local_limits ?f = DEFAULT_FLOW_LIMITS"
    by (simp_all add: conn_inv_def hello_ok_def)
  have "{i. \<exists>s. ?m i = Some s \<and> holds_slot s} = {i \<in> dom ?m. holds_slot (the (?m i))}" by (auto simp: dom_def)
  then have "card {i. \<exists>s. ?m i = Some s \<and> holds_slot s} = map_total (\<lambda>s. of_bool (holds_slot s)) ?m"
    using streams_okD(2) [OF so] by (simp add: map_total_def of_bool_def sum.If_cases Int_def)
  moreover have ci: "count_inv ?f" using streams_okD(1) [OF so] by (simp add: flow_inv_def)
  note count_inv_peer_bounds [OF ci]
  moreover have "unat (max_streams (local_limits ?f)) = 100" unfolding lim by (simp add: DEFAULT_FLOW_LIMITS_def)
  ultimately show ?thesis using streams_okD(6) [OF so] by linarith
qed

theorem conn_peer_streams_bounded_witness:
  "card {i. \<exists>s. conn_streams served i = Some s \<and> holds_slot s} \<le> 100"
  by (rule conn_peer_streams_bounded [OF served_reachable])

end
