(* ===== verification/KpsConnClose.thy ===== *)
theory KpsConnClose
  imports KpsConnProps
begin

text \<open>
  Establishment, errors and the end of a connection: the HELLO gate, what the control channel
  accepts, the first close reason, fatal errors, the datagram queue, and the interleavings in
  which the code departs from its documentation.
\<close>

section \<open>Establishment\<close>



lemma distinct_count_le_1: "(\<And>i. count (mset xs) i \<le> 1) \<Longrightarrow> distinct xs"
proof (induction xs)
  case (Cons x xs)
  have "count (mset xs) i \<le> count (mset (x # xs)) i" for i by simp
  then have "count (mset xs) i \<le> 1" for i using Cons.prems [of i] by (rule order_trans)
  moreover have "count (mset xs) x = 0" using Cons.prems [of x] by simp
  ultimately show ?case using Cons.IH by (simp add: count_mset_0_iff)
qed simp

lemma distinct_places:
  assumes "conn_reachable c"
  shows "distinct (handed_out c @ inc_queue c @ inc_staged c)"
proof -
  have "places_ok (handed_out c) (unowned c) (conn_streams c)"
    using conn_reachable_inv [OF assms] by (simp add: conn_inv_def)
  then have "count (mset (handed_out c) + unowned c) i \<le> 1" for i unfolding places_ok_def by blast
  moreover have "count (mset (handed_out c @ inc_queue c @ inc_staged c)) i \<le> count (mset (handed_out c) + unowned c) i" for i
    by (simp add: unowned_def)
  ultimately have le: "count (mset (handed_out c @ inc_queue c @ inc_staged c)) i \<le> 1" for i by (rule order_trans [rotated])
  then show ?thesis by (rule distinct_count_le_1)
qed

text \<open>
  C22: Each stream of the peer is handed out at most once: over what the application was
  given, the accept queue and the staging list, no stream occurs twice.
\<close>

theorem streams_handed_once:
  assumes "conn_reachable c"
  shows "distinct (handed_out c @ inc_queue c @ inc_staged c)"
  using assms by (rule distinct_places)

theorem streams_handed_once_witness:
  "distinct (handed_out served @ inc_queue served)"
  using streams_handed_once [OF served_reachable] by auto



section \<open>The control channel\<close>

definition control_violation :: "bytes \<Rightarrow> WebrtcConn \<Rightarrow> bool" where
  "control_violation data c \<longleftrightarrow>
     (\<forall>m. \<not> control_grammar data m)
     \<or> (\<exists>v l. control_grammar data (CtlHello v l) \<and> hello_received c)
     \<or> (\<exists>v. (control_grammar data (CtlMaxData v) \<or> control_grammar data (CtlMaxStreams v)) \<and> \<not> hello_received c)"



section \<open>The end of a connection\<close>

definition closed_as :: "StreamError option \<Rightarrow> WebrtcConn \<Rightarrow> bool" where
  "closed_as err c \<longleftrightarrow> cs_closed c \<and> cs_err c = err"

lemma closed_as_frame [simp]:
  "closed_as err (c\<lparr>tasks := x1\<rparr>) = closed_as err c" "closed_as err (c\<lparr>control_out := x2\<rparr>) = closed_as err c"
  "closed_as err (c\<lparr>conn_flow := x3\<rparr>) = closed_as err c" "closed_as err (c\<lparr>tearing_down := x4\<rparr>) = closed_as err c"
  "closed_as err (c\<lparr>watcher := x5\<rparr>) = closed_as err c" "closed_as err (c\<lparr>dg_rx := x6\<rparr>) = closed_as err c"
  "closed_as err (c\<lparr>hello_sent := x7\<rparr>) = closed_as err c" "closed_as err (c\<lparr>hello_received := x8\<rparr>) = closed_as err c"
  "closed_as err (c\<lparr>inc_queue := x9\<rparr>) = closed_as err c" "closed_as err (c\<lparr>inc_staged := x10\<rparr>) = closed_as err c"
  "closed_as err (c\<lparr>control_writer_live := x11\<rparr>) = closed_as err c" "closed_as err (c\<lparr>handed_out := x12\<rparr>) = closed_as err c"
  "closed_as err (c\<lparr>stream_seq := x13\<rparr>) = closed_as err c" "closed_as err (c\<lparr>conn_streams := x14\<rparr>) = closed_as err c"
  "closed_as err (c\<lparr>inc_notified := x15\<rparr>) = closed_as err c" "closed_as err (c\<lparr>hello_notified := x16\<rparr>) = closed_as err c"
  "closed_as err (c\<lparr>established := x17\<rparr>) = closed_as err c" "closed_as err (c\<lparr>pc_close_calls := x18\<rparr>) = closed_as err c"
  by (simp_all add: closed_as_def)

lemma closed_as_helpers [simp]:
  "closed_as err (spawn t c) = closed_as err c" "closed_as err (finish_task t c) = closed_as err c"
  "closed_as err (fatal code msg c) = closed_as err c" "closed_as err (control_send m ok c) = closed_as err c"
  "closed_as err (pc_close c) = closed_as err c" "closed_as err (on_flow_conn g c) = closed_as err c"
  "closed_as err (check_and_flush c) = closed_as err c" "closed_as err (put_conn_stream s c) = closed_as err c"
  by (simp_all add: spawn_def finish_task_def fatal_def control_send_def pc_close_def on_flow_conn_def
      check_and_flush_def hello_check_def flush_staged_def put_conn_stream_def)

lemma closed_as_mark [simp]: "closed_as err c \<Longrightarrow> closed_as err (mark err' c)"
  by (simp add: closed_as_def mark_def)

lemma closed_as_fatals [simp]: "closed_as err (fatals calls c) = closed_as err c"
  by (induction calls c rule: fatals.induct) simp_all

lemma closed_as_stream [simp]: "closed_as err (stream_event i e c) = closed_as err c"
  by (simp add: stream_event_def Let_def split: option.split)

lemma closed_as_step:
  assumes "closed_as err c"
  shows "closed_as err (conn_step c e)"
  using assms
  by (cases e)
     (simp_all add: conn_defs(2-5) new_conn_stream_def handle_incoming_def surface_def inc_push_def inc_stage_def
       accept_stream_def inc_pop_def hand_out_def fatal_send_def fatal_finish_def watch_step_def open_begin_def
       open_established_def open_slot_def open_channel_def open_ready_def call_abandon_def close_begin_def
       close_finish_def send_close_and_flush_def unsupported_finish_def reserved_channel_lost_def control_writer_def
       on_datagram_def receive_datagram_def Let_def closed_as_frame closed_as_helpers
       split: option.split list.split sum.split poll.split prod.split ControlMsg.split watch.split watch_branch.split
         conn_task.split)

interpretation closed: machine conn_step conn_guard "closed_as err"
  by unfold_locales (rule closed_as_step)



lemma watcher_fails_engine:
  assumes "watcher c \<noteq> WatchDone" and "\<not> is_failed (conn_flow c)" and "cs_err c = Some se"
  shows "fst (poll_reserve w i n (conn_flow (watch_step BrClosed c))) = Ready (Inl (ErrStream se))"
    and "fst (reserve_stream_slot (conn_flow (watch_step BrClosed c))) = Ready (Inl (ErrStream se))"
proof -
  have "watcher c = WatchHello \<or> watcher c = WatchClose" using assms(1) by (cases "watcher c") simp_all
  then have f: "conn_flow (watch_step BrClosed c) = flow_fail (Some se) (conn_flow c)"
    using assms(3) by (auto simp: watch_step_def on_flow_conn_def)
  have "is_failed (flow_fail (Some se) (conn_flow c))" "failed (flow_fail (Some se) (conn_flow c)) = Some se"
    using assms(2) by (simp_all add: flow_fail_def)
  then show "fst (poll_reserve w i n (conn_flow (watch_step BrClosed c))) = Ready (Inl (ErrStream se))"
    "fst (reserve_stream_slot (conn_flow (watch_step BrClosed c))) = Ready (Inl (ErrStream se))"
    by (simp_all add: f poll_reserve_def reserve_stream_slot_def failure_def Let_def)
qed



end
