(* ===== verification/KpsConnRaces.thy ===== *)
theory KpsConnRaces
  imports KpsConnClose KpsStreamView
begin

text \<open>
  Interleavings in which the connection departs from its documentation: a stream that is
  staged after establishment, an abandoned \<open>open_stream\<close>, a refused version, the two stores
  of \<open>mark\<close>, the full datagram queue, and a HELLO timeout at the moment of establishment.
\<close>

section \<open>A stream staged too late\<close>


definition staged_late :: "u64 \<Rightarrow> WebrtcConn \<Rightarrow> bool" where
  "staged_late i c \<longleftrightarrow> established c \<and> i \<in> set (inc_staged c)"

lemma staged_late_frame [simp]:
  "staged_late i (c\<lparr>tasks := x1\<rparr>) = staged_late i c" "staged_late i (c\<lparr>control_out := x2\<rparr>) = staged_late i c"
  "staged_late i (c\<lparr>conn_flow := x3\<rparr>) = staged_late i c" "staged_late i (c\<lparr>tearing_down := x4\<rparr>) = staged_late i c"
  "staged_late i (c\<lparr>watcher := x5\<rparr>) = staged_late i c" "staged_late i (c\<lparr>dg_rx := x6\<rparr>) = staged_late i c"
  "staged_late i (c\<lparr>hello_sent := x7\<rparr>) = staged_late i c" "staged_late i (c\<lparr>hello_received := x8\<rparr>) = staged_late i c"
  "staged_late i (c\<lparr>inc_queue := x9\<rparr>) = staged_late i c" "staged_late i (c\<lparr>cs_err := x10\<rparr>) = staged_late i c"
  "staged_late i (c\<lparr>control_writer_live := x11\<rparr>) = staged_late i c" "staged_late i (c\<lparr>handed_out := x12\<rparr>) = staged_late i c"
  "staged_late i (c\<lparr>stream_seq := x13\<rparr>) = staged_late i c" "staged_late i (c\<lparr>conn_streams := x14\<rparr>) = staged_late i c"
  "staged_late i (c\<lparr>inc_notified := x15\<rparr>) = staged_late i c" "staged_late i (c\<lparr>cs_notified := x16\<rparr>) = staged_late i c"
  "staged_late i (c\<lparr>cs_closed := x17\<rparr>) = staged_late i c" "staged_late i (c\<lparr>pc_close_calls := x18\<rparr>) = staged_late i c"
  by (simp_all add: staged_late_def)

lemma staged_late_stage [simp]: "staged_late i c \<Longrightarrow> staged_late i (c\<lparr>inc_staged := inc_staged c @ [j]\<rparr>)"
  by (simp add: staged_late_def)

lemma staged_late_flush [simp]: "staged_late i c \<Longrightarrow> staged_late i (check_and_flush c)"
  by (simp add: staged_late_def check_and_flush_def hello_check_def)

lemma staged_late_helpers [simp]:
  "staged_late i (spawn t c) = staged_late i c" "staged_late i (finish_task t c) = staged_late i c"
  "staged_late i (fatal code msg c) = staged_late i c" "staged_late i (control_send m ok c) = staged_late i c"
  "staged_late i (pc_close c) = staged_late i c" "staged_late i (on_flow_conn g c) = staged_late i c"
  "staged_late i (put_conn_stream s c) = staged_late i c" "staged_late i (mark err c) = staged_late i c"
  by (simp_all add: spawn_def finish_task_def fatal_def control_send_def pc_close_def on_flow_conn_def
      put_conn_stream_def mark_def mark_swap_def mark_store_def)

lemma staged_late_fatals [simp]: "staged_late i (fatals calls c) = staged_late i c"
  by (induction calls c rule: fatals.induct) simp_all

lemma staged_late_stream [simp]: "staged_late i (stream_event j e c) = staged_late i c"
  by (simp add: stream_event_def Let_def split: option.split)

lemma staged_late_step:
  assumes "staged_late i c"
  shows "staged_late i (conn_step c e)"
  using assms
  by (cases e)
     (simp_all add: conn_defs(2-5) new_conn_stream_def handle_incoming_def surface_def inc_push_def inc_stage_def
       accept_stream_def inc_pop_def hand_out_def fatal_send_def fatal_finish_def watch_step_def open_begin_def
       open_established_def open_slot_def open_channel_def open_ready_def call_abandon_def close_begin_def
       close_finish_def send_close_and_flush_def unsupported_finish_def reserved_channel_lost_def control_writer_def
       on_datagram_def receive_datagram_def Let_def
       split: option.split list.split sum.split poll.split prod.split ControlMsg.split watch.split watch_branch.split
         conn_task.split)

interpretation late: machine conn_step conn_guard "staged_late i"
  by unfold_locales (rule staged_late_step)

text \<open>
  A stream of the peer can be lost: when it is staged after the staging list was flushed
  (the callback read \<open>is_established\<close> before, and staged it after), no later event surfaces
  it. Whatever happens then, the application is never handed this stream.
\<close>

theorem staged_stream_lost:
  assumes "conn_reachable c" and "established c" and "i \<in> set (inc_staged c)"
    and "legal conn_step conn_guard c es"
  shows "i \<notin> set (handed_out (foldl conn_step c es)) \<and> fst (accept_stream (foldl conn_step c es)) \<noteq> Ready (Inr i)"
proof -
  let ?d = "foldl conn_step c es"
  have "staged_late i c" using assms(2,3) by (simp add: staged_late_def)
  then have "staged_late i ?d" using assms(4) by (rule late.run_inv)
  then have "i \<in> set (inc_staged ?d)" by (simp add: staged_late_def)
  moreover have "distinct (handed_out ?d @ inc_queue ?d @ inc_staged ?d)"
    using conn_reachable_run [OF assms(1,4)] by (rule distinct_places)
  ultimately have "i \<notin> set (handed_out ?d)" and "i \<notin> set (inc_queue ?d)" by auto
  then show ?thesis by (auto simp: accept_stream_def inc_pop_def split: list.split)
qed

text \<open>The run: the peer's stream arrives, both HELLOs pass, and only then the callback goes on.\<close>

definition late_run :: "conn_ev list" where
  "late_run = [CvControlOpen, CvIncoming DcOpen, CvHelloSent True, CvControl (encode_hello DEFAULT_FLOW_LIMITS), CvSurface 1 False]"

lemma new_engine_facts:
  "next_id (ConnFlow_new DEFAULT_FLOW_LIMITS) = 0"
  "\<exists>f. peer_stream_opened (ConnFlow_new DEFAULT_FLOW_LIMITS) = (Inr (), f) \<and> next_id f = 0"
  by (simp_all add: ConnFlow_new_def peer_stream_opened_def DEFAULT_FLOW_LIMITS_def)

definition late_engine :: ConnFlow where
  "late_engine = snd (peer_stream_opened (ConnFlow_new DEFAULT_FLOW_LIMITS))"

definition late_stream :: WebrtcStream where
  "late_stream = Stream_new True False True late_engine"

definition called :: WebrtcConn where
  "called = foldl conn_step fresh_conn [CvControlOpen, CvIncoming DcOpen]"

lemma late_facts: "peer_stream_opened (ConnFlow_new DEFAULT_FLOW_LIMITS) = (Inr (), late_engine)" "sh_id late_stream = 1"
  "next_id late_engine = 0" "snd (new_stream late_engine) = sh_flow late_stream"
  using new_engine_facts(2) by (auto simp: late_engine_def late_stream_def Stream_new_def new_stream_def Let_def)

lemma called_value:
  "called = fresh_conn\<lparr>hello_sent := True, tasks := [TkHello, TkSurface 1 False], conn_flow := sh_flow late_stream,
     conn_streams := [1 \<mapsto> late_stream]\<rparr>"
  using late_facts by (simp add: called_def fresh_conn_def conn_defs late_stream_def [symmetric] Let_def)

lemma called_legal: "legal conn_step conn_guard fresh_conn [CvControlOpen, CvIncoming DcOpen]"
  using new_engine_facts(1) by (simp add: fresh_conn_def conn_defs)

definition crossed :: WebrtcConn where
  "crossed = foldl conn_step called [CvHelloSent True, CvControl (encode_hello DEFAULT_FLOW_LIMITS)]"

lemma crossed_facts: "established crossed" "inc_staged crossed = []" "tasks crossed = [TkSurface 1 False]"
  by (simp_all add: crossed_def called_value fresh_conn_def conn_defs)

lemma late_run_split: "foldl conn_step fresh_conn late_run = surface 1 False crossed"
  by (simp add: late_run_def crossed_def called_def)

lemma late_run_legal: "legal conn_step conn_guard fresh_conn late_run"
proof -
  have "legal conn_step conn_guard called [CvHelloSent True, CvControl (encode_hello DEFAULT_FLOW_LIMITS)]"
    by (simp add: called_value fresh_conn_def)
  moreover have "legal conn_step conn_guard crossed [CvSurface 1 False]" by (simp add: crossed_facts)
  moreover have e: "late_run = [CvControlOpen, CvIncoming DcOpen]
      @ [CvHelloSent True, CvControl (encode_hello DEFAULT_FLOW_LIMITS)] @ [CvSurface 1 False]" by (simp add: late_run_def)
  ultimately show ?thesis
    using called_legal unfolding e legal_append called_def [symmetric] crossed_def [symmetric] by blast
qed

lemma late_run_stages: "established (foldl conn_step fresh_conn late_run)" "inc_staged (foldl conn_step fresh_conn late_run) = [1]"
  by (simp_all add: late_run_split surface_def inc_stage_def finish_task_def crossed_facts)

theorem staged_stream_lost_witness:
  "fst (accept_stream (foldl conn_step (foldl conn_step fresh_conn late_run) [CvAccept, CvAccept])) \<noteq> Ready (Inr 1)"
proof -
  have "conn_reachable (foldl conn_step fresh_conn late_run)"
    using conn_new_reachable [of here] late_run_legal unfolding fresh_conn_def by (rule conn_reachable_run)
  moreover have "1 \<in> set (inc_staged (foldl conn_step fresh_conn late_run))" by (simp add: late_run_stages)
  moreover have "legal conn_step conn_guard (foldl conn_step fresh_conn late_run) [CvAccept, CvAccept]" by simp
  ultimately show ?thesis using staged_stream_lost [OF _ late_run_stages(1)] by blast
qed

section \<open>Smaller departures\<close>

text \<open>Dropping the future of \<open>open_stream\<close> while the channel is created keeps its slot reserved.\<close>

lemma abandoned_open_leaks_slot:
  assumes "TkOpenChannel \<in> set (tasks c)"
  shows "streams_reserved (conn_flow (call_abandon TkOpenChannel c)) = streams_reserved (conn_flow c)"
    and "Suc (count_list (tasks (call_abandon TkOpenChannel c)) TkOpenChannel) = count_list (tasks c) TkOpenChannel"
  using assms count_list_remove1 [of TkOpenChannel "tasks c"] count_list_0_iff [of "tasks c" TkOpenChannel]
  by (simp_all add: call_abandon_def finish_task_def)

text \<open>
  A HELLO with an unknown version counts as received: when our own HELLO is sent after it,
  the connection establishes and \<open>wait_established\<close> succeeds, with no credit to use.
\<close>

lemma refused_version_establishes:
  assumes "version \<noteq> WIRE_VERSION"
  shows "let c = send_hello_finish True (on_hello version l (send_hello fresh_conn))
         in wait_established b c = Ready (Inr ()) \<and> \<not> cs_closed c \<and> peer_max_data (conn_flow c) = 0"
  using assms by (simp add: Let_def fresh_conn_def conn_defs) (simp add: ConnFlow_new_def)

text \<open>Between its two stores \<open>mark\<close> shows a closed connection without a reason.\<close>

lemma closing_looks_clean:
  assumes "\<not> cs_closed c" and "cs_err c = None"
  shows "conn_error (mark_swap c) = None" and "close_result (mark_swap c) = ErrConnClosed"
    and "conn_error (mark (Some e) c) = Some (ErrStream e)"
  using assms by (simp_all add: conn_error_def close_result_def mark_def mark_swap_def mark_store_def)

text \<open>A full datagram queue drops the datagram that arrives, not the oldest.\<close>

lemma full_queue_drops_newest: "length (dg_rx c) = 256 \<Longrightarrow> on_datagram p c = c"
  by (simp add: on_datagram_def)

section \<open>A timeout at the moment of establishment\<close>

text \<open>
  The watcher task that takes its timeout branch ends without failing the engine. If the HELLO
  exchange has just completed, writers and openers may already wait there.
\<close>

definition failing_of :: "WebrtcStream \<Rightarrow> bool" where
  "failing_of s = is_failed (sh_flow s)"

lemma failing_engine [simp]:
  "is_failed (fail_send i f) = is_failed f" "is_failed (mark_cancelled i f) = is_failed f"
  "is_failed (release i n f) = is_failed f" "is_failed (on_peer_max_stream_data i v f) = is_failed f"
  "is_failed (snd (on_consumed i n f)) = is_failed f" "is_failed (snd (poll_reserve w i n f)) = is_failed f"
  "is_failed (snd (on_data_received i n f)) = is_failed f" "is_failed (commit i n f) = is_failed f"
  "is_failed (drop_stream i f) = is_failed f" "is_failed (peer_stream_retired f) = is_failed f"
  by (simp_all add: flow_op_defs on_data_received_def poll_reserve_def on_consumed_def consume_stream_def consume_conn_def
      Let_def split: option.split prod.split)

lemma failing_conn_engine [simp]:
  "is_failed (on_peer_hello l f) = is_failed f" "is_failed (on_peer_max_data v f) = is_failed f"
  "is_failed (on_peer_max_streams v f) = is_failed f" "is_failed (snd (reserve_stream_slot f)) = is_failed f"
  "is_failed (commit_stream_slot f) = is_failed f" "is_failed (release_stream_slot f) = is_failed f"
  "is_failed (snd (peer_stream_opened f)) = is_failed f" "is_failed (snd (new_stream f)) = is_failed f"
  by (simp_all add: flow_op_defs new_stream_def reserve_stream_slot_def Let_def)

interpretation failing: engine_view failing_of
  by unfold_locales (simp_all add: failing_of_def maybe_retire_fields)

definition stranded :: "WebrtcConn \<Rightarrow> bool" where
  "stranded c \<longleftrightarrow> watcher c = WatchDone \<and> \<not> is_failed (conn_flow c)"

lemma stranded_frame [simp]:
  "stranded (c\<lparr>tasks := x1\<rparr>) = stranded c" "stranded (c\<lparr>control_out := x2\<rparr>) = stranded c"
  "stranded (c\<lparr>tearing_down := x4\<rparr>) = stranded c" "stranded (c\<lparr>dg_rx := x6\<rparr>) = stranded c"
  "stranded (c\<lparr>hello_sent := x7\<rparr>) = stranded c" "stranded (c\<lparr>hello_received := x8\<rparr>) = stranded c"
  "stranded (c\<lparr>inc_queue := x9\<rparr>) = stranded c" "stranded (c\<lparr>inc_staged := x10\<rparr>) = stranded c"
  "stranded (c\<lparr>control_writer_live := x11\<rparr>) = stranded c" "stranded (c\<lparr>handed_out := x12\<rparr>) = stranded c"
  "stranded (c\<lparr>stream_seq := x13\<rparr>) = stranded c" "stranded (c\<lparr>conn_streams := x14\<rparr>) = stranded c"
  "stranded (c\<lparr>inc_notified := x15\<rparr>) = stranded c" "stranded (c\<lparr>hello_notified := x16\<rparr>) = stranded c"
  "stranded (c\<lparr>established := x17\<rparr>) = stranded c" "stranded (c\<lparr>pc_close_calls := x18\<rparr>) = stranded c"
  "stranded (c\<lparr>cs_closed := x19\<rparr>) = stranded c" "stranded (c\<lparr>cs_err := x20\<rparr>) = stranded c"
  "stranded (c\<lparr>cs_notified := x21\<rparr>) = stranded c"
  "is_failed f = is_failed (conn_flow c) \<Longrightarrow> stranded (c\<lparr>conn_flow := f\<rparr>) = stranded c"
  by (simp_all add: stranded_def)

lemma stranded_helpers [simp]:
  "stranded (spawn t c) = stranded c" "stranded (finish_task t c) = stranded c" "stranded (mark err c) = stranded c"
  "stranded (fatal code msg c) = stranded c" "stranded (control_send m ok c) = stranded c"
  "stranded (pc_close c) = stranded c" "stranded (check_and_flush c) = stranded c" "stranded (hand_out i c) = stranded c"
  "is_failed (g (conn_flow c)) = is_failed (conn_flow c) \<Longrightarrow> stranded (on_flow_conn g c) = stranded c"
  "is_failed (sh_flow s) = is_failed (conn_flow c) \<Longrightarrow> stranded (put_conn_stream s c) = stranded c"
  by (simp_all add: spawn_def finish_task_def fatal_def control_send_def pc_close_def on_flow_conn_def mark_def mark_swap_def
      mark_store_def hand_out_def check_and_flush_def hello_check_def flush_staged_def put_conn_stream_def)

lemma stranded_fatals [simp]: "stranded (fatals calls c) = stranded c"
  by (induction calls c rule: fatals.induct) simp_all

lemma stranded_stream [simp]: "\<forall>op. e \<noteq> SvFlow op \<Longrightarrow> stranded (stream_event i e c) = stranded c"
proof -
  assume "\<forall>op. e \<noteq> SvFlow op"
  then have "is_failed (sh_flow (stream_step (load c s) e)) = is_failed (conn_flow c)" for s
    using failing.V_step [of e "load c s"] by (simp add: failing_of_def load_def)
  then show ?thesis by (simp add: stream_event_def Let_def split: option.split)
qed

lemma stranded_new_stream: "new_conn_stream p ready c = (i, d) \<Longrightarrow> stranded d = stranded c"
proof -
  obtain j f where n: "new_stream (conn_flow c) = (j, f)" by (cases "new_stream (conn_flow c)")
  then have "is_failed f = is_failed (conn_flow c)" using failing_conn_engine(8) [of "conn_flow c"] by simp
  then show "new_conn_stream p ready c = (i, d) \<Longrightarrow> stranded d = stranded c"
    by (auto simp: new_conn_stream_def Stream_new_def n Let_def)
qed

lemma stranded_incoming [simp]: "stranded (handle_incoming ready c) = stranded c"
proof (cases "peer_stream_opened (conn_flow c)")
  case (Pair r f)
  then have f: "is_failed f = is_failed (conn_flow c)" using failing_conn_engine(7) [of "conn_flow c"] by simp
  obtain i d where n: "new_conn_stream True ready (c\<lparr>conn_flow := f\<rparr>) = (i, d)" by (cases "new_conn_stream True ready (c\<lparr>conn_flow := f\<rparr>)")
  with stranded_new_stream [OF n] Pair f show ?thesis by (cases r) (simp_all add: handle_incoming_def n)
qed

lemma stranded_slot [simp]: "stranded (snd (open_slot c)) = stranded c"
proof (cases "reserve_stream_slot (conn_flow c)")
  case (Pair r f)
  then have f: "is_failed f = is_failed (conn_flow c)" using failing_conn_engine(4) [of "conn_flow c"] by simp
  with Pair show ?thesis by (simp add: open_slot_def split: poll.split sum.split)
qed

lemma stranded_channel [simp]: "stranded (snd (open_channel r c)) = stranded c"
proof (cases r)
  case (Inr ready)
  let ?c = "on_flow_conn commit_stream_slot (finish_task TkOpenChannel c)"
  obtain i d where n: "new_conn_stream False ready ?c = (i, d)" by (cases "new_conn_stream False ready ?c")
  with stranded_new_stream [OF n] Inr show ?thesis
    by (simp add: open_channel_def Let_def n)
qed (simp add: open_channel_def Let_def)

lemma stranded_step:
  assumes "stranded c" and "conn_guard c e"
  shows "stranded (conn_step c e)"
proof (cases e)
  case (CvStream i ev)
  with assms show ?thesis by simp
next
  case (CvWatch b)
  with assms show ?thesis by (simp add: stranded_def watch_ready_def)
qed (use assms(1) in \<open>simp_all add: conn_defs(2-5) surface_def inc_push_def inc_stage_def
       accept_stream_def inc_pop_def fatal_send_def fatal_finish_def open_begin_def
       open_established_def open_ready_def call_abandon_def close_begin_def
       close_finish_def send_close_and_flush_def unsupported_finish_def reserved_channel_lost_def control_writer_def
       on_datagram_def receive_datagram_def Let_def
       split: option.split list.split sum.split poll.split prod.split ControlMsg.split conn_task.split\<close>)

interpretation stranded: machine conn_step conn_guard stranded
  by unfold_locales (rule stranded_step)

text \<open>
  From then on no waiter is failed, whatever happens, although the connection ends: a slot that
  is waited for never comes back with an error.
\<close>

theorem timeout_strands:
  assumes "established c" and "watcher c = WatchHello" and "\<not> is_failed (conn_flow c)"
    and "legal conn_step conn_guard (watch_step BrTimeout c) es"
  shows "conn_guard c (CvWatch BrTimeout)
    \<and> fst (reserve_stream_slot (conn_flow (foldl conn_step (watch_step BrTimeout c) es))) \<noteq> Ready (Inl err)"
proof -
  have "stranded (watch_step BrTimeout c)" using assms(2,3) by (simp add: watch_step_def) (simp add: stranded_def)
  from stranded.run_inv [OF this assms(4)] assms(2) show ?thesis
    by (simp add: stranded_def reserve_stream_slot_def watch_ready_def)
qed

lemma timeout_strands_run:
  assumes "watcher c = WatchHello" and "\<not> tearing_down c" and "\<not> cs_closed c"
  shows "let d = foldl conn_step c [CvWatch BrTimeout, CvFatalSend EcTimeout DcOpen True, CvFatalFinish EcTimeout]
         in legal conn_step conn_guard c [CvWatch BrTimeout, CvFatalSend EcTimeout DcOpen True, CvFatalFinish EcTimeout]
            \<and> cs_closed d \<and> conn_flow d = conn_flow c"
  using assms by (simp add: conn_defs Let_def)

end
