(* ===== verification/KpsWireProps.thy ===== *)
theory KpsWireProps
  imports KpsFraming
begin

text \<open>
  The properties of the wire: both parsers decide the grammar of the protocol document, and
  encoding and parsing are inverse to each other.
\<close>

text \<open>
  C27: The parsers decide the wire grammar: \<open>parse_frame\<close> and \<open>decode_control\<close> accept a
  message with a meaning exactly when the tables of the protocol relate the two. A frame that
  is accepted has at most 16384 bytes, and every credit value it carries is in range.
\<close>

theorem wire_parsers_exact:
  "(parse_frame w = Inr f \<longleftrightarrow> frame_grammar w f)
   \<and> (decode_control w = Inr m \<longleftrightarrow> control_grammar w m)
   \<and> (frame_grammar w f \<longrightarrow> length w \<le> 16384 \<and> frame_ok f)
   \<and> (control_grammar w m \<longrightarrow> length w \<le> 26 \<and> control_in_range m)"
proof -
  have "control_grammar w m \<Longrightarrow> length w \<le> 26" by (auto elim!: control_grammar.cases)
  then show ?thesis
    using parsed_frame_size [of w f] parsed_frame_ok [of w f] decoded_control_in_range [of w m]
    by (simp add: parse_frame_grammar decode_control_grammar MAX_WEBRTC_FRAME_SIZE_def)
qed

theorem wire_parsers_exact_witness:
  "length [0x04, 0, 0, 0, 0, 0, 0, 1, 0 :: u8] \<le> 16384"
proof -
  have "frame_grammar (0x04 # u64_to_be_bytes 256) (PfMaxStreamData 256)" by (rule gr_credit) (simp add: MAX_OFFSET_def)
  moreover have "0x04 # u64_to_be_bytes 256 = [0x04, 0, 0, 0, 0, 0, 0, 1, 0]"
    by (simp add: u64_to_be_bytes_def be_bytes_def)
  ultimately show ?thesis
    using wire_parsers_exact [of "[0x04, 0, 0, 0, 0, 0, 0, 1, 0]" "PfMaxStreamData 256" "CtlMaxData 0"] by simp
qed

lemma codes_reencode:
  assumes "w = t # u32_to_be_bytes v"
  shows "t # u32_to_be_bytes (to_wire (from_wire v)) = w
    \<or> (11 < v \<and> t # u32_to_be_bytes (to_wire (from_wire v)) = t # u32_to_be_bytes 11)"
proof -
  have "v \<le> 10 \<or> v = 11 \<or> 11 < v"
    by (simp add: word_le_nat_alt word_less_nat_alt word_unat_eq_iff) arith
  then show ?thesis using assms by (auto simp: to_from_wire)
qed

text \<open>
  C28: The wire round trip, in both directions: whatever an encoder writes is parsed back to
  the same message, and a frame that was accepted is encoded to the same bytes, except that
  an error code above the registry comes back as the internal error.
\<close>

theorem wire_round_trip:
  "(frame_ok f \<longrightarrow> parse_frame (encode_frame f) = Inr f)
   \<and> (control_ok m \<longrightarrow> decode_control (encode_control m) = Inr m)
   \<and> (parse_frame w = Inr g \<longrightarrow>
        encode_frame g = w \<or> (\<exists>t v. w = t # u32_to_be_bytes v \<and> 11 < v \<and> encode_frame g = t # u32_to_be_bytes 11))"
proof -
  have "frame_grammar w g \<Longrightarrow>
      encode_frame g = w \<or> (\<exists>t v. w = t # u32_to_be_bytes v \<and> 11 < v \<and> encode_frame g = t # u32_to_be_bytes 11)"
    by (induction rule: frame_grammar.cases) (use codes_reencode in \<open>auto simp: encoder_defs\<close>)
  then show ?thesis by (simp add: frame.dec_enc control.dec_enc parse_frame_grammar)
qed

theorem wire_round_trip_witness:
  "parse_frame (encode_frame (PfData [1, 2])) = Inr (PfData [1, 2])
   \<and> decode_control (encode_control (CtlMaxStreams 100)) = Inr (CtlMaxStreams 100)
   \<and> encode_frame PfFin = [1]"
proof -
  have "parse_frame [1] = Inr PfFin" using grammar_parses [OF gr_fin] by simp
  then show ?thesis
    using wire_round_trip [of "PfData [1, 2]" "CtlMaxStreams 100" "[1]" PfFin]
    by (simp add: frame_consts MAX_OFFSET_def encode_fin_def)
qed

end
