(* ===== verification/KpsAddress.thy ===== *)
theory KpsAddress
  imports KpsError
begin

text \<open>
  \<open>src/libs/rust/kps/src/address.rs\<close>: the address \<open>ip:port:certhash\<close> with IPv6 hosts in
  brackets, and the certhash that carries the pinned digest. The base64url engine (a crate)
  is an argument. A string is its characters; the theory speaks of ASCII, and of other code
  points as characters that are printed as they are.
\<close>

section \<open>Addresses\<close>

record Address =
  ad_ip :: string
  ad_port :: u16
  ad_certhash :: string

text \<open>\<open>str::strip_prefix\<close>, \<open>str::split_once\<close> on a character, and the \<open>Debug\<close> form of a string.\<close>

definition strip_prefix :: "char \<Rightarrow> string \<Rightarrow> string option" where
  "strip_prefix c s = (case s of [] \<Rightarrow> None | x # xs \<Rightarrow> if x = c then Some xs else None)"

definition split_once :: "char \<Rightarrow> string \<Rightarrow> (string \<times> string) option" where
  "split_once c s =
     (if c \<in> set s then Some (takeWhile (\<lambda>x. x \<noteq> c) s, tl (dropWhile (\<lambda>x. x \<noteq> c) s)) else None)"

definition debug_char :: "char \<Rightarrow> string" where
  "debug_char c =
     (if c = char_of (34::nat) \<or> c = char_of (92::nat) then [char_of (92::nat), c]
      else if c = char_of (9::nat) then [char_of (92::nat), CHR ''t'']
      else if c = char_of (10::nat) then [char_of (92::nat), CHR ''n'']
      else if c = char_of (13::nat) then [char_of (92::nat), CHR ''r'']
      else if c = char_of (0::nat) then [char_of (92::nat), CHR ''0'']
      else if (of_char c :: nat) < 16 then [char_of (92::nat)] @ ''u{'' @ [hex_digit 97 (of_char c)] @ ''}''
      else if (of_char c :: nat) < 32 \<or> (of_char c :: nat) = 127
      then [char_of (92::nat)] @ ''u{'' @ hex2_lower (of_nat (of_char c)) @ ''}''
      else [c])"

definition str_debug :: "string \<Rightarrow> string" where
  "str_debug s = [char_of (34::nat)] @ concat (map debug_char s) @ [char_of (34::nat)]"

definition malformed :: "string \<Rightarrow> Error" where
  "malformed s =
     ErrAddress (''malformed address '' @ str_debug s @ '' (want ip:port:certhash or [ipv6]:port:certhash)'')"

text \<open>The host and what follows its colon.\<close>

definition split_host :: "string \<Rightarrow> (string \<times> string) option" where
  "split_host s =
     (case strip_prefix (CHR ''['') s of
        Some stripped \<Rightarrow>
          (case split_once (CHR '']'') stripped of
             None \<Rightarrow> None
           | Some (host, after) \<Rightarrow>
               (case strip_prefix (CHR '':'') after of None \<Rightarrow> None | Some rest \<Rightarrow> Some (host, rest)))
      | None \<Rightarrow> split_once (CHR '':'') s)"

definition parse_address :: "string \<Rightarrow> Error + Address" where
  "parse_address s =
     (case split_host s of
        None \<Rightarrow> Inl (malformed s)
      | Some (host, rest) \<Rightarrow>
          (case split_once (CHR '':'') rest of
             None \<Rightarrow> Inl (malformed s)
           | Some (port_str, certhash) \<Rightarrow>
               (case parse_uint (2 ^ 16) port_str of
                  None \<Rightarrow> Inl (ErrAddress (''bad port in address '' @ str_debug s))
                | Some p \<Rightarrow>
                    if p < 1 then Inl (ErrAddress (''bad port in address '' @ str_debug s))
                    else if host = [] \<or> certhash = [] then Inl (malformed s)
                    else Inr \<lparr>ad_ip = host, ad_port = of_nat p, ad_certhash = certhash\<rparr>)))"

definition format_address :: "string \<Rightarrow> u16 \<Rightarrow> string \<Rightarrow> string" where
  "format_address ip port certhash =
     (if CHR '':'' \<in> set ip
      then ''['' @ ip @ '']:'' @ show_nat (unat port) @ '':'' @ certhash
      else ip @ '':'' @ show_nat (unat port) @ '':'' @ certhash)"

section \<open>Certhashes\<close>

definition decode_certhash :: "(string \<Rightarrow> string + bytes) \<Rightarrow> string \<Rightarrow> Error + bytes" where
  "decode_certhash base64_decode s =
     (case strip_prefix (CHR ''u'') s of
        None \<Rightarrow> Inl (ErrAddress ''certhash missing multibase 'u' prefix'')
      | Some body \<Rightarrow>
          (case base64_decode body of
             Inl e \<Rightarrow> Inl (ErrAddress (''certhash base64url: '' @ e))
           | Inr raw \<Rightarrow>
               if length raw \<noteq> 34 \<or> raw ! 0 \<noteq> 0x12 \<or> raw ! 1 \<noteq> 0x20
               then Inl (ErrAddress ''certhash is not a sha2-256 multihash'')
               else Inr (drop 2 raw)))"

definition encode_certhash :: "(bytes \<Rightarrow> string) \<Rightarrow> bytes \<Rightarrow> string" where
  "encode_certhash base64_encode digest = ''u'' @ base64_encode ([0x12, 0x20] @ digest)"

section \<open>The grammar of addresses\<close>

definition port_text :: "string \<Rightarrow> u16 \<Rightarrow> bool" where
  "port_text t p \<longleftrightarrow>
     (\<exists>ds. (t = ds \<or> t = CHR ''+'' # ds) \<and> ds \<noteq> [] \<and> list_all is_digit ds \<and> digits_val ds = unat p)
     \<and> p \<noteq> 0"

inductive address_grammar :: "string \<Rightarrow> Address \<Rightarrow> bool" where
  plain: "host \<noteq> [] \<Longrightarrow> CHR '':'' \<notin> set host \<Longrightarrow> hd host \<noteq> CHR ''['' \<Longrightarrow> port_text t p \<Longrightarrow> hash \<noteq> []
    \<Longrightarrow> address_grammar (host @ '':'' @ t @ '':'' @ hash) \<lparr>ad_ip = host, ad_port = p, ad_certhash = hash\<rparr>"
| bracketed: "host \<noteq> [] \<Longrightarrow> CHR '']'' \<notin> set host \<Longrightarrow> port_text t p \<Longrightarrow> hash \<noteq> []
    \<Longrightarrow> address_grammar (''['' @ host @ '']:'' @ t @ '':'' @ hash) \<lparr>ad_ip = host, ad_port = p, ad_certhash = hash\<rparr>"

lemma strip_prefix_iff: "strip_prefix c s = Some t \<longleftrightarrow> s = c # t"
  by (auto simp: strip_prefix_def split: list.splits if_splits)

lemma split_once_append [simp]: "c \<notin> set a \<Longrightarrow> split_once c (a @ c # b) = Some (a, b)"
  by (auto simp: split_once_def takeWhile_tail dropWhile_append)

lemma split_once_iff: "split_once c s = Some (a, b) \<longleftrightarrow> s = a @ c # b \<and> c \<notin> set a"
proof
  assume l: "split_once c s = Some (a, b)"
  then have "c \<in> set s" by (simp add: split_once_def split: if_splits)
  then obtain a' b' where "s = a' @ c # b'" "c \<notin> set a'" using split_list_first by metis
  with l show "s = a @ c # b \<and> c \<notin> set a" by simp
qed auto

lemma split_then_strip:
  "(case split_once c t of None \<Rightarrow> None
    | Some (h, after) \<Rightarrow> (case strip_prefix d after of None \<Rightarrow> None | Some rest \<Rightarrow> Some (h, rest))) = Some (host, rest)
   \<longleftrightarrow> t = host @ c # d # rest \<and> c \<notin> set host"
proof -
  have "strip_prefix d after = None \<longleftrightarrow> (\<forall>r. after \<noteq> d # r)" for after
    by (metis not_None_eq strip_prefix_iff)
  then have "(case split_once c t of None \<Rightarrow> None
      | Some (h, after) \<Rightarrow> (case strip_prefix d after of None \<Rightarrow> None | Some rest \<Rightarrow> Some (h, rest))) = Some (host, rest)
    \<longleftrightarrow> split_once c t = Some (host, d # rest)"
    by (auto split: option.splits simp: strip_prefix_iff)
  then show ?thesis by (simp add: split_once_iff)
qed

lemma split_host_iff:
  "split_host s = Some (host, rest) \<longleftrightarrow>
     (s = CHR ''['' # host @ CHR '']'' # CHR '':'' # rest \<and> CHR '']'' \<notin> set host)
     \<or> (s = host @ CHR '':'' # rest \<and> CHR '':'' \<notin> set host \<and> (host \<noteq> [] \<longrightarrow> hd host \<noteq> CHR ''[''))"
proof (cases "strip_prefix (CHR ''['') s")
  case None
  then have n: "s \<noteq> CHR ''['' # t" for t by (metis option.distinct(1) strip_prefix_iff)
  then have "s = host @ CHR '':'' # rest \<Longrightarrow> host \<noteq> [] \<longrightarrow> hd host \<noteq> CHR ''[''" by (cases host) auto
  with None n show ?thesis by (auto simp: split_host_def split_once_iff)
next
  case (Some t)
  then have s: "s = CHR ''['' # t" by (simp add: strip_prefix_iff)
  have "split_host s = Some (host, rest) \<longleftrightarrow> t = host @ CHR '']'' # CHR '':'' # rest \<and> CHR '']'' \<notin> set host"
    using Some by (simp add: split_host_def split_then_strip)
  moreover have "\<not> (s = host @ CHR '':'' # rest \<and> (host \<noteq> [] \<longrightarrow> hd host \<noteq> CHR ''[''))"
    using s by (cases host) auto
  ultimately show ?thesis using s by auto
qed

lemma plus_colon_not_digits [simp]: "\<not> is_digit (CHR ''+'')" "\<not> is_digit (CHR '':'')"
  using digit_not_plus digit_not_colon by blast+

lemma parse_uint_iff:
  "parse_uint bound t = Some n \<longleftrightarrow>
     (\<exists>ds. (t = ds \<or> t = CHR ''+'' # ds) \<and> ds \<noteq> [] \<and> list_all is_digit ds \<and> digits_val ds = n) \<and> n < bound"
  by (cases t) (auto simp: parse_uint_def Let_def split: if_splits)

lemma port_text_iff:
  "port_text t p \<longleftrightarrow> (\<exists>n. parse_uint (2 ^ 16) t = Some n \<and> \<not> n < 1 \<and> p = of_nat n)"
proof
  assume "port_text t p"
  then have "parse_uint (2 ^ 16) t = Some (unat p)" "\<not> unat p < 1" "p = of_nat (unat p)"
    using unat_bound [of p] by (auto simp: port_text_def parse_uint_iff unat_gt_0)
  then show "\<exists>n. parse_uint (2 ^ 16) t = Some n \<and> \<not> n < 1 \<and> p = of_nat n" by blast
next
  assume "\<exists>n. parse_uint (2 ^ 16) t = Some n \<and> \<not> n < 1 \<and> p = of_nat n"
  then obtain n where n: "parse_uint (2 ^ 16) t = Some n" "\<not> n < 1" "p = of_nat n" by blast
  then have u: "unat p = n" by (simp add: parse_uint_iff unat_of_nat_small)
  with n(2) have "p \<noteq> 0" by auto
  with n(1) u show "port_text t p" by (simp add: port_text_def parse_uint_iff)
qed

lemma digits_no_colon: "list_all is_digit ds \<Longrightarrow> CHR '':'' \<notin> set ds"
  by (metis list_all_iff plus_colon_not_digits(2))

lemma port_text_no_colon: "port_text t p \<Longrightarrow> CHR '':'' \<notin> set t"
  by (auto simp: port_text_def digits_no_colon)

lemma port_text_show: "p \<noteq> 0 \<Longrightarrow> port_text (show_nat (unat p)) p"
  unfolding port_text_def using show_nat_digits [of "unat p"] by auto

lemma parse_address_iff:
  "parse_address s = Inr a \<longleftrightarrow>
     (\<exists>t. split_host s = Some (ad_ip a, t @ CHR '':'' # ad_certhash a) \<and> port_text t (ad_port a))
     \<and> ad_ip a \<noteq> [] \<and> ad_certhash a \<noteq> []"
proof
  assume "parse_address s = Inr a"
  then obtain host rest t hash n where "split_host s = Some (host, rest)" "split_once (CHR '':'') rest = Some (t, hash)"
    "parse_uint (2 ^ 16) t = Some n" "\<not> n < 1" "host \<noteq> []" "hash \<noteq> []"
    "a = \<lparr>ad_ip = host, ad_port = of_nat n, ad_certhash = hash\<rparr>"
    by (fastforce simp: parse_address_def split: option.splits prod.splits if_splits)
  then show "(\<exists>t. split_host s = Some (ad_ip a, t @ CHR '':'' # ad_certhash a) \<and> port_text t (ad_port a))
     \<and> ad_ip a \<noteq> [] \<and> ad_certhash a \<noteq> []"
    by (auto simp: port_text_iff split_once_iff)
next
  assume r: "(\<exists>t. split_host s = Some (ad_ip a, t @ CHR '':'' # ad_certhash a) \<and> port_text t (ad_port a))
     \<and> ad_ip a \<noteq> [] \<and> ad_certhash a \<noteq> []"
  then obtain t where t: "split_host s = Some (ad_ip a, t @ CHR '':'' # ad_certhash a)" "port_text t (ad_port a)" by blast
  then obtain n where "parse_uint (2 ^ 16) t = Some n" "\<not> n < 1" "ad_port a = of_nat n" by (auto simp: port_text_iff)
  with t r port_text_no_colon [OF t(2)] show "parse_address s = Inr a" by (simp add: parse_address_def)
qed

lemma parse_address_grammar: "parse_address s = Inr a \<longleftrightarrow> address_grammar s a"
proof
  assume "parse_address s = Inr a"
  then obtain t where t: "split_host s = Some (ad_ip a, t @ CHR '':'' # ad_certhash a)" "port_text t (ad_port a)"
    and ne: "ad_ip a \<noteq> []" "ad_certhash a \<noteq> []" by (auto simp: parse_address_iff)
  from t(1) show "address_grammar s a"
    unfolding split_host_iff
    using address_grammar.intros [of "ad_ip a" t "ad_port a" "ad_certhash a"] t(2) ne by (cases a) auto
next
  show "address_grammar s a \<Longrightarrow> parse_address s = Inr a"
    by (induction rule: address_grammar.induct) (auto simp: parse_address_iff split_host_iff)
qed

section \<open>Properties\<close>

text \<open>
  C33: \<open>parse_address\<close> accepts exactly the grammar of addresses: a host without colons that
  does not start with a bracket, or a bracketed host; a port of decimal digits between 1 and
  65535; and a certhash that may hold anything; each of them non-empty. The port may carry a
  plus sign and leading zeros. Everything else is an address error.
\<close>

theorem parse_address_exact:
  "(parse_address s = Inr a \<longleftrightarrow> address_grammar s a)
   \<and> ((\<nexists>b. address_grammar s b) \<longleftrightarrow> (\<exists>e. parse_address s = Inl (ErrAddress e)))"
proof -
  have "(\<exists>e. parse_address s = Inl (ErrAddress e)) \<or> (\<exists>b. parse_address s = Inr b)"
    by (auto simp: parse_address_def malformed_def split: option.split)
  then show ?thesis by (auto simp: parse_address_grammar [symmetric])
qed

definition address_ok :: "Address \<Rightarrow> bool" where
  "address_ok a \<longleftrightarrow>
     ad_ip a \<noteq> [] \<and> ad_certhash a \<noteq> [] \<and> ad_port a \<noteq> 0
     \<and> (if CHR '':'' \<in> set (ad_ip a) then CHR '']'' \<notin> set (ad_ip a) else hd (ad_ip a) \<noteq> CHR ''['')"

lemma format_in_grammar:
  "address_ok a \<Longrightarrow> address_grammar (format_address (ad_ip a) (ad_port a) (ad_certhash a)) a"
  using address_grammar.intros [of "ad_ip a" "show_nat (unat (ad_port a))" "ad_port a" "ad_certhash a"]
  by (cases a) (auto simp: address_ok_def format_address_def port_text_show)

interpretation address: codec "\<lambda>a. format_address (ad_ip a) (ad_port a) (ad_certhash a)" parse_address address_ok
  by unfold_locales (simp add: parse_address_grammar format_in_grammar)

text \<open>
  An address that was formatted parses back to itself, for every host, IPv6 literals
  included, every port from 1 and every certhash; so two addresses that print alike are equal.
\<close>

theorem address_round_trip:
  assumes "address_ok a"
  shows "parse_address (format_address (ad_ip a) (ad_port a) (ad_certhash a)) = Inr a"
  by (rule address.dec_enc [OF assms])

theorem address_round_trip_witness:
  "parse_address ''[::1]:443:uEiAx'' = Inr \<lparr>ad_ip = ''::1'', ad_port = 443, ad_certhash = ''uEiAx''\<rparr>"
proof -
  have "show_nat 443 = ''443''" by code_simp
  then show ?thesis
    using address_round_trip [of "\<lparr>ad_ip = ''::1'', ad_port = 443, ad_certhash = ''uEiAx''\<rparr>"]
    by (simp add: address_ok_def format_address_def)
qed

lemma decode_certhash_iff:
  assumes "\<And>x. dec (enc x) = Inr x" and "\<And>t x. dec t = Inr x \<Longrightarrow> enc x = t"
  shows "decode_certhash dec s = Inr d \<longleftrightarrow> length d = 32 \<and> s = encode_certhash enc d"
proof
  assume "decode_certhash dec s = Inr d"
  then obtain body raw where s: "s = CHR ''u'' # body" and r: "dec body = Inr raw" "length raw = 34"
    "raw ! 0 = 0x12" "raw ! 1 = 0x20" "d = drop 2 raw"
    by (auto simp: decode_certhash_def strip_prefix_iff split: option.splits sum.splits if_splits)
  have "raw = take 2 raw @ drop 2 raw" by simp
  also have "take 2 raw = [0x12, 0x20]" using r(2-4) by (simp add: take_Suc_conv_app_nth numeral_2_eq_2)
  finally have "raw = [0x12, 0x20] @ d" using r(5) by simp
  moreover have "s = ''u'' @ enc raw" using s assms(2) [OF r(1)] by simp
  moreover have "length d = 32" using r(2,5) by simp
  ultimately show "length d = 32 \<and> s = encode_certhash enc d" by (simp only: encode_certhash_def)
next
  assume "length d = 32 \<and> s = encode_certhash enc d"
  then show "decode_certhash dec s = Inr d"
    by (simp add: decode_certhash_def encode_certhash_def assms(1) strip_prefix_def)
qed

text \<open>
  A certhash names exactly one digest: with a base64url engine that decodes what it
  encodes and accepts only canonical encodings, \<open>decode_certhash\<close> accepts a string exactly
  when it is the encoding of a 32-byte digest, and returns that digest.
\<close>

theorem certhash_exact:
  assumes "\<And>x. dec (enc x) = Inr x" and "\<And>t x. dec t = Inr x \<Longrightarrow> enc x = t"
  shows "decode_certhash dec s = Inr d \<longleftrightarrow> length d = 32 \<and> s = encode_certhash enc d"
  using decode_certhash_iff [OF assms] .

text \<open>A byte engine for the example: each byte as its character.\<close>

definition chars_of :: "bytes \<Rightarrow> string" where
  "chars_of = map (\<lambda>b. char_of (unat b))"

definition bytes_of :: "string \<Rightarrow> string + bytes" where
  "bytes_of t = Inr (map (\<lambda>c. of_nat (of_char c)) t)"

lemma bytes_of_chars: "bytes_of (chars_of x) = Inr x"
proof -
  have "of_nat (of_char (char_of (unat b) :: char)) = b" for b :: u8
    using unat_bound [of b] by (simp add: unsigned_of_nat)
  then show ?thesis by (simp add: bytes_of_def chars_of_def map_idI comp_def)
qed

lemma chars_of_bytes: "bytes_of t = Inr x \<Longrightarrow> chars_of x = t"
proof -
  have "char_of (unat (of_nat (of_char c) :: u8)) = c" for c
  proof -
    have "(of_char c :: nat) < 2 ^ LENGTH(8)" by (cases c) simp
    then show ?thesis by (simp only: unat_of_nat_small char_of_char)
  qed
  then show "bytes_of t = Inr x \<Longrightarrow> chars_of x = t"
    by (auto simp: bytes_of_def chars_of_def comp_def intro!: map_idI)
qed

theorem certhash_exact_witness:
  "decode_certhash bytes_of (encode_certhash chars_of (replicate 32 7)) = Inr (replicate 32 7)"
  using certhash_exact [of bytes_of chars_of "encode_certhash chars_of (replicate 32 7)" "replicate 32 7"]
  by (simp add: bytes_of_chars chars_of_bytes)

end
