(* ===== verification/KpsListener.thy ===== *)
theory KpsListener
  imports KpsAddress KpsNet
begin

text \<open>
  \<open>src/libs/rust/kps/src/listener.rs\<close>: one UDP port for both transports. The routing tables,
  the pump task at each of its awaits and locks, the life of a PeerConnection as its callbacks
  see it, the accept queue, and the virtual sockets that the two stacks read. The STUN parser
  (a crate) is an argument: whether a packet is a STUN message, and the value of its USERNAME.
\<close>

section \<open>State\<close>

type_synonym packet = "bytes \<times> SocketAddr"

text \<open>A channel of packets with capacity 256, and whether its receiver is still there.\<close>

record Inbox =
  ib_packets :: "packet list"
  ib_live :: bool

record Entry =
  en_inbox :: nat
  en_pc :: nat

text \<open>
  What the callbacks of a PeerConnection hold: its ufrag, the slot with the connection, the
  task that waits for the HELLO, and whether the close state was marked.
\<close>

record PcSlot =
  ps_ufrag :: string
  ps_remote :: SocketAddr
  ps_conn :: bool
  ps_surfacing :: bool
  ps_marked :: bool

text \<open>
  The pump: in its \<open>select!\<close>; between the lookups in \<open>by_addr\<close> and \<open>by_ufrag\<close>; in
  \<open>spawn_pc\<close>; before it learns the address; ended.
\<close>

datatype pump_state =
    PumpIdle
  | PumpLookup string bytes SocketAddr
  | PumpSpawn string nat bytes SocketAddr
  | PumpLearn nat bytes SocketAddr
  | PumpDone

datatype accepted = AcWebrtc nat | AcQuic nat

record EntriesInner =
  by_ufrag :: "string \<rightharpoonup> Entry"
  by_addr :: "SocketAddr \<rightharpoonup> nat"

record Listener = EntriesInner +
  ls_local :: SocketAddr
  ls_certhash :: string
  pump :: pump_state
  shutdown_notified :: bool
  quic_inbox :: Inbox
  inboxes :: "nat \<rightharpoonup> Inbox"
  next_pc :: nat
  pcs :: "nat \<rightharpoonup> PcSlot"
  closing_pcs :: "nat set"
  endpoint_closed :: bool
  accept_queue :: "accepted list"
  accepted_conns :: "accepted list"
  stun_seen :: "(SocketAddr \<times> string) list"

definition empty_inbox :: Inbox where
  "empty_inbox = \<lparr>ib_packets = [], ib_live = True\<rparr>"

definition listen_state :: "SocketAddr \<Rightarrow> string \<Rightarrow> Listener" where
  "listen_state local hash =
     \<lparr>by_ufrag = Map.empty, by_addr = Map.empty, ls_local = local, ls_certhash = hash, pump = PumpIdle,
      shutdown_notified = False, quic_inbox = empty_inbox, inboxes = Map.empty, next_pc = 0, pcs = Map.empty,
      closing_pcs = {}, endpoint_closed = False, accept_queue = [], accepted_conns = [], stun_seen = []\<rparr>"

text \<open>The text that \<open>listen\<close> parses as the bind address: a bare \<open>:port\<close> means the wildcard.\<close>

definition bind_text :: "string \<Rightarrow> string" where
  "bind_text addr = (case strip_prefix (CHR '':'') addr of Some port \<Rightarrow> ''[::]:'' @ port | None \<Rightarrow> addr)"

section \<open>Entries\<close>

definition remove_ufrag :: "string \<Rightarrow> Listener \<Rightarrow> Listener" where
  "remove_ufrag ufrag s =
     (case by_ufrag s ufrag of
        None \<Rightarrow> s
      | Some entry \<Rightarrow>
          s\<lparr>by_ufrag := (by_ufrag s)(ufrag := None),
            by_addr := (\<lambda>a. if by_addr s a = Some (en_inbox entry) then None else by_addr s a)\<rparr>)"

definition close_all :: "Listener \<Rightarrow> Listener" where
  "close_all s =
     s\<lparr>by_addr := Map.empty, by_ufrag := Map.empty, closing_pcs := closing_pcs s \<union> en_pc ` ran (by_ufrag s)\<rparr>"

section \<open>The pump\<close>

definition canonical :: "SocketAddr \<Rightarrow> SocketAddr" where
  "canonical a = a\<lparr>sa_ip := to_canonical (sa_ip a)\<rparr>"

definition try_send :: "packet \<Rightarrow> Inbox \<Rightarrow> Inbox" where
  "try_send p b = (if ib_live b \<and> length (ib_packets b) < 256 then b\<lparr>ib_packets := ib_packets b @ [p]\<rparr> else b)"

definition deliver :: "nat \<Rightarrow> packet \<Rightarrow> Listener \<Rightarrow> Listener" where
  "deliver i p s = (case inboxes s i of None \<Rightarrow> s | Some b \<Rightarrow> s\<lparr>inboxes := (inboxes s)(i \<mapsto> try_send p b)\<rparr>)"

definition deliver_quic :: "packet \<Rightarrow> Listener \<Rightarrow> Listener" where
  "deliver_quic p s = s\<lparr>quic_inbox := try_send p (quic_inbox s)\<rparr>"

text \<open>\<open>String::from_utf8\<close>: well-formed sequences of one to four bytes.\<close>

definition utf8_tail :: "u8 \<Rightarrow> bool" where
  "utf8_tail b \<longleftrightarrow> 0x80 \<le> b \<and> b \<le> 0xBF"

fun utf8_valid :: "bytes \<Rightarrow> bool" where
  "utf8_valid [] \<longleftrightarrow> True"
| "utf8_valid (b # bs) \<longleftrightarrow>
     (if b < 0x80 then utf8_valid bs
      else case bs of
        [] \<Rightarrow> False
      | c1 # r1 \<Rightarrow>
          if b < 0xE0 then 0xC2 \<le> b \<and> utf8_tail c1 \<and> utf8_valid r1
          else case r1 of
            [] \<Rightarrow> False
          | c2 # r2 \<Rightarrow>
              if b < 0xF0 then
                utf8_tail c1 \<and> (b = 0xE0 \<longrightarrow> 0xA0 \<le> c1) \<and> (b = 0xED \<longrightarrow> c1 \<le> 0x9F)
                  \<and> utf8_tail c2 \<and> utf8_valid r2
              else case r2 of
                [] \<Rightarrow> False
              | c3 # r3 \<Rightarrow>
                  b \<le> 0xF4 \<and> utf8_tail c1 \<and> (b = 0xF0 \<longrightarrow> 0x90 \<le> c1) \<and> (b = 0xF4 \<longrightarrow> c1 \<le> 0x8F)
                    \<and> utf8_tail c2 \<and> utf8_tail c3 \<and> utf8_valid r3)"

definition extract_ufrag :: "(bytes \<Rightarrow> bytes option) \<Rightarrow> bytes \<Rightarrow> string option" where
  "extract_ufrag username pkt =
     (case username pkt of
        None \<Rightarrow> None
      | Some v \<Rightarrow>
          if utf8_valid v then Some (takeWhile (\<lambda>c. c \<noteq> CHR '':'') (map (\<lambda>b. char_of (unat b)) v)) else None)"

text \<open>
  A datagram arrives in a buffer of 1500 bytes. Taking this branch of the \<open>select!\<close> drops the
  other one, and with it a notification that had arrived.
\<close>

definition pump_receive ::
  "(bytes \<Rightarrow> bool) \<Rightarrow> (bytes \<Rightarrow> bytes option) \<Rightarrow> bytes \<Rightarrow> SocketAddr \<Rightarrow> Listener \<Rightarrow> Listener" where
  "pump_receive is_message username datagram source s =
     (let from = canonical source;
          pkt = take 1500 datagram;
          s1 = s\<lparr>shutdown_notified := False\<rparr>
      in case by_addr s from of
           Some i \<Rightarrow> deliver i (pkt, from) s1
         | None \<Rightarrow>
             (case (if is_message pkt then extract_ufrag username pkt else None) of
                Some ufrag \<Rightarrow> s1\<lparr>pump := PumpLookup ufrag pkt from, stun_seen := stun_seen s @ [(from, ufrag)]\<rparr>
              | None \<Rightarrow> deliver_quic (pkt, from) s1))"

definition pump_receive_failed :: "Listener \<Rightarrow> Listener" where
  "pump_receive_failed s = s\<lparr>shutdown_notified := False\<rparr>"

definition pump_lookup :: "Listener \<Rightarrow> Listener" where
  "pump_lookup s =
     (case pump s of
        PumpLookup ufrag pkt from \<Rightarrow>
          (case by_ufrag s ufrag of
             Some e \<Rightarrow> s\<lparr>pump := PumpLearn (en_inbox e) pkt from\<rparr>
           | None \<Rightarrow>
               let i = next_pc s
               in s\<lparr>pump := PumpSpawn ufrag i pkt from, next_pc := Suc i, inboxes := (inboxes s)(i \<mapsto> empty_inbox)\<rparr>)
      | _ \<Rightarrow> s)"

text \<open>\<open>spawn_pc\<close> up to the registration of its state callback, and its return.\<close>

definition spawn_register :: "Listener \<Rightarrow> Listener" where
  "spawn_register s =
     (case pump s of
        PumpSpawn ufrag i pkt from \<Rightarrow>
          s\<lparr>pcs := (pcs s)(i \<mapsto> \<lparr>ps_ufrag = ufrag, ps_remote = from, ps_conn = True, ps_surfacing = False, ps_marked = False\<rparr>)\<rparr>
      | _ \<Rightarrow> s)"

definition pump_spawned :: "bool \<Rightarrow> Listener \<Rightarrow> Listener" where
  "pump_spawned ok s =
     (case pump s of
        PumpSpawn ufrag i pkt from \<Rightarrow>
          if ok then s\<lparr>by_ufrag := (by_ufrag s)(ufrag \<mapsto> \<lparr>en_inbox = i, en_pc = i\<rparr>), pump := PumpLearn i pkt from\<rparr>
          else s\<lparr>pump := PumpIdle\<rparr>
      | _ \<Rightarrow> s)"

definition pump_learn :: "Listener \<Rightarrow> Listener" where
  "pump_learn s =
     (case pump s of
        PumpLearn i pkt from \<Rightarrow> deliver i (pkt, from) (s\<lparr>by_addr := (by_addr s)(from \<mapsto> i), pump := PumpIdle\<rparr>)
      | _ \<Rightarrow> s)"

definition pump_shutdown :: "Listener \<Rightarrow> Listener" where
  "pump_shutdown s = s\<lparr>pump := PumpDone, shutdown_notified := False\<rparr>"

section \<open>PeerConnections\<close>

text \<open>\<open>RTCPeerConnectionState\<close>, as far as the callback tells its values apart.\<close>

datatype pc_change = ChConnected | ChClosed | ChFailed | ChOther

definition pc_state_change :: "nat \<Rightarrow> pc_change \<Rightarrow> Listener \<Rightarrow> Listener" where
  "pc_state_change i change s =
     (case pcs s i of
        None \<Rightarrow> s
      | Some p \<Rightarrow>
          (case change of
             ChConnected \<Rightarrow>
               if ps_conn p then s\<lparr>pcs := (pcs s)(i \<mapsto> p\<lparr>ps_conn := False, ps_surfacing := True\<rparr>)\<rparr> else s
           | ChClosed \<Rightarrow> remove_ufrag (ps_ufrag p) (s\<lparr>pcs := (pcs s)(i \<mapsto> p\<lparr>ps_marked := True\<rparr>)\<rparr>)
           | ChFailed \<Rightarrow> remove_ufrag (ps_ufrag p) (s\<lparr>pcs := (pcs s)(i \<mapsto> p\<lparr>ps_marked := True\<rparr>)\<rparr>)
           | ChOther \<Rightarrow> s))"

text \<open>The spawned task: the result of \<open>wait_established\<close>, then the send on the accept queue.\<close>

definition pc_surface :: "nat \<Rightarrow> bool \<Rightarrow> Listener \<Rightarrow> Listener" where
  "pc_surface i established s =
     (case pcs s i of
        None \<Rightarrow> s
      | Some p \<Rightarrow>
          let s1 = s\<lparr>pcs := (pcs s)(i \<mapsto> p\<lparr>ps_surfacing := False\<rparr>)\<rparr>
          in if established then s1\<lparr>accept_queue := accept_queue s @ [AcWebrtc i]\<rparr> else s1)"

definition quic_accepted :: "nat \<Rightarrow> Listener \<Rightarrow> Listener" where
  "quic_accepted k s = s\<lparr>accept_queue := accept_queue s @ [AcQuic k]\<rparr>"

section \<open>The listener's methods\<close>

definition listener_address :: "string \<Rightarrow> string \<Rightarrow> Listener \<Rightarrow> string" where
  "listener_address local_ip ip s =
     format_address
       (if ip = '''' then (if local_ip = ''0.0.0.0'' \<or> local_ip = ''::'' then ''127.0.0.1'' else local_ip) else ip)
       (sa_port (ls_local s)) (ls_certhash s)"

text \<open>\<open>gone\<close>: every sender of the accept queue was dropped.\<close>

definition listener_accept :: "bool \<Rightarrow> Listener \<Rightarrow> (Error + accepted) poll \<times> Listener" where
  "listener_accept gone s =
     (case accept_queue s of
        c # rest \<Rightarrow> (Ready (Inr c), s\<lparr>accept_queue := rest, accepted_conns := accepted_conns s @ [c]\<rparr>)
      | [] \<Rightarrow> (if gone then Ready (Inl ErrConnClosed) else Pending, s))"

text \<open>\<open>notify_waiters\<close> reaches the pump only while it waits in its \<open>select!\<close>.\<close>

definition listener_close :: "Listener \<Rightarrow> Listener" where
  "listener_close s = close_all (s\<lparr>shutdown_notified := (pump s = PumpIdle), endpoint_closed := True\<rparr>)"

section \<open>The offer\<close>

definition join_lines :: "string list \<Rightarrow> string" where
  "join_lines ls = concat (map (\<lambda>l. l @ [char_of (13::nat), char_of (10::nat)]) ls)"

definition placeholder_fingerprint :: string where
  "placeholder_fingerprint =
     ''AA:BB:CC:DD:EE:FF:00:11:22:33:44:55:66:77:88:99:AA:BB:CC:DD:EE:FF:00:11:22:33:44:55:66:77:88:99''"

definition build_client_offer :: "string \<Rightarrow> string \<Rightarrow> u16 \<Rightarrow> SocketAddr \<Rightarrow> string" where
  "build_client_offer ufrag pwd port client_addr =
     (let fam = (if is_ipv6 (sa_ip client_addr) then ''IP6'' else ''IP4'');
          any_addr = (if is_ipv6 (sa_ip client_addr) then ''::'' else ''0.0.0.0'')
      in join_lines
           [''v=0'',
            ''o=- 0 0 IN '' @ fam @ '' '' @ any_addr,
            ''s=-'',
            ''t=0 0'',
            ''m=application '' @ show_nat (unat port) @ '' UDP/DTLS/SCTP webrtc-datachannel'',
            ''c=IN '' @ fam @ '' '' @ any_addr,
            ''a=mid:0'',
            ''a=ice-ufrag:'' @ ufrag,
            ''a=ice-pwd:'' @ pwd,
            ''a=fingerprint:sha-256 '' @ placeholder_fingerprint,
            ''a=setup:active'',
            ''a=sctp-port:5000'',
            ''a=max-message-size:1048576''])"

section \<open>The virtual sockets\<close>

definition map_for_socket :: "SocketAddr \<Rightarrow> SocketAddr \<Rightarrow> SocketAddr" where
  "map_for_socket local target =
     (if is_ipv6 (sa_ip local)
      then (case sa_ip target of V4 v4 \<Rightarrow> target\<lparr>sa_ip := V6 (to_ipv6_mapped v4)\<rparr> | V6 _ \<Rightarrow> target)
      else target)"

text \<open>
  \<open>PcConn::recv_from\<close> and \<open>DemuxUdpSocket::poll_recv\<close>, for a caller's buffer of \<open>cap\<close> bytes:
  the bytes written and the source. \<open>gone\<close>: the sender was dropped.
\<close>

definition inbox_recv :: "string \<Rightarrow> nat \<Rightarrow> bool \<Rightarrow> Inbox \<Rightarrow> (string + packet) poll \<times> Inbox" where
  "inbox_recv closed cap gone b =
     (case ib_packets b of
        (pkt, from) # rest \<Rightarrow> (Ready (Inr (take (min (length pkt) cap) pkt, from)), b\<lparr>ib_packets := rest\<rparr>)
      | [] \<Rightarrow> (if gone then Ready (Inl closed) else Pending, b))"

definition pc_recv :: "nat \<Rightarrow> nat \<Rightarrow> bool \<Rightarrow> Listener \<Rightarrow> (string + packet) poll \<times> Listener" where
  "pc_recv i cap gone s =
     (case inboxes s i of
        None \<Rightarrow> (Pending, s)
      | Some b \<Rightarrow> let (r, b') = inbox_recv ''inbox closed'' cap gone b in (r, s\<lparr>inboxes := (inboxes s)(i \<mapsto> b')\<rparr>))"

text \<open>\<open>recv\<close> leaves the source out.\<close>

definition pc_recv_len :: "nat \<Rightarrow> nat \<Rightarrow> bool \<Rightarrow> Listener \<Rightarrow> (string + nat) poll \<times> Listener" where
  "pc_recv_len i cap gone s =
     (case pc_recv i cap gone s of (r, t) \<Rightarrow> (map_poll (map_sum id (\<lambda>(pkt, from). length pkt)) r, t))"

definition quic_poll_recv :: "nat \<Rightarrow> Listener \<Rightarrow> (string + packet) poll \<times> Listener" where
  "quic_poll_recv cap s = (let (r, b) = inbox_recv ''closed'' cap (pump s = PumpDone) (quic_inbox s) in (r, s\<lparr>quic_inbox := b\<rparr>))"

text \<open>The ICE agent drops its end.\<close>

definition pc_inbox_dropped :: "nat \<Rightarrow> Listener \<Rightarrow> Listener" where
  "pc_inbox_dropped i s =
     (case inboxes s i of None \<Rightarrow> s | Some b \<Rightarrow> s\<lparr>inboxes := (inboxes s)(i \<mapsto> b\<lparr>ib_live := False\<rparr>)\<rparr>)"

end
