(* ===== verification/KpsListenerProps.thy ===== *)
theory KpsListenerProps
  imports KpsListener
begin

text \<open>
  The listener as a machine, its invariant (the tables name existing connections, an inbox
  holds only packets of addresses that named its ufrag, a connection is in one place), and
  its properties: demultiplexing, isolation, the accept queue, and what concurrent callbacks
  and a concurrent close can do.
\<close>

section \<open>The listener as a machine\<close>

datatype listener_ev =
    LvReceive bytes SocketAddr
  | LvReceiveFailed
  | LvLookup
  | LvRegister
  | LvSpawned bool
  | LvLearn
  | LvShutdown
  | LvChange nat pc_change
  | LvSurface nat bool
  | LvQuic nat
  | LvAccept bool
  | LvClose
  | LvPcRecv nat nat bool
  | LvQuicRecv nat
  | LvDropped nat

fun listener_step :: "(bytes \<Rightarrow> bool) \<Rightarrow> (bytes \<Rightarrow> bytes option) \<Rightarrow> Listener \<Rightarrow> listener_ev \<Rightarrow> Listener" where
  "listener_step m u s (LvReceive d src) = pump_receive m u d src s"
| "listener_step m u s LvReceiveFailed = pump_receive_failed s"
| "listener_step m u s LvLookup = pump_lookup s"
| "listener_step m u s LvRegister = spawn_register s"
| "listener_step m u s (LvSpawned ok) = pump_spawned ok s"
| "listener_step m u s LvLearn = pump_learn s"
| "listener_step m u s LvShutdown = pump_shutdown s"
| "listener_step m u s (LvChange i ch) = pc_state_change i ch s"
| "listener_step m u s (LvSurface i ok) = pc_surface i ok s"
| "listener_step m u s (LvQuic k) = quic_accepted k s"
| "listener_step m u s (LvAccept gone) = snd (listener_accept gone s)"
| "listener_step m u s LvClose = listener_close s"
| "listener_step m u s (LvPcRecv i cap gone) = snd (pc_recv i cap gone s)"
| "listener_step m u s (LvQuicRecv cap) = snd (quic_poll_recv cap s)"
| "listener_step m u s (LvDropped i) = pc_inbox_dropped i s"

text \<open>
  The pump receives only in its \<open>select!\<close>; \<open>spawn_pc\<close> registers its callback once, and before
  it succeeds; a send on the accept queue waits for room.
\<close>

fun listener_guard :: "Listener \<Rightarrow> listener_ev \<Rightarrow> bool" where
  "listener_guard s (LvReceive d src) \<longleftrightarrow> pump s = PumpIdle"
| "listener_guard s LvReceiveFailed \<longleftrightarrow> pump s = PumpIdle"
| "listener_guard s LvRegister \<longleftrightarrow> (\<forall>u i pkt a. pump s = PumpSpawn u i pkt a \<longrightarrow> pcs s i = None)"
| "listener_guard s (LvSpawned ok) \<longleftrightarrow> (\<forall>u i pkt a. pump s = PumpSpawn u i pkt a \<longrightarrow> ok \<longrightarrow> pcs s i \<noteq> None)"
| "listener_guard s LvShutdown \<longleftrightarrow> pump s = PumpIdle \<and> shutdown_notified s"
| "listener_guard s (LvSurface i ok) \<longleftrightarrow>
     (\<exists>p. pcs s i = Some p \<and> ps_surfacing p) \<and> (ok \<longrightarrow> length (accept_queue s) < 16)"
| "listener_guard s (LvQuic k) \<longleftrightarrow>
     length (accept_queue s) < 16 \<and> AcQuic k \<notin> set (accept_queue s) \<union> set (accepted_conns s)"
| "listener_guard s _ \<longleftrightarrow> True"

section \<open>The invariant\<close>

definition route_known :: "(SocketAddr \<times> string) list \<Rightarrow> (nat \<rightharpoonup> PcSlot) \<Rightarrow> SocketAddr \<Rightarrow> nat \<Rightarrow> bool" where
  "route_known L P a i \<longleftrightarrow> (\<exists>p. P i = Some p \<and> (a, ps_ufrag p) \<in> set L)"

definition entries_ok :: "(nat \<rightharpoonup> PcSlot) \<Rightarrow> (string \<rightharpoonup> Entry) \<Rightarrow> bool" where
  "entries_ok P U \<longleftrightarrow>
     (\<forall>u e. U u = Some e \<longrightarrow> en_inbox e = en_pc e \<and> (\<exists>p. P (en_pc e) = Some p \<and> ps_ufrag p = u))"

definition addrs_ok :: "(SocketAddr \<times> string) list \<Rightarrow> (nat \<rightharpoonup> PcSlot) \<Rightarrow> (SocketAddr \<rightharpoonup> nat) \<Rightarrow> bool" where
  "addrs_ok L P A \<longleftrightarrow> (\<forall>a i. A a = Some i \<longrightarrow> route_known L P a i)"

definition inbox_ok :: "(SocketAddr \<times> string) list \<Rightarrow> (nat \<rightharpoonup> PcSlot) \<Rightarrow> nat \<Rightarrow> Inbox \<Rightarrow> bool" where
  "inbox_ok L P i b \<longleftrightarrow> length (ib_packets b) \<le> 256 \<and> (\<forall>p a. (p, a) \<in> set (ib_packets b) \<longrightarrow> route_known L P a i)"

definition inboxes_ok :: "(SocketAddr \<times> string) list \<Rightarrow> (nat \<rightharpoonup> PcSlot) \<Rightarrow> (nat \<rightharpoonup> Inbox) \<Rightarrow> bool" where
  "inboxes_ok L P I \<longleftrightarrow> (\<forall>i b. I i = Some b \<longrightarrow> inbox_ok L P i b)"

fun pump_ok :: "(SocketAddr \<times> string) list \<Rightarrow> (nat \<rightharpoonup> PcSlot) \<Rightarrow> nat \<Rightarrow> pump_state \<Rightarrow> bool" where
  "pump_ok L P n (PumpLookup u pkt a) \<longleftrightarrow> (a, u) \<in> set L"
| "pump_ok L P n (PumpSpawn u i pkt a) \<longleftrightarrow> (a, u) \<in> set L \<and> i < n \<and> (\<forall>p. P i = Some p \<longrightarrow> ps_ufrag p = u)"
| "pump_ok L P n (PumpLearn i pkt a) \<longleftrightarrow> route_known L P a i"
| "pump_ok L P n _ \<longleftrightarrow> True"

definition fresh_ok :: "nat \<Rightarrow> (nat \<rightharpoonup> PcSlot) \<Rightarrow> (nat \<rightharpoonup> Inbox) \<Rightarrow> bool" where
  "fresh_ok n P I \<longleftrightarrow> (\<forall>i \<ge> n. P i = None \<and> I i = None)"

text \<open>A connection is in the slot, with the task that waits for its HELLO, queued or accepted, once.\<close>

definition accept_ok :: "(nat \<rightharpoonup> PcSlot) \<Rightarrow> accepted list \<Rightarrow> bool" where
  "accept_ok P q \<longleftrightarrow>
     distinct q
     \<and> (\<forall>i. AcWebrtc i \<in> set q \<longrightarrow> (\<exists>p. P i = Some p \<and> \<not> ps_conn p \<and> \<not> ps_surfacing p))
     \<and> (\<forall>i p. P i = Some p \<longrightarrow> \<not> (ps_conn p \<and> ps_surfacing p))"

definition listener_inv :: "Listener \<Rightarrow> bool" where
  "listener_inv s \<longleftrightarrow>
     entries_ok (pcs s) (by_ufrag s) \<and> addrs_ok (stun_seen s) (pcs s) (by_addr s)
     \<and> inboxes_ok (stun_seen s) (pcs s) (inboxes s) \<and> pump_ok (stun_seen s) (pcs s) (next_pc s) (pump s)
     \<and> fresh_ok (next_pc s) (pcs s) (inboxes s) \<and> accept_ok (pcs s) (accepted_conns s @ accept_queue s)"

section \<open>Preservation\<close>

text \<open>The tables survive when more is seen and when connections keep their ufrag.\<close>

definition pcs_keep :: "(nat \<rightharpoonup> PcSlot) \<Rightarrow> (nat \<rightharpoonup> PcSlot) \<Rightarrow> bool" where
  "pcs_keep P Q \<longleftrightarrow> (\<forall>i p. P i = Some p \<longrightarrow> (\<exists>q. Q i = Some q \<and> ps_ufrag q = ps_ufrag p))"

lemma pcs_keep_refl [simp]: "pcs_keep P P"
  by (simp add: pcs_keep_def)

lemma pcs_keep_new [intro]: "P i = None \<Longrightarrow> pcs_keep P (P(i \<mapsto> q))"
  by (simp add: pcs_keep_def)

lemma pcs_keep_same [intro]: "P i = Some p \<Longrightarrow> ps_ufrag q = ps_ufrag p \<Longrightarrow> pcs_keep P (P(i \<mapsto> q))"
  by (simp add: pcs_keep_def)

lemma route_known_mono: "route_known L P a i \<Longrightarrow> set L \<subseteq> set L' \<Longrightarrow> pcs_keep P Q \<Longrightarrow> route_known L' Q a i"
  unfolding route_known_def pcs_keep_def by (metis subset_eq)

lemma tables_mono:
  assumes "set L \<subseteq> set L'" and "pcs_keep P Q"
  shows "entries_ok P U \<Longrightarrow> entries_ok Q U" and "addrs_ok L P A \<Longrightarrow> addrs_ok L' Q A"
    and "inboxes_ok L P I \<Longrightarrow> inboxes_ok L' Q I"
  using route_known_mono [OF _ assms] assms(2)
  unfolding entries_ok_def addrs_ok_def inboxes_ok_def inbox_ok_def pcs_keep_def by (metis, blast, blast)

lemma tables_more:
  "addrs_ok L P A \<Longrightarrow> addrs_ok (L @ [x]) P A" "inboxes_ok L P I \<Longrightarrow> inboxes_ok (L @ [x]) P I"
  using tables_mono(2,3) [of L "L @ [x]" P P] by auto

lemma inboxes_ok_deliver:
  assumes "inboxes_ok L P (inboxes s)" and "route_known L P a i"
  shows "inboxes_ok L P (inboxes (deliver i (pkt, a) s))"
  using assms by (auto simp: deliver_def inboxes_ok_def inbox_ok_def try_send_def split: option.split)

lemma deliver_fields [simp]:
  "by_ufrag (deliver i p s) = by_ufrag s" "by_addr (deliver i p s) = by_addr s" "pump (deliver i p s) = pump s"
  "pcs (deliver i p s) = pcs s" "next_pc (deliver i p s) = next_pc s" "stun_seen (deliver i p s) = stun_seen s"
  "accept_queue (deliver i p s) = accept_queue s" "accepted_conns (deliver i p s) = accepted_conns s"
  "shutdown_notified (deliver i p s) = shutdown_notified s" "quic_inbox (deliver i p s) = quic_inbox s"
  by (simp_all add: deliver_def split: option.split)

lemma fresh_deliver [simp]: "fresh_ok n P (inboxes (deliver i p s)) \<longleftrightarrow> fresh_ok n P (inboxes s)"
  by (auto simp: deliver_def fresh_ok_def split: option.split)

lemma remove_ufrag_fields [simp]:
  "pump (remove_ufrag u s) = pump s" "pcs (remove_ufrag u s) = pcs s" "next_pc (remove_ufrag u s) = next_pc s"
  "stun_seen (remove_ufrag u s) = stun_seen s" "inboxes (remove_ufrag u s) = inboxes s"
  "accept_queue (remove_ufrag u s) = accept_queue s" "accepted_conns (remove_ufrag u s) = accepted_conns s"
  "shutdown_notified (remove_ufrag u s) = shutdown_notified s"
  by (simp_all add: remove_ufrag_def split: option.split)

lemma remove_ufrag_ok:
  "entries_ok P (by_ufrag s) \<Longrightarrow> entries_ok P (by_ufrag (remove_ufrag u s))"
  "addrs_ok L P (by_addr s) \<Longrightarrow> addrs_ok L P (by_addr (remove_ufrag u s))"
  by (auto simp: remove_ufrag_def entries_ok_def addrs_ok_def split: option.splits if_splits)

lemma listener_inv_receive:
  assumes "listener_inv s" and "pump s = PumpIdle"
  shows "listener_inv (pump_receive m u d src s)"
proof -
  let ?from = "canonical src" and ?pkt = "take 1500 d"
  show ?thesis
  proof (cases "by_addr s ?from")
    case (Some i)
    then have "route_known (stun_seen s) (pcs s) ?from i"
      using assms(1) by (simp add: listener_inv_def addrs_ok_def)
    with Some assms show ?thesis
      by (simp add: pump_receive_def Let_def listener_inv_def inboxes_ok_deliver)
  next
    case None
    from None assms show ?thesis
      by (auto simp: pump_receive_def Let_def listener_inv_def deliver_quic_def tables_more split: option.split)
  qed
qed

lemma listener_inv_lookup:
  assumes "listener_inv s"
  shows "listener_inv (pump_lookup s)"
proof (cases "pump s")
  case (PumpLookup u pkt a)
  then have seen: "(a, u) \<in> set (stun_seen s)" using assms by (simp add: listener_inv_def)
  show ?thesis
  proof (cases "by_ufrag s u")
    case None
    have "fresh_ok (next_pc s) (pcs s) (inboxes s)" using assms by (simp add: listener_inv_def)
    then have "pcs s (next_pc s) = None" by (simp add: fresh_ok_def)
    then show ?thesis
      using assms seen None PumpLookup
      by (auto simp: pump_lookup_def listener_inv_def Let_def inboxes_ok_def inbox_ok_def empty_inbox_def fresh_ok_def)
  next
    case (Some e)
    then have "route_known (stun_seen s) (pcs s) a (en_inbox e)"
      using assms seen by (auto simp: listener_inv_def entries_ok_def route_known_def)
    then show ?thesis using assms Some PumpLookup by (simp add: pump_lookup_def listener_inv_def)
  qed
qed (use assms in \<open>simp_all add: pump_lookup_def\<close>)

lemma accept_ok_new: "accept_ok P q \<Longrightarrow> P i = None \<Longrightarrow> \<not> ps_surfacing p \<Longrightarrow> accept_ok (P(i \<mapsto> p)) q"
  by (auto simp: accept_ok_def)

lemma listener_inv_register:
  assumes "listener_inv s" and "\<forall>u i pkt a. pump s = PumpSpawn u i pkt a \<longrightarrow> pcs s i = None"
  shows "listener_inv (spawn_register s)"
proof (cases "pump s")
  case (PumpSpawn u i pkt a)
  let ?p = "\<lparr>ps_ufrag = u, ps_remote = a, ps_conn = True, ps_surfacing = False, ps_marked = False\<rparr>"
  have new: "pcs s i = None" using PumpSpawn assms(2) by blast
  note mono = tables_mono [OF order_refl pcs_keep_new [of "pcs s" i ?p, OF new]]
  have "i < next_pc s" using assms(1) PumpSpawn by (simp add: listener_inv_def)
  then show ?thesis
    using assms(1) PumpSpawn new
    by (auto simp: spawn_register_def listener_inv_def mono accept_ok_new fresh_ok_def)
qed (use assms in \<open>simp_all add: spawn_register_def\<close>)

lemma listener_inv_spawned:
  assumes "listener_inv s" and "\<forall>u i pkt a. pump s = PumpSpawn u i pkt a \<longrightarrow> ok \<longrightarrow> pcs s i \<noteq> None"
  shows "listener_inv (pump_spawned ok s)"
proof (cases "pump s")
  case (PumpSpawn u i pkt a)
  show ?thesis
  proof (cases ok)
    case True
    then obtain p where p: "pcs s i = Some p" using assms(2) PumpSpawn by blast
    then have "ps_ufrag p = u" and "(a, u) \<in> set (stun_seen s)" using assms(1) PumpSpawn by (simp_all add: listener_inv_def)
    then show ?thesis
      using assms(1) PumpSpawn True p
      by (auto simp: pump_spawned_def listener_inv_def entries_ok_def route_known_def)
  qed (use assms(1) PumpSpawn in \<open>simp add: pump_spawned_def listener_inv_def\<close>)
qed (use assms(1) in \<open>simp_all add: pump_spawned_def\<close>)

lemma listener_inv_learn: "listener_inv s \<Longrightarrow> listener_inv (pump_learn s)"
  by (cases "pump s") (auto simp: pump_learn_def listener_inv_def addrs_ok_def intro: inboxes_ok_deliver)

lemma listener_inv_pc:
  assumes "listener_inv s" and "pcs s i = Some p" and "ps_ufrag q = ps_ufrag p"
    and "\<not> (ps_conn q \<and> ps_surfacing q)" and "ps_conn q \<or> ps_surfacing q \<longrightarrow> ps_conn p \<or> ps_surfacing p"
  shows "listener_inv (s\<lparr>pcs := (pcs s)(i \<mapsto> q)\<rparr>)"
proof -
  note mono = tables_mono [OF order_refl pcs_keep_same [of "pcs s" i p q, OF assms(2,3)]]
  have "pump_ok (stun_seen s) ((pcs s)(i \<mapsto> q)) (next_pc s) (pump s)"
    using assms(1-3) route_known_mono [OF _ order_refl pcs_keep_same [of "pcs s" i p q, OF assms(2,3)]]
    by (cases "pump s") (auto simp: listener_inv_def)
  moreover have "accept_ok ((pcs s)(i \<mapsto> q)) (accepted_conns s @ accept_queue s)"
    using assms by (auto simp: listener_inv_def accept_ok_def)
  moreover have "fresh_ok (next_pc s) ((pcs s)(i \<mapsto> q)) (inboxes s)"
    using assms(1,2) by (auto simp: listener_inv_def fresh_ok_def)
  ultimately show ?thesis using assms(1) mono by (simp add: listener_inv_def)
qed

lemma listener_inv_removed: "listener_inv s \<Longrightarrow> listener_inv (remove_ufrag u s)"
  by (simp add: listener_inv_def remove_ufrag_ok)

lemma listener_inv_change:
  assumes "listener_inv s"
  shows "listener_inv (pc_state_change i ch s)"
proof (cases "pcs s i")
  case (Some p)
  have "\<not> (ps_conn p \<and> ps_surfacing p)" using assms Some by (simp add: listener_inv_def accept_ok_def)
  with assms Some show ?thesis
    by (cases ch) (auto simp: pc_state_change_def intro!: listener_inv_removed listener_inv_pc [OF assms Some])
qed (use assms in \<open>simp add: pc_state_change_def\<close>)

lemma listener_inv_surface:
  assumes "listener_inv s" and "pcs s i = Some p" and "ps_surfacing p"
  shows "listener_inv (pc_surface i ok s)"
proof -
  let ?s = "s\<lparr>pcs := (pcs s)(i \<mapsto> p\<lparr>ps_surfacing := False\<rparr>)\<rparr>"
  have idle: "\<not> ps_conn p" using assms by (auto simp: listener_inv_def accept_ok_def)
  have inv: "listener_inv ?s" by (rule listener_inv_pc [OF assms(1,2)]) (simp_all add: assms(3))
  have "AcWebrtc i \<notin> set (accepted_conns s @ accept_queue s)"
    using assms by (auto simp: listener_inv_def accept_ok_def)
  with inv idle have "accept_ok (pcs ?s) ((accepted_conns s @ accept_queue s) @ [AcWebrtc i])"
    by (auto simp: listener_inv_def accept_ok_def)
  with inv assms(2) show ?thesis by (simp add: pc_surface_def listener_inv_def Let_def)
qed

lemma inbox_recv_ok: "inbox_ok L P i b \<Longrightarrow> inbox_ok L P i (snd (inbox_recv closed cap gone b))"
  by (auto simp: inbox_recv_def inbox_ok_def split: list.split)

lemma listener_inv_inbox:
  assumes "listener_inv s" and "inboxes s i = Some b" and "\<And>L P. inbox_ok L P i b \<Longrightarrow> inbox_ok L P i b'"
  shows "listener_inv (s\<lparr>inboxes := (inboxes s)(i \<mapsto> b')\<rparr>)"
  using assms by (auto simp: listener_inv_def inboxes_ok_def fresh_ok_def)

lemma listener_inv_idle:
  "listener_inv s \<Longrightarrow> listener_inv (pump_receive_failed s)" "listener_inv s \<Longrightarrow> listener_inv (pump_shutdown s)"
  by (simp_all add: pump_receive_failed_def pump_shutdown_def listener_inv_def)

lemma listener_step_inv:
  assumes "listener_inv s" and "listener_guard s e"
  shows "listener_inv (listener_step m u s e)"
proof (cases e)
  case (LvPcRecv i cap gone)
  then show ?thesis
    using assms(1) listener_inv_inbox [OF assms(1) _ inbox_recv_ok, of i]
    by (auto simp: pc_recv_def Let_def split: option.split prod.split) (metis snd_conv)
next
  case (LvDropped i)
  then show ?thesis
    using assms(1) by (auto simp: pc_inbox_dropped_def split: option.split intro!: listener_inv_inbox) (simp add: inbox_ok_def)
next
  case (LvSurface i ok)
  then show ?thesis using assms by (auto intro: listener_inv_surface)
next
  case LvClose
  then show ?thesis
    using assms(1) by (simp add: listener_close_def close_all_def listener_inv_def entries_ok_def addrs_ok_def)
next
  case (LvQuic k)
  then show ?thesis using assms by (auto simp: quic_accepted_def listener_inv_def accept_ok_def)
next
  case (LvAccept gone)
  then show ?thesis
    using assms(1) by (auto simp: listener_accept_def listener_inv_def split: list.split)
next
  case (LvQuicRecv cap)
  then show ?thesis
    using assms(1) by (simp add: quic_poll_recv_def listener_inv_def Let_def split: prod.split)
qed (use assms in \<open>simp_all add: listener_inv_receive listener_inv_lookup listener_inv_register listener_inv_spawned
      listener_inv_learn listener_inv_change listener_inv_idle\<close>)

interpretation listener: machine "listener_step m u" listener_guard listener_inv for m u
  by unfold_locales (rule listener_step_inv)

lemma listen_inv: "listener_inv (listen_state local hash)"
  by (simp add: listener_inv_def listen_state_def entries_ok_def addrs_ok_def inboxes_ok_def fresh_ok_def accept_ok_def)

section \<open>Demultiplexing\<close>

text \<open>
  Where a packet belongs: to the connection its address is known for; a STUN request from an
  unknown address to the connection of its ufrag, or to a new one; everything else to QUIC.
\<close>

datatype target = ToInbox nat | ToNew string | ToQuic

definition demux ::
  "(bytes \<Rightarrow> bool) \<Rightarrow> (bytes \<Rightarrow> bytes option) \<Rightarrow> Listener \<Rightarrow> bytes \<Rightarrow> SocketAddr \<Rightarrow> target" where
  "demux is_message username s pkt from =
     (case by_addr s from of
        Some i \<Rightarrow> ToInbox i
      | None \<Rightarrow>
          (case (if is_message pkt then extract_ufrag username pkt else None) of
             Some u \<Rightarrow> (case by_ufrag s u of Some e \<Rightarrow> ToInbox (en_inbox e) | None \<Rightarrow> ToNew u)
           | None \<Rightarrow> ToQuic))"

definition pump_handle :: "bytes \<Rightarrow> SocketAddr \<Rightarrow> listener_ev list" where
  "pump_handle d src = [LvReceive d src, LvLookup, LvRegister, LvSpawned True, LvLearn]"


text \<open>
  For the examples: a packet is a STUN message when it starts with a zero byte, and the rest
  is its USERNAME.
\<close>

definition ex_is_message :: "bytes \<Rightarrow> bool" where
  "ex_is_message p \<longleftrightarrow> p \<noteq> [] \<and> hd p = 0"

definition ex_username :: "bytes \<Rightarrow> bytes option" where
  "ex_username p = Some (tl p)"

definition guest_addr :: SocketAddr where
  "guest_addr = \<lparr>sa_ip = V4 167772161, sa_port = 50000\<rparr>"

definition bound :: Listener where
  "bound = listen_state \<lparr>sa_ip = V6 0, sa_port = 4433\<rparr> ''uEiA''"

lemma guest_canonical [simp]: "canonical guest_addr = guest_addr"
  by (simp add: canonical_def guest_addr_def)

lemma ex_ufrag: "extract_ufrag ex_username [0, 97] = Some ''a''" "ex_is_message [0, 97]"
proof -
  have "char_of (97::nat) = CHR ''a''" by code_simp
  then show "extract_ufrag ex_username [0, 97] = Some ''a''" "ex_is_message [0, 97]"
    by (simp_all add: extract_ufrag_def ex_username_def ex_is_message_def)
qed

lemma bound_fields [simp]:
  "by_addr bound = Map.empty" "by_ufrag bound = Map.empty" "inboxes bound = Map.empty" "pump bound = PumpIdle" "listener_inv bound"
  by (simp_all add: bound_def listen_inv) (simp_all add: listen_state_def)


section \<open>Isolation, and the accept queue\<close>

lemma seen_step:
  assumes "x \<in> set (stun_seen (listener_step m u s e))"
  shows "x \<in> set (stun_seen s) \<or>
    (\<exists>d src. e = LvReceive d src \<and> fst x = canonical src \<and> m (take 1500 d) \<and> extract_ufrag u (take 1500 d) = Some (snd x))"
proof (cases e)
  case (LvReceive d src)
  then show ?thesis
    using assms by (auto simp: pump_receive_def Let_def deliver_quic_def split: option.splits if_splits)
next
  case (LvChange i ch)
  then show ?thesis using assms by (cases ch) (auto simp: pc_state_change_def split: option.splits if_splits)
qed (use assms in \<open>auto simp: pump_receive_failed_def pump_lookup_def spawn_register_def pump_spawned_def pump_learn_def
      pump_shutdown_def pc_surface_def quic_accepted_def listener_accept_def listener_close_def close_all_def pc_recv_def
      quic_poll_recv_def pc_inbox_dropped_def Let_def split: pump_state.splits option.splits if_splits list.splits prod.splits\<close>)

lemma seen_run:
  "x \<in> set (stun_seen (foldl (listener_step m u) s es)) \<Longrightarrow> x \<in> set (stun_seen s) \<or>
    (\<exists>d src. LvReceive d src \<in> set es \<and> fst x = canonical src \<and> m (take 1500 d) \<and> extract_ufrag u (take 1500 d) = Some (snd x))"
  by (induction es arbitrary: s) (fastforce dest: seen_step)+

lemma accepted_step:
  assumes "AcWebrtc i \<in> set (accepted_conns (listener_step m u s e) @ accept_queue (listener_step m u s e))"
  shows "AcWebrtc i \<in> set (accepted_conns s @ accept_queue s) \<or> e = LvSurface i True"
proof (cases e)
  case (LvReceive d src)
  then show ?thesis
    using assms by (auto simp: pump_receive_def Let_def deliver_quic_def split: option.splits if_splits)
next
  case (LvChange i ch)
  then show ?thesis using assms by (cases ch) (auto simp: pc_state_change_def split: option.splits if_splits)
qed (use assms in \<open>auto simp: pump_receive_failed_def pump_lookup_def spawn_register_def pump_spawned_def pump_learn_def
      pump_shutdown_def pc_surface_def quic_accepted_def listener_accept_def listener_close_def close_all_def pc_recv_def
      quic_poll_recv_def pc_inbox_dropped_def Let_def split: pump_state.splits option.splits if_splits list.splits prod.splits\<close>)

lemma accepted_run:
  "AcWebrtc i \<in> set (accepted_conns (foldl (listener_step m u) s es) @ accept_queue (foldl (listener_step m u) s es))
   \<Longrightarrow> AcWebrtc i \<in> set (accepted_conns s @ accept_queue s) \<or> LvSurface i True \<in> set es"
proof (induction es arbitrary: s)
  case (Cons e es)
  then show ?case using accepted_step [of i m u s e] by fastforce
qed simp

text \<open>
  C30: Connections are isolated: over every run of a listener, a packet in the inbox of a
  connection came from an address that had sent a STUN request with the ufrag of that
  connection, and an inbox never holds more than 256 packets.
\<close>

theorem connections_isolated:
  assumes "legal (listener_step m u) listener_guard (listen_state local hash) es"
    and "inboxes (foldl (listener_step m u) (listen_state local hash) es) i = Some b" and "(pkt, a) \<in> set (ib_packets b)"
  shows "length (ib_packets b) \<le> 256
    \<and> (\<exists>p d src. pcs (foldl (listener_step m u) (listen_state local hash) es) i = Some p
        \<and> LvReceive d src \<in> set es \<and> canonical src = a
        \<and> m (take 1500 d) \<and> extract_ufrag u (take 1500 d) = Some (ps_ufrag p))"
proof -
  let ?t = "foldl (listener_step m u) (listen_state local hash) es"
  have "listener_inv ?t" using listen_inv assms(1) by (rule listener.run_inv)
  then have ib: "inbox_ok (stun_seen ?t) (pcs ?t) i b" using assms(2) by (simp add: listener_inv_def inboxes_ok_def)
  then obtain p where p: "pcs ?t i = Some p" "(a, ps_ufrag p) \<in> set (stun_seen ?t)"
    using assms(3) by (auto simp: inbox_ok_def route_known_def)
  from seen_run [OF p(2)] ib p(1) show ?thesis by (fastforce simp: listen_state_def inbox_ok_def)
qed

text \<open>A guest that connected: its request, the state change, its HELLO, and \<open>accept\<close>.\<close>

definition guest_run :: "listener_ev list" where
  "guest_run = pump_handle [0, 97] guest_addr @ [LvReceive [22, 1] guest_addr]"

lemma guest_run_legal: "legal (listener_step ex_is_message ex_username) listener_guard bound guest_run"
  by (simp add: guest_run_def pump_handle_def bound_def listen_state_def pump_receive_def ex_ufrag pump_lookup_def
      spawn_register_def pump_spawned_def pump_learn_def deliver_def empty_inbox_def Let_def)

definition guested :: Listener where
  "guested = foldl (listener_step ex_is_message ex_username) bound guest_run"

lemma guested_facts:
  "pcs guested 0 = Some \<lparr>ps_ufrag = ''a'', ps_remote = guest_addr, ps_conn = True, ps_surfacing = False, ps_marked = False\<rparr>"
  "accept_queue guested = []" "accepted_conns guested = []"
  by (simp_all add: guested_def guest_run_def pump_handle_def bound_def listen_state_def pump_receive_def ex_ufrag
      pump_lookup_def spawn_register_def pump_spawned_def pump_learn_def deliver_def empty_inbox_def Let_def)

lemma guest_connects:
  "\<exists>p. pcs (pc_state_change 0 ChConnected guested) 0 = Some p \<and> ps_surfacing p"
  "accept_queue (pc_state_change 0 ChConnected guested) = accept_queue guested"
  by (simp_all add: pc_state_change_def guested_facts)

lemma guest_inbox:
  "inboxes (foldl (listener_step ex_is_message ex_username) bound guest_run) 0
     = Some \<lparr>ib_packets = [([0, 97], guest_addr), ([22, 1], guest_addr)], ib_live = True\<rparr>"
  by (simp add: guest_run_def pump_handle_def bound_def listen_state_def pump_receive_def ex_ufrag pump_lookup_def
      spawn_register_def pump_spawned_def pump_learn_def deliver_def empty_inbox_def try_send_def Let_def)

theorem connections_isolated_witness:
  "\<exists>d src. LvReceive d src \<in> set guest_run \<and> canonical src = guest_addr \<and> ex_is_message (take 1500 d)"
proof -
  let ?b = "\<lparr>ib_packets = [([0, 97], guest_addr), ([22, 1], guest_addr)], ib_live = True\<rparr>"
  have "([22, 1], guest_addr) \<in> set (ib_packets ?b)" by simp
  from connections_isolated [OF guest_run_legal [unfolded bound_def] guest_inbox [unfolded bound_def] this]
  show ?thesis by blast
qed

text \<open>
  \<open>accept\<close> yields each connection once, and a WebRTC connection only after its task saw the
  HELLO exchange complete: over every run, nothing occurs twice among the connections that
  were accepted and those that wait, and each WebRTC connection among them was established.
\<close>

theorem accepted_once:
  assumes "legal (listener_step m u) listener_guard (listen_state local hash) es"
  shows "let t = foldl (listener_step m u) (listen_state local hash) es
    in distinct (accepted_conns t @ accept_queue t)
       \<and> (\<forall>i. AcWebrtc i \<in> set (accepted_conns t @ accept_queue t) \<longrightarrow> LvSurface i True \<in> set es)"
proof -
  let ?t = "foldl (listener_step m u) (listen_state local hash) es"
  have "listener_inv ?t" using listen_inv assms by (rule listener.run_inv)
  then have "distinct (accepted_conns ?t @ accept_queue ?t)" by (simp add: listener_inv_def accept_ok_def)
  then show ?thesis using accepted_run [of _ m u "listen_state local hash" es] by (auto simp: Let_def listen_state_def)
qed

theorem accepted_once_witness:
  "distinct (accepted_conns (foldl (listener_step ex_is_message ex_username) bound
      (guest_run @ [LvChange 0 ChConnected, LvSurface 0 True, LvChange 0 ChConnected, LvAccept False])))"
proof -
  have "legal (listener_step ex_is_message ex_username) listener_guard bound
      (guest_run @ [LvChange 0 ChConnected, LvSurface 0 True, LvChange 0 ChConnected, LvAccept False])"
    using guest_run_legal guest_connects guested_facts(2) by (simp add: legal_append guested_def [symmetric])
  from accepted_once [OF this [unfolded bound_def]] show ?thesis by (simp add: Let_def bound_def)
qed

section \<open>Addresses on a dual-stack socket\<close>

lemma mapped_of_canonical:
  assumes "unat b div 2 ^ 32 = v4_mapped_prefix"
  shows "to_ipv6_mapped (of_nat (unat b mod 2 ^ 32)) = b"
proof -
  have "unat (of_nat (unat b mod 2 ^ 32) :: u32) = unat b mod 2 ^ 32" by (rule unat_of_nat_small) simp
  then have "unat (to_ipv6_mapped (of_nat (unat b mod 2 ^ 32))) = unat b"
    using assms by (simp only: unat_mapped) (metis div_mult_mod_eq)
  then show ?thesis by (simp add: word_unat_eq_iff)
qed

text \<open>
  Replies reach their sender: a reply to the normalized source of a packet goes to the
  address it came from, on an IPv4 socket and on a dual-stack socket, where IPv4 clients
  appear as mapped addresses and IPv6 clients as themselves.
\<close>

theorem reply_reaches_sender:
  assumes "is_ipv6 (sa_ip source) = is_ipv6 (sa_ip local)"
  shows "map_for_socket local (canonical source) = source"
proof (cases "sa_ip source")
  case (V4 a)
  with assms show ?thesis by (simp add: map_for_socket_def canonical_def)
next
  case (V6 b)
  with assms mapped_of_canonical [of b] show ?thesis by (simp add: map_for_socket_def canonical_def)
qed

theorem reply_reaches_sender_witness:
  "map_for_socket \<lparr>sa_ip = V6 0, sa_port = 4433\<rparr> (canonical \<lparr>sa_ip = V6 281473981316801, sa_port = 9\<rparr>)
     = \<lparr>sa_ip = V6 281473981316801, sa_port = 9\<rparr>"
  by (rule reply_reaches_sender) simp

section \<open>Concurrent callbacks and close\<close>

text \<open>The address routes to an inbox that no entry names, and the pump is busy with neither.\<close>

definition orphan :: "SocketAddr \<Rightarrow> nat \<Rightarrow> Listener \<Rightarrow> bool" where
  "orphan a i s \<longleftrightarrow>
     by_addr s a = Some i \<and> (\<forall>u e. by_ufrag s u = Some e \<longrightarrow> en_inbox e \<noteq> i) \<and> i < next_pc s
     \<and> (case pump s of
          PumpLookup u pkt b \<Rightarrow> b \<noteq> a
        | PumpSpawn u j pkt b \<Rightarrow> b \<noteq> a \<and> j \<noteq> i
        | PumpLearn j pkt b \<Rightarrow> b \<noteq> a
        | _ \<Rightarrow> True)"

lemma orphan_remove: "orphan a i s \<Longrightarrow> orphan a i (remove_ufrag u s)"
  by (auto simp: orphan_def remove_ufrag_def split: option.splits pump_state.splits)

lemma orphan_frame [simp]: "orphan a i (s\<lparr>pcs := P\<rparr>) = orphan a i s" "orphan a i (s\<lparr>inboxes := I\<rparr>) = orphan a i s"
  "orphan a i (s\<lparr>accept_queue := Q\<rparr>) = orphan a i s" "orphan a i (s\<lparr>quic_inbox := q\<rparr>) = orphan a i s"
  "orphan a i (s\<lparr>shutdown_notified := b\<rparr>) = orphan a i s" "orphan a i (s\<lparr>accepted_conns := H\<rparr>) = orphan a i s"
  "orphan a i (deliver j p s) = orphan a i s"
  by (simp_all add: orphan_def)

lemma orphan_step:
  assumes "orphan a i s" and "listener_guard s e" and "e \<noteq> LvClose"
  shows "orphan a i (listener_step m u s e)"
proof (cases e)
  case (LvReceive d src)
  with assms show ?thesis
    by (auto simp: pump_receive_def Let_def deliver_quic_def split: option.split) (auto simp: orphan_def)
next
  case (LvChange j ch)
  then show ?thesis
    using assms by (cases ch) (auto simp: pc_state_change_def intro: orphan_remove split: option.split)
next
  case LvLookup
  then show ?thesis
    using assms(1) by (auto simp: pump_lookup_def orphan_def Let_def split: pump_state.splits option.split)
next
  case (LvSpawned ok)
  then show ?thesis
    using assms(1) by (auto simp: pump_spawned_def orphan_def split: pump_state.splits)
next
  case LvLearn
  then show ?thesis
    using assms(1) by (auto simp: pump_learn_def split: pump_state.splits) (auto simp: orphan_def)
qed (use assms in \<open>auto simp: pump_receive_failed_def spawn_register_def pump_shutdown_def pc_surface_def quic_accepted_def
      listener_accept_def pc_recv_def quic_poll_recv_def pc_inbox_dropped_def Let_def
      split: pump_state.splits option.splits if_splits list.splits prod.splits\<close>, (auto simp: orphan_def)?)

interpretation orphan: machine "listener_step m u" "\<lambda>s e. listener_guard s e \<and> e \<noteq> LvClose" "orphan a i" for m u a i
  by unfold_locales (simp add: orphan_step)

lemma orphan_born:
  assumes "listener_inv s" and "pump s = PumpLearn i pkt a"
  shows "orphan a i (foldl (listener_step m u) s [LvChange i ChFailed, LvLearn])"
proof -
  from assms obtain p where p: "pcs s i = Some p" by (auto simp: listener_inv_def route_known_def)
  let ?t = "pc_state_change i ChFailed s"
  have t: "?t = remove_ufrag (ps_ufrag p) (s\<lparr>pcs := (pcs s)(i \<mapsto> p\<lparr>ps_marked := True\<rparr>)\<rparr>)"
    using p by (simp add: pc_state_change_def)
  have "i < next_pc s" using assms(1) p unfolding listener_inv_def fresh_ok_def
    by (metis not_le_imp_less option.distinct(1))
  moreover have "en_inbox e \<noteq> i" if "by_ufrag ?t f = Some e" for f e
  proof
    assume i: "en_inbox e = i"
    have "by_ufrag s f = Some e" and "f \<noteq> ps_ufrag p"
      using that by (auto simp: t remove_ufrag_def split: option.splits if_splits)
    moreover from this assms(1) have "en_inbox e = en_pc e" "\<exists>q. pcs s (en_pc e) = Some q \<and> ps_ufrag q = f"
      by (auto simp: listener_inv_def entries_ok_def)
    ultimately show False using p i by auto
  qed
  ultimately show ?thesis
    using assms(2) by (simp add: pump_learn_def t [symmetric]) (auto simp: orphan_def t)
qed

text \<open>
  A connection that fails while the pump is about to learn an address poisons that
  address: the callback removes the entry, the pump then records the route to it, and from
  then on, whatever happens short of closing the listener, every packet from the address goes
  to the dead inbox. Neither a new STUN request nor a QUIC packet from it is ever served.
\<close>

theorem orphaned_address:
  assumes "listener_inv s" and "pump s = PumpLearn i pkt a"
    and "legal (listener_step m u) (\<lambda>s e. listener_guard s e \<and> e \<noteq> LvClose)
           (foldl (listener_step m u) s [LvChange i ChFailed, LvLearn]) es"
  shows "let t = foldl (listener_step m u) s ([LvChange i ChFailed, LvLearn] @ es)
    in (\<forall>f e. by_ufrag t f = Some e \<longrightarrow> en_inbox e \<noteq> i) \<and> (\<forall>pkt. demux m u t pkt a = ToInbox i)"
proof -
  have "orphan a i (foldl (listener_step m u) s ([LvChange i ChFailed, LvLearn] @ es))"
    unfolding foldl_append using orphan_born [OF assms(1,2)] assms(3) by (rule orphan.run_inv)
  then show ?thesis unfolding Let_def orphan_def demux_def by simp
qed

definition learning :: Listener where
  "learning = foldl (listener_step ex_is_message ex_username) bound
     [LvReceive [0, 97] guest_addr, LvLookup, LvRegister, LvSpawned True]"

lemma learning_facts: "listener_inv learning" "pump learning = PumpLearn 0 [0, 97] guest_addr"
proof -
  have "legal (listener_step ex_is_message ex_username) listener_guard bound
     [LvReceive [0, 97] guest_addr, LvLookup, LvRegister, LvSpawned True]"
    using guest_run_legal by (simp add: guest_run_def pump_handle_def)
  then show "listener_inv learning" unfolding learning_def by (rule listener.run_inv [rotated]) simp
  show "pump learning = PumpLearn 0 [0, 97] guest_addr"
    by (simp add: learning_def bound_def listen_state_def pump_receive_def ex_ufrag pump_lookup_def
      spawn_register_def pump_spawned_def Let_def)
qed

theorem orphaned_address_witness:
  "demux ex_is_message ex_username
     (foldl (listener_step ex_is_message ex_username) learning [LvChange 0 ChFailed, LvLearn]) [64] guest_addr = ToInbox 0"
  using orphaned_address [OF learning_facts, of ex_is_message ex_username "[]"] by (simp add: Let_def)

definition unstoppable :: "Listener \<Rightarrow> bool" where
  "unstoppable s \<longleftrightarrow> pump s \<noteq> PumpDone \<and> \<not> shutdown_notified s"

lemma unstoppable_step:
  assumes "unstoppable s" and "listener_guard s e" and "e \<noteq> LvClose"
  shows "unstoppable (listener_step m u s e)"
proof (cases e)
  case (LvReceive d src)
  with assms show ?thesis
    by (auto simp: pump_receive_def Let_def deliver_quic_def unstoppable_def split: option.split)
next
  case (LvChange j ch)
  then show ?thesis
    using assms by (cases ch) (auto simp: pc_state_change_def unstoppable_def split: option.split)
qed (use assms in \<open>auto simp: unstoppable_def pump_receive_failed_def pump_lookup_def spawn_register_def pump_spawned_def
      pump_learn_def pc_surface_def quic_accepted_def listener_accept_def pc_recv_def quic_poll_recv_def pc_inbox_dropped_def
      Let_def split: pump_state.splits option.splits list.splits prod.splits\<close>)

interpretation unstoppable: machine "listener_step m u" "\<lambda>s e. listener_guard s e \<and> e \<noteq> LvClose" unstoppable for m u
  by unfold_locales (simp add: unstoppable_step)

text \<open>
  A close that arrives while the pump is outside its \<open>select!\<close>, for instance while it
  awaits \<open>spawn_pc\<close>, does not stop it: the notification is lost, the pump runs on for ever
  unless the listener is closed again, and the connection it was starting is entered in the
  tables after they were cleared, so nobody closes it.
\<close>

theorem shutdown_lost:
  assumes "pump s \<noteq> PumpIdle" and "pump s \<noteq> PumpDone"
    and "legal (listener_step m u) (\<lambda>s e. listener_guard s e \<and> e \<noteq> LvClose) (listener_close s) es"
  shows "pump (foldl (listener_step m u) (listener_close s) es) \<noteq> PumpDone
    \<and> (\<forall>f i pkt a. pump s = PumpSpawn f i pkt a \<longrightarrow>
         by_ufrag (foldl (listener_step m u) (listener_close s) [LvSpawned True, LvLearn]) f = Some \<lparr>en_inbox = i, en_pc = i\<rparr>)"
proof -
  have "unstoppable (listener_close s)"
    using assms(1,2) by (simp add: unstoppable_def listener_close_def close_all_def)
  then have "unstoppable (foldl (listener_step m u) (listener_close s) es)" using assms(3) by (rule unstoppable.run_inv)
  then show ?thesis
    by (auto simp: unstoppable_def listener_close_def close_all_def pump_spawned_def pump_learn_def)
qed

theorem shutdown_lost_witness:
  "pump (foldl (listener_step ex_is_message ex_username) (listener_close learning) [LvLearn, LvReceiveFailed]) \<noteq> PumpDone"
proof -
  have "pump (listener_close learning) = PumpLearn 0 [0, 97] guest_addr"
    by (simp add: listener_close_def close_all_def learning_facts)
  then have "legal (listener_step ex_is_message ex_username) (\<lambda>s e. listener_guard s e \<and> e \<noteq> LvClose)
      (listener_close learning) [LvLearn, LvReceiveFailed]" by (simp add: pump_learn_def)
  from shutdown_lost [OF _ _ this] show ?thesis by (simp add: learning_facts)
qed

end
