(* ===== verification/KpsWriter.thy ===== *)
theory KpsWriter
  imports KpsStreamProps
begin

text \<open>
  The writer task of \<open>stream.rs\<close> as a loop of its own: no order of answers of the transport
  keeps it busy for ever, and when the transport takes what it is given, everything that was
  accepted reaches the wire.
\<close>

section \<open>The task's own moves\<close>

fun writer_move :: "stream_ev \<Rightarrow> bool" where
  "writer_move SvWriterStart = True"
| "writer_move SvWriterSelect = True"
| "writer_move (SvWriterBuffer amount) = True"
| "writer_move SvWriterTransmit = True"
| "writer_move (SvWriterSent ok) = True"
| "writer_move _ = False"

text \<open>Each frame costs at most four moves; the position counts those of the frame in hand.\<close>

fun position_weight :: "writer \<Rightarrow> nat" where
  "position_weight WrDone = 0"
| "position_weight WrIdle = 1"
| "position_weight WrWaiting = 2"
| "position_weight (WrLife m sent) = (if sent then 2 else 3)"
| "position_weight (WrData fr r sent) = (if sent then 2 else 3)"
| "position_weight (WrHold fr r) = 4"

definition writer_weight :: "WebrtcStream \<Rightarrow> nat" where
  "writer_weight s = 4 * (length (life_q s) + length (data_q s)) + position_weight (writer_at s)"

lemmas writer_defs = writer_start_def writer_select_def writer_buffer_def writer_transmit_def writer_sent_def
  writer_exit_def release_held_def mark_terminal_sent_def

text \<open>A move either changes nothing (the task waits) or brings the task closer to its end.\<close>

lemma quiet_moves [simp]:
  "writer_weight (writer_exit s) = 0" "data_q (release_held r s) = data_q s" "life_q (release_held r s) = life_q s"
  "writer_at (release_held r s) = writer_at s" "data_q (mark_terminal_sent fr s) = data_q s"
  "life_q (mark_terminal_sent fr s) = life_q s" "handle_live (release_held r s) = handle_live s"
  "drop_data (release_held r s) = drop_data s" "dc_open (release_held r s) = dc_open s" "dc_closed (release_held r s) = dc_closed s"
  "accepted (release_held r s) = accepted s" "wire_out (release_held r s) = wire_out s"
  by (simp_all add: writer_weight_def writer_exit_def release_held_def mark_terminal_sent_def)

lemma start_progress: "writer_at s = WrWaiting \<Longrightarrow> writer_start s \<noteq> s \<Longrightarrow> writer_weight (writer_start s) < writer_weight s"
  by (cases "wait_open s") (auto simp: writer_start_def split: sum.splits, auto simp: writer_weight_def)

lemma select_progress: "writer_at s = WrIdle \<Longrightarrow> writer_select s \<noteq> s \<Longrightarrow> writer_weight (writer_select s) < writer_weight s"
  by (cases "life_q s"; cases "data_q s") (auto simp: writer_select_def Let_def, auto simp: writer_weight_def)

lemma buffer_progress:
  "writer_at s = WrHold fr r \<Longrightarrow> writer_buffer amount s \<noteq> s \<Longrightarrow> writer_weight (writer_buffer amount s) < writer_weight s"
  by (simp add: writer_buffer_def split: if_splits) (simp_all add: writer_weight_def)

lemma transmit_progress:
  "writer_at s = WrLife m False \<or> writer_at s = WrData fr r False \<Longrightarrow> writer_weight (writer_transmit s) < writer_weight s"
  by (auto simp: writer_transmit_def writer_weight_def)

lemma sent_progress:
  "writer_at s = WrLife m b \<or> writer_at s = WrData fr r b \<Longrightarrow> writer_weight (writer_sent ok s) < writer_weight s"
  by (auto simp: writer_sent_def Let_def, auto simp: writer_weight_def)

lemma move_progress:
  assumes "writer_move e" and "stream_guard s e" and "stream_step s e \<noteq> s"
  shows "writer_weight (stream_step s e) < writer_weight s"
proof (cases e)
  case SvWriterStart
  with assms start_progress [of s] show ?thesis by simp
next
  case SvWriterSelect
  with assms select_progress [of s] show ?thesis by simp
next
  case (SvWriterBuffer amount)
  with assms buffer_progress [of s] show ?thesis by fastforce
next
  case SvWriterTransmit
  with assms transmit_progress [of s] show ?thesis by fastforce
next
  case (SvWriterSent ok)
  with assms sent_progress [of s] show ?thesis by fastforce
qed (use assms(1) in simp_all)

lemma moves_bounded:
  assumes "legal stream_step stream_guard s es" and "\<forall>e\<in>set es. writer_move e"
    and "\<And>n. n < length es \<Longrightarrow> foldl stream_step s (take (Suc n) es) \<noteq> foldl stream_step s (take n es)"
  shows "length es + writer_weight (foldl stream_step s es) \<le> writer_weight s"
  using assms
proof (induction es arbitrary: s)
  case (Cons e es)
  have "stream_step s e \<noteq> s" using Cons.prems(3) [of 0] by simp
  then have "writer_weight (stream_step s e) < writer_weight s" using Cons.prems by (intro move_progress) simp_all
  moreover have "length es + writer_weight (foldl stream_step (stream_step s e) es) \<le> writer_weight (stream_step s e)"
    using Cons.prems(1,2) Cons.prems(3) [of "Suc _"] by (intro Cons.IH) simp_all
  ultimately show ?case by simp
qed simp

section \<open>The loop with a transport that takes everything\<close>

fun turn_of :: "writer \<Rightarrow> stream_ev" where
  "turn_of WrWaiting = SvWriterStart"
| "turn_of (WrHold fr r) = SvWriterBuffer 0"
| "turn_of (WrLife m sent) = (if sent then SvWriterSent True else SvWriterTransmit)"
| "turn_of (WrData fr r sent) = (if sent then SvWriterSent True else SvWriterTransmit)"
| "turn_of _ = SvWriterSelect"

definition writer_turn :: "WebrtcStream \<Rightarrow> WebrtcStream" where
  "writer_turn s = stream_step s (turn_of (writer_at s))"

text \<open>The task waits for the channel to open or for a frame, or it has ended.\<close>

definition writer_waits :: "WebrtcStream \<Rightarrow> bool" where
  "writer_waits s \<longleftrightarrow>
     (case writer_at s of
        WrDone \<Rightarrow> True
      | WrWaiting \<Rightarrow> wait_open s = Pending
      | WrIdle \<Rightarrow> life_q s = [] \<and> data_q s = [] \<and> handle_live s
      | _ \<Rightarrow> False)"

lemma turn_moves: "writer_at s \<noteq> WrDone \<Longrightarrow> stream_guard s (turn_of (writer_at s)) \<and> writer_move (turn_of (writer_at s))"
  by (cases "writer_at s") auto

lemma turn_changes:
  assumes "\<not> writer_waits s"
  shows "writer_turn s \<noteq> s"
proof
  assume "writer_turn s = s"
  then have same: "writer_at (writer_turn s) = writer_at s" "data_q (writer_turn s) = data_q s" "life_q (writer_turn s) = life_q s"
    by simp_all
  with assms show False
    by (cases "writer_at s"; cases "life_q s"; cases "data_q s")
       (auto simp: writer_turn_def writer_waits_def writer_start_def writer_select_def writer_buffer_def writer_transmit_def
         writer_sent_def writer_exit_def Let_def wait_open_def WRITE_BUFFER_LOW_def split: if_splits)
qed

lemma turn_progress: "\<not> writer_waits s \<Longrightarrow> writer_weight (writer_turn s) < writer_weight s"
proof -
  assume w: "\<not> writer_waits s"
  then have "writer_at s \<noteq> WrDone" by (auto simp: writer_waits_def)
  with turn_moves [of s] turn_changes [OF w] move_progress [of "turn_of (writer_at s)" s] show ?thesis
    by (simp add: writer_turn_def)
qed

function drain :: "WebrtcStream \<Rightarrow> WebrtcStream" where
  "drain s = (if writer_waits s then s else drain (writer_turn s))"
  by pat_completeness auto

termination
  by (relation "measure writer_weight") (simp_all add: turn_progress)

declare drain.simps [simp del]

lemma drain_run:
  "\<exists>es. legal stream_step stream_guard s es \<and> (\<forall>e\<in>set es. writer_move e) \<and> drain s = foldl stream_step s es
     \<and> length es \<le> writer_weight s"
proof (induction s rule: drain.induct)
  case (1 s)
  show ?case
  proof (cases "writer_waits s")
    case True
    then show ?thesis by (intro exI [of _ "[]"]) (simp add: drain.simps [of s])
  next
    case False
    then obtain es where es: "legal stream_step stream_guard (writer_turn s) es" "\<forall>e\<in>set es. writer_move e"
      "drain (writer_turn s) = foldl stream_step (writer_turn s) es" "length es \<le> writer_weight (writer_turn s)"
      using 1 by blast
    have "writer_at s \<noteq> WrDone" using False by (auto simp: writer_waits_def)
    with es False turn_moves [of s] turn_progress [OF False] show ?thesis
      by (intro exI [of _ "turn_of (writer_at s) # es"]) (simp add: drain.simps [of s] writer_turn_def)
  qed
qed

lemma drain_waits: "writer_waits (drain s)"
proof (induction s rule: drain.induct)
  case (1 s)
  then show ?case by (cases "writer_waits s") (simp_all add: drain.simps [of s])
qed

text \<open>What a turn leaves alone while the channel is open.\<close>

lemma turn_frame:
  assumes "dc_open s" "\<not> dc_closed s"
  shows "dc_open (writer_turn s) \<and> \<not> dc_closed (writer_turn s) \<and> handle_live (writer_turn s) = handle_live s
    \<and> accepted (writer_turn s) = accepted s \<and> drop_data (writer_turn s) = drop_data s"
  using assms
  by (cases "writer_at s"; cases "life_q s"; cases "data_q s")
     (auto simp: writer_turn_def writer_start_def writer_select_def writer_buffer_def writer_transmit_def
       writer_sent_def writer_exit_def mark_terminal_sent_def Let_def wait_open_def WRITE_BUFFER_LOW_def split: prod.split)

text \<open>The task ends only when the handle is gone and nothing is queued.\<close>

lemma turn_ends:
  assumes "dc_open s" "\<not> dc_closed s" and "writer_at s \<noteq> WrDone" and "writer_at (writer_turn s) = WrDone"
  shows "writer_at s = WrIdle \<and> life_q s = [] \<and> data_q s = [] \<and> \<not> handle_live s \<and> wire_out (writer_turn s) = wire_out s"
  using assms
  by (cases "writer_at s"; cases "life_q s"; cases "data_q s")
     (auto simp: writer_turn_def writer_start_def writer_select_def writer_buffer_def writer_transmit_def
       writer_sent_def writer_exit_def Let_def wait_open_def WRITE_BUFFER_LOW_def split: if_splits)

lemma drain_frame:
  assumes "dc_open s" "\<not> dc_closed s"
  shows "handle_live (drain s) = handle_live s \<and> accepted (drain s) = accepted s \<and> drop_data (drain s) = drop_data s
    \<and> (writer_at s \<noteq> WrDone \<longrightarrow> writer_at (drain s) = (if handle_live s then WrIdle else WrDone)
         \<and> life_q (drain s) = [] \<and> data_q (drain s) = [])"
  using assms
proof (induction s rule: drain.induct)
  case (1 s)
  show ?case
  proof (cases "writer_waits s")
    case True
    with 1(2) show ?thesis by (auto simp: drain.simps [of s] writer_waits_def wait_open_def split: writer.splits)
  next
    case False
    let ?t = "writer_turn s"
    have t: "dc_open ?t" "\<not> dc_closed ?t" "handle_live ?t = handle_live s" "accepted ?t = accepted s" "drop_data ?t = drop_data s"
      using turn_frame [OF 1(2,3)] by simp_all
    show ?thesis
    proof (cases "writer_at ?t = WrDone")
      case True
      have "writer_at s \<noteq> WrDone" using False by (auto simp: writer_waits_def)
      note e = turn_ends [OF 1(2,3) this True]
      then have "life_q ?t = []" "data_q ?t = []" by (simp_all add: writer_turn_def writer_select_def writer_exit_def)
      moreover have "drain ?t = ?t" using True by (simp add: drain.simps [of ?t] writer_waits_def)
      ultimately show ?thesis using False True e t by (simp add: drain.simps [of s])
    next
      case running: False
      with 1(1) [OF False t(1,2)] False t show ?thesis by (simp add: drain.simps [of s])
    qed
  qed
qed

text \<open>
  What is still to go out: the frame in hand, then the lifecycle queue, which has priority,
  then the DATA queue without what a reset has dropped.
\<close>

fun in_hand :: "writer \<Rightarrow> bytes list" where
  "in_hand (WrHold fr r) = [fr]"
| "in_hand (WrLife m sent) = (if sent then [] else [m])"
| "in_hand (WrData fr r sent) = (if sent then [] else [fr])"
| "in_hand _ = []"

definition remaining :: "WebrtcStream \<Rightarrow> bytes list" where
  "remaining s =
     in_hand (writer_at s) @ life_q s
       @ map fst (filter (\<lambda>x. \<not> (drop_data s \<and> is_kind FtData (fst x))) (data_q s))"

lemma turn_remaining:
  assumes "dc_open s" "\<not> dc_closed s"
  shows "wire_out (writer_turn s) @ remaining (writer_turn s) = wire_out s @ remaining s"
proof -
  have drop: "drop_data (writer_turn s) = drop_data s" using turn_frame [OF assms] by simp
  show ?thesis
    unfolding remaining_def drop using assms
    by (cases "writer_at s"; cases "life_q s"; cases "data_q s")
       (auto simp: writer_turn_def writer_start_def writer_select_def writer_buffer_def writer_transmit_def writer_sent_def
         writer_exit_def mark_terminal_sent_def Let_def wait_open_def WRITE_BUFFER_LOW_def split: prod.split)
qed

lemma drain_wire:
  assumes "dc_open s" "\<not> dc_closed s" and "writer_at s \<noteq> WrDone"
  shows "wire_out (drain s) = wire_out s @ remaining s"
  using assms
proof (induction s rule: drain.induct)
  case (1 s)
  show ?case
  proof (cases "writer_waits s")
    case True
    with 1(2-4) show ?thesis
      by (auto simp: drain.simps [of s] writer_waits_def wait_open_def remaining_def split: writer.splits)
  next
    case False
    let ?t = "writer_turn s"
    have t: "dc_open ?t" "\<not> dc_closed ?t" using turn_frame [OF 1(2,3)] by simp_all
    have "wire_out (drain ?t) = wire_out ?t @ remaining ?t"
    proof (cases "writer_at ?t = WrDone")
      case True
      note e = turn_ends [OF 1(2,3,4) True]
      then have "remaining ?t = []" by (simp add: writer_turn_def writer_select_def writer_exit_def remaining_def)
      moreover have "drain ?t = ?t" using True by (simp add: drain.simps [of ?t] writer_waits_def)
      ultimately show ?thesis by simp
    next
      case running: False
      from 1(1) [OF False t running] show ?thesis .
    qed
    with False turn_remaining [OF 1(2,3)] show ?thesis by (simp add: drain.simps [of s])
  qed
qed

lemma remaining_data:
  assumes "out_ok s" and "\<not> drop_data s" and "writer_at s \<noteq> WrDone"
  shows "data_of (wire_out s @ remaining s) = accepted s"
proof -
  have life: "data_of ms = []" if "list_all life_ok ms" for ms
    using that by (induction ms) (auto simp: life_ok_def data_payload_def is_kind_def encoder_defs)
  have "list_all life_ok (held_life s @ life_q s)"
    using out_okD(4) [OF assms(1)] by (simp add: pending_life_def)
  moreover have "in_hand (writer_at s) = map fst (held_data s) @ held_life s"
    by (simp add: held_data_def held_life_def split: writer.split)
  ultimately have "data_of (remaining s) = data_of (map fst (held_data s)) @ data_of (map fst (data_q s))"
    using assms(2) life by (simp add: remaining_def)
  with out_okD(7) [OF assms(1)] assms(2,3) show ?thesis by (simp add: payload_ok_def)
qed

section \<open>The property\<close>

text \<open>
  C35: The writer task terminates and loses nothing: in any reachable state of a stream with an
  open channel, if the transport takes what it is given, the task comes to rest after at
  most four moves per queued frame and four more. It then waits for the handle, or has ended
  when the handle is gone; both queues are empty; what went out is the frame in hand, then
  the lifecycle frames, then the DATA queue in order (without DATA after a reset); and with
  no reset the payload on the wire is all that the application's writes accepted.
\<close>

theorem writer_drains:
  assumes "stream_reachable s" and "dc_open s" and "\<not> dc_closed s" and "writer_at s \<noteq> WrDone"
  shows "(\<exists>es. legal stream_step stream_guard s es \<and> list_all writer_move es \<and> drain s = foldl stream_step s es
           \<and> length es \<le> 4 * (length (life_q s) + length (data_q s)) + 4)
     \<and> writer_at (drain s) = (if handle_live s then WrIdle else WrDone)
     \<and> life_q (drain s) = [] \<and> data_q (drain s) = []
     \<and> wire_out (drain s) = wire_out s @ remaining s
     \<and> (\<not> drop_data s \<longrightarrow> data_of (wire_out (drain s)) = accepted s)"
proof -
  have out: "out_ok s" using reachable_inv [OF assms(1)] by (simp add: stream_inv_def)
  obtain es where es: "legal stream_step stream_guard s es" "\<forall>e\<in>set es. writer_move e" "drain s = foldl stream_step s es"
    "length es \<le> writer_weight s"
    using drain_run by blast
  have "position_weight w \<le> 4" for w by (cases w) simp_all
  then have "length es \<le> 4 * (length (life_q s) + length (data_q s)) + 4"
    using es(4) unfolding writer_weight_def by (meson add_left_mono le_trans)
  then have "\<exists>es. legal stream_step stream_guard s es \<and> list_all writer_move es \<and> drain s = foldl stream_step s es
      \<and> length es \<le> 4 * (length (life_q s) + length (data_q s)) + 4"
    using es(1-3) unfolding list_all_iff by blast
  moreover have "writer_at (drain s) = (if handle_live s then WrIdle else WrDone)" "life_q (drain s) = []" "data_q (drain s) = []"
    using drain_frame [OF assms(2,3)] assms(4) by blast+
  moreover note drain_wire [OF assms(2-4)]
  moreover have "\<not> drop_data s \<longrightarrow> data_of (wire_out (drain s)) = accepted s"
    unfolding drain_wire [OF assms(2-4)] using remaining_data [OF out _ assms(4)] by blast
  ultimately show ?thesis by blast
qed

text \<open>Three bytes written in two frames and the end, none of it sent yet; the handle is dropped.\<close>

definition loaded :: WebrtcStream where
  "loaded = foldl stream_step fresh
     [SvOpen, SvWriterStart, SvWrite 7 [1, 2] (Ready (Inr ())) True, SvWrite 7 [3] (Ready (Inr ())) True,
      SvShutdown (Ready (Inr ())) True, SvDrop]"

lemma loaded_reachable: "stream_reachable loaded"
  unfolding loaded_def by (rule reachable_run [OF fresh_reachable]) (simp add: fresh_eval)

theorem writer_drains_witness:
  "writer_at (drain loaded) = WrDone \<and> wire_out (drain loaded) = [[0, 1, 2], [0, 3], [1]]
   \<and> data_of (wire_out (drain loaded)) = [1, 2, 3]"
proof -
  have l: "dc_open loaded" "\<not> dc_closed loaded" "writer_at loaded = WrIdle" "\<not> handle_live loaded" "wire_out loaded = []"
    "remaining loaded = [[0, 1, 2], [0, 3], [1]]" "\<not> drop_data loaded" "accepted loaded = [1, 2, 3]"
    by (simp_all add: loaded_def fresh_eval remaining_def)
  have "writer_at loaded \<noteq> WrDone" by (simp add: l)
  from writer_drains [OF loaded_reachable l(1,2) this] show ?thesis
    using l(4-8) by (simp add: data_payload_def is_kind_def)
qed

end
