(* ===== verification/KpsQuic.thy ===== *)
theory KpsQuic
  imports KpsAddress KpsNet
begin

unbundle bit_operations_syntax

text \<open>
  \<open>src/libs/rust/kps/src/quic.rs\<close>: the QUIC transport. The quinn connection and its streams
  are outside: what they answer is an argument, and the calls made on a stream's quinn halves
  are recorded in order. The hash function of the pin check is an argument too.
\<close>

section \<open>Dialing and pinning\<close>

text \<open>The \<open>host:port\<close> text that is parsed as a socket address.\<close>

definition socket_text :: "Address \<Rightarrow> string" where
  "socket_text a =
     (if CHR '':'' \<in> set (ad_ip a) then ''['' @ ad_ip a @ '']'' else ad_ip a)
       @ '':'' @ show_nat (unat (ad_port a))"

text \<open>
  \<open>dial\<close>: what it connects to and with which pinned digest. The arguments are the base64url
  decoder, the result of the TLS configuration, the parser of socket addresses, the result of
  binding the endpoint, and of the two steps of the connection attempt.
\<close>

definition quic_dial ::
  "(string \<Rightarrow> string + bytes) \<Rightarrow> string + unit \<Rightarrow> (string \<Rightarrow> string + SocketAddr) \<Rightarrow> string + unit
   \<Rightarrow> string + unit \<Rightarrow> string + unit \<Rightarrow> string \<Rightarrow> Error + (SocketAddr \<times> bytes)" where
  "quic_dial base64_decode tls parse_socket bound started connected addr =
     (case parse_address addr of
        Inl e \<Rightarrow> Inl e
      | Inr a \<Rightarrow>
          (case decode_certhash base64_decode (ad_certhash a) of
             Inl e \<Rightarrow> Inl e
           | Inr digest \<Rightarrow>
               (case tls of
                  Inl e \<Rightarrow> Inl (ErrDial (''tls config: '' @ e))
                | Inr _ \<Rightarrow>
                    (case parse_socket (socket_text a) of
                       Inl e \<Rightarrow> Inl (ErrAddress (''bad ip in address: '' @ e))
                     | Inr remote \<Rightarrow>
                         (case bound of
                            Inl e \<Rightarrow> Inl (ErrDial (''bind: '' @ e))
                          | Inr _ \<Rightarrow>
                              (case started of
                                 Inl e \<Rightarrow> Inl (ErrDial e)
                               | Inr _ \<Rightarrow>
                                   (case connected of
                                      Inl e \<Rightarrow> Inl (ErrDial e)
                                    | Inr _ \<Rightarrow> Inr (remote, digest))))))))"

text \<open>\<open>PinVerifier::verify_server_cert\<close>: a fold over the bytes, without an early exit.\<close>

definition pin_diff :: "bytes \<Rightarrow> bytes \<Rightarrow> u8" where
  "pin_diff hash digest = fold (\<lambda>(a, b) diff. diff OR (a XOR b)) (zip hash digest) 0"

definition verify_server_cert :: "(bytes \<Rightarrow> bytes) \<Rightarrow> bytes \<Rightarrow> bytes \<Rightarrow> string + unit" where
  "verify_server_cert sha256 digest end_entity =
     (if pin_diff (sha256 end_entity) digest \<noteq> 0 then Inl ''ApplicationVerificationFailure'' else Inr ())"

section \<open>Connections\<close>

text \<open>quinn's reasons for a lost connection; the ones the code does not tell apart are their text.\<close>

datatype ConnectionError = ApplicationClosed u64 | LocallyClosed | OtherError string

definition normalize_close :: "ConnectionError \<Rightarrow> Error option" where
  "normalize_close e =
     (case e of
        ApplicationClosed error_code \<Rightarrow>
          let raw = (ucast error_code :: u32)
          in if raw = 0 then None else Some (ErrStream \<lparr>se_code = from_wire raw, se_remote = True\<rparr>)
      | LocallyClosed \<Rightarrow> None
      | OtherError t \<Rightarrow> Some (ErrTransport t))"

definition conn_err :: "ConnectionError \<Rightarrow> Error" where
  "conn_err e = (case normalize_close e of Some err \<Rightarrow> err | None \<Rightarrow> ErrConnClosed)"

text \<open>\<open>err\<close>, given the close reason of the quinn connection.\<close>

definition quic_conn_error :: "ConnectionError option \<Rightarrow> Error option" where
  "quic_conn_error reason = (case reason of None \<Rightarrow> None | Some e \<Rightarrow> normalize_close e)"

definition quic_conn_closed :: "ConnectionError option \<Rightarrow> unit poll" where
  "quic_conn_closed reason = (case reason of None \<Rightarrow> Pending | Some e \<Rightarrow> Ready ())"

text \<open>The codes that \<open>close\<close> and \<open>close_with_error\<close> put on the wire.\<close>

definition quic_conn_close :: u64 where
  "quic_conn_close = 0"

definition quic_conn_close_with_error :: "ErrorCode \<Rightarrow> u64" where
  "quic_conn_close_with_error code = ucast (to_wire code)"

datatype SendDatagramError = TooLarge | UnsupportedByPeer | Disabled | ConnectionLost ConnectionError

definition quic_send_datagram :: "SendDatagramError + unit \<Rightarrow> nat option \<Rightarrow> Error + unit" where
  "quic_send_datagram sent max_datagram_size =
     (case sent of
        Inr _ \<Rightarrow> Inr ()
      | Inl TooLarge \<Rightarrow> Inl (ErrDatagramTooLarge (case max_datagram_size of None \<Rightarrow> 0 | Some n \<Rightarrow> n))
      | Inl UnsupportedByPeer \<Rightarrow> Inl (ErrTransport ''datagrams unavailable'')
      | Inl Disabled \<Rightarrow> Inl (ErrTransport ''datagrams unavailable'')
      | Inl (ConnectionLost e) \<Rightarrow> Inl (conn_err e))"

definition quic_receive_datagram :: "ConnectionError + bytes \<Rightarrow> Error + bytes" where
  "quic_receive_datagram got = (case got of Inl e \<Rightarrow> Inl (conn_err e) | Inr d \<Rightarrow> Inr d)"

section \<open>Streams\<close>

datatype quinn_call = Finish | ResetStream u64 | StopSending u64 | PollShutdown

record QuicState =
  q_err :: "StreamError option"
  q_closed :: bool

record QuicStream = QuicState +
  q_write_closed :: bool
  q_notified :: nat
  quinn_calls :: "quinn_call list"

definition QuicStream_new :: QuicStream where
  "QuicStream_new = \<lparr>q_err = None, q_closed = False, q_write_closed = False, q_notified = 0, quinn_calls = []\<rparr>"

text \<open>\<open>open_stream\<close> and \<open>accept_stream\<close>, given quinn's answer.\<close>

definition quic_stream_of :: "ConnectionError + unit \<Rightarrow> Error + QuicStream" where
  "quic_stream_of got = (case got of Inl e \<Rightarrow> Inl (conn_err e) | Inr _ \<Rightarrow> Inr QuicStream_new)"

definition quinn :: "quinn_call \<Rightarrow> QuicStream \<Rightarrow> QuicStream" where
  "quinn call s = s\<lparr>quinn_calls := quinn_calls s @ [call]\<rparr>"

definition quic_mark_closed :: "QuicStream \<Rightarrow> QuicStream" where
  "quic_mark_closed s = (if q_closed s then s else s\<lparr>q_closed := True, q_notified := Suc (q_notified s)\<rparr>)"

definition record_err :: "StreamError \<Rightarrow> QuicStream \<Rightarrow> QuicStream" where
  "record_err err s =
     (let s1 = (if q_err s = None then s\<lparr>q_err := Some err\<rparr> else s)
      in if q_closed s1 then s1 else s1\<lparr>q_closed := True, q_notified := Suc (q_notified s1)\<rparr>)"

text \<open>An I/O error of quinn: the peer's reset or stop code, or anything else.\<close>

datatype io_error = IoReset u64 | IoStopped u64 | IoText string

definition note_io_error :: "io_error \<Rightarrow> QuicStream \<Rightarrow> QuicStream" where
  "note_io_error e s =
     (case e of
        IoReset code \<Rightarrow> record_err \<lparr>se_code = from_wire (ucast code), se_remote = True\<rparr> s
      | IoStopped code \<Rightarrow> record_err \<lparr>se_code = from_wire (ucast code), se_remote = True\<rparr> s
      | IoText t \<Rightarrow> s)"

definition quic_poll_read :: "(io_error + bytes) poll \<Rightarrow> QuicStream \<Rightarrow> (io_error + bytes) poll \<times> QuicStream" where
  "quic_poll_read inner s = (inner, case inner of Ready (Inl e) \<Rightarrow> note_io_error e s | _ \<Rightarrow> s)"

definition quic_poll_write :: "(io_error + nat) poll \<Rightarrow> QuicStream \<Rightarrow> (io_error + nat) poll \<times> QuicStream" where
  "quic_poll_write inner s = (inner, case inner of Ready (Inl e) \<Rightarrow> note_io_error e s | _ \<Rightarrow> s)"

definition quic_poll_flush :: "(io_error + unit) poll \<Rightarrow> QuicStream \<Rightarrow> (io_error + unit) poll \<times> QuicStream" where
  "quic_poll_flush inner s = (inner, s)"

definition quic_poll_shutdown :: "QuicStream \<Rightarrow> QuicStream" where
  "quic_poll_shutdown s = quinn PollShutdown (s\<lparr>q_write_closed := True\<rparr>)"

definition quic_close_write :: "QuicStream \<Rightarrow> QuicStream" where
  "quic_close_write s = (if q_write_closed s then s else quinn Finish (s\<lparr>q_write_closed := True\<rparr>))"

definition quic_cancel_read :: "ErrorCode \<Rightarrow> QuicStream \<Rightarrow> QuicStream" where
  "quic_cancel_read code s = quinn (StopSending (ucast (to_wire code))) s"

definition quic_reset_write :: "ErrorCode \<Rightarrow> QuicStream \<Rightarrow> QuicStream" where
  "quic_reset_write code s =
     (if q_write_closed s then s else quinn (ResetStream (ucast (to_wire code))) (s\<lparr>q_write_closed := True\<rparr>))"

definition quic_close :: "QuicStream \<Rightarrow> QuicStream" where
  "quic_close s = quic_mark_closed (quic_close_write (quinn (StopSending (ucast (to_wire EcClosed))) s))"

definition quic_close_with_error :: "ErrorCode \<Rightarrow> QuicStream \<Rightarrow> QuicStream" where
  "quic_close_with_error code s =
     (let s1 = quinn (StopSending (ucast (to_wire code))) s;
          s2 = (if q_write_closed s1 then s1
                else quinn (ResetStream (ucast (to_wire code))) (s1\<lparr>q_write_closed := True\<rparr>))
      in quic_mark_closed s2)"

definition quic_closed :: "QuicStream \<Rightarrow> unit poll" where
  "quic_closed s = (if q_closed s then Ready () else Pending)"

definition quic_err :: "QuicStream \<Rightarrow> StreamError option" where
  "quic_err s = q_err s"

section \<open>Runs of a stream\<close>

datatype quic_ev =
    QvRead "(io_error + bytes) poll"
  | QvWrite "(io_error + nat) poll"
  | QvShutdown
  | QvCloseWrite
  | QvCancelRead ErrorCode
  | QvResetWrite ErrorCode
  | QvClose
  | QvCloseWithError ErrorCode

fun quic_step :: "QuicStream \<Rightarrow> quic_ev \<Rightarrow> QuicStream" where
  "quic_step s (QvRead inner) = snd (quic_poll_read inner s)"
| "quic_step s (QvWrite inner) = snd (quic_poll_write inner s)"
| "quic_step s QvShutdown = quic_poll_shutdown s"
| "quic_step s QvCloseWrite = quic_close_write s"
| "quic_step s (QvCancelRead code) = quic_cancel_read code s"
| "quic_step s (QvResetWrite code) = quic_reset_write code s"
| "quic_step s QvClose = quic_close s"
| "quic_step s (QvCloseWithError code) = quic_close_with_error code s"

text \<open>The calls that end the write half, and the peer's code that an event brings.\<close>

fun ends_write :: "quinn_call \<Rightarrow> bool" where
  "ends_write Finish = True"
| "ends_write (ResetStream v) = True"
| "ends_write PollShutdown = True"
| "ends_write (StopSending v) = False"

fun io_code :: "io_error \<Rightarrow> u64 option" where
  "io_code (IoReset v) = Some v"
| "io_code (IoStopped v) = Some v"
| "io_code (IoText t) = None"

fun peer_code :: "quic_ev \<Rightarrow> u64 option" where
  "peer_code (QvRead (Ready (Inl e))) = io_code e"
| "peer_code (QvWrite (Ready (Inl e))) = io_code e"
| "peer_code _ = None"

fun local_close :: "quic_ev \<Rightarrow> bool" where
  "local_close QvClose = True"
| "local_close (QvCloseWithError code) = True"
| "local_close _ = False"

definition peer_error :: "u64 \<Rightarrow> StreamError" where
  "peer_error v = \<lparr>se_code = from_wire (ucast v), se_remote = True\<rparr>"

text \<open>
  The write half has ended in one way only: nothing yet, or one FIN or one RESET (or none),
  and after that only repeated shutdowns.
\<close>

definition write_ends :: "QuicStream \<Rightarrow> bool" where
  "write_ends s \<longleftrightarrow>
     (\<exists>first n. filter ends_write (quinn_calls s) = first @ replicate n PollShutdown
        \<and> length first \<le> 1 \<and> PollShutdown \<notin> set first)
     \<and> (q_write_closed s \<longleftrightarrow> filter ends_write (quinn_calls s) \<noteq> [])"

lemmas quic_defs = quic_poll_read_def quic_poll_write_def quic_poll_shutdown_def quic_close_write_def
  quic_cancel_read_def quic_reset_write_def quic_close_def quic_close_with_error_def quic_mark_closed_def
  note_io_error_def record_err_def quinn_def

lemma quic_step_calls:
  "filter ends_write (quinn_calls (quic_step s e)) = filter ends_write (quinn_calls s)
     \<and> q_write_closed (quic_step s e) = q_write_closed s
   \<or> (\<exists>c. filter ends_write (quinn_calls (quic_step s e)) = filter ends_write (quinn_calls s) @ [c]
        \<and> q_write_closed (quic_step s e) \<and> (c = PollShutdown \<or> \<not> q_write_closed s))"
  by (cases e) (auto simp: quic_defs Let_def split: poll.split sum.split io_error.split)

lemma write_ends_step:
  assumes "write_ends s"
  shows "write_ends (quic_step s e)"
proof -
  from assms obtain first n where f: "filter ends_write (quinn_calls s) = first @ replicate n PollShutdown"
    "length first \<le> 1" "PollShutdown \<notin> set first" and w: "q_write_closed s \<longleftrightarrow> filter ends_write (quinn_calls s) \<noteq> []"
    unfolding write_ends_def by blast
  from quic_step_calls [of s e] show ?thesis
  proof
    assume "\<exists>c. filter ends_write (quinn_calls (quic_step s e)) = filter ends_write (quinn_calls s) @ [c]
      \<and> q_write_closed (quic_step s e) \<and> (c = PollShutdown \<or> \<not> q_write_closed s)"
    then obtain c where c: "filter ends_write (quinn_calls (quic_step s e)) = filter ends_write (quinn_calls s) @ [c]"
      "q_write_closed (quic_step s e)" and "c = PollShutdown \<or> \<not> q_write_closed s" by blast
    then consider "c = PollShutdown" | "c \<noteq> PollShutdown" "filter ends_write (quinn_calls s) = []" using w by blast
    then show ?thesis
    proof cases
      case 1
      then have "filter ends_write (quinn_calls (quic_step s e)) = first @ replicate (Suc n) PollShutdown"
        using c(1) f(1) by (simp add: replicate_append_same)
      then show ?thesis unfolding write_ends_def using f(2,3) c by (intro conjI exI [of _ first] exI [of _ "Suc n"]) simp_all
    next
      case 2
      then show ?thesis unfolding write_ends_def using c by (intro conjI exI [of _ "[c]"] exI [of _ 0]) simp_all
    qed
  qed (use assms in \<open>simp add: write_ends_def\<close>)
qed

interpretation quic: machine quic_step "\<lambda>_ _. True" write_ends
  by unfold_locales (rule write_ends_step)

definition closed_after :: "QuicStream \<Rightarrow> quic_ev list \<Rightarrow> bool" where
  "closed_after s es \<longleftrightarrow> q_closed s \<or> (\<exists>e \<in> set es. peer_code e \<noteq> None \<or> local_close e)"

lemma quic_step_close:
  "q_err (quic_step s e) = (if q_err s = None then map_option peer_error (peer_code e) else q_err s)"
  "q_closed (quic_step s e) \<longleftrightarrow> q_closed s \<or> peer_code e \<noteq> None \<or> local_close e"
  "q_notified (quic_step s e) = q_notified s + of_bool (\<not> q_closed s \<and> q_closed (quic_step s e))"
  by (cases e; auto simp: quic_defs Let_def peer_error_def split: poll.split sum.split io_error.split)+

lemma legal_True [simp]: "legal step (\<lambda>_ _. True) s es"
  by (induction es arbitrary: s) simp_all

lemma quic_run_close:
  "q_err (foldl quic_step s es) =
     (if q_err s \<noteq> None then q_err s
      else case List.map_filter peer_code es of [] \<Rightarrow> None | v # _ \<Rightarrow> Some (peer_error v))
   \<and> (q_closed (foldl quic_step s es) \<longleftrightarrow> closed_after s es)
   \<and> q_notified (foldl quic_step s es) = q_notified s + of_bool (\<not> q_closed s \<and> closed_after s es)"
proof (induction es arbitrary: s)
  case (Cons e es)
  show ?case
    by (auto simp: Cons.IH quic_step_close closed_after_def map_filter_simps split: option.split)
qed (simp add: closed_after_def map_filter_simps)

section \<open>Properties\<close>

text \<open>
  C34: A QUIC stream ends its write half in one way: over every sequence of calls at most one
  of FIN and RESET is issued on the quinn stream, none of them after a shutdown, and the half
  counts as closed exactly when one was issued. The error that is reported is the first reset
  or stop code of the peer, and the waiters of \<open>closed\<close> are notified exactly once.
\<close>

theorem quic_stream_ends_once:
  "write_ends (foldl quic_step QuicStream_new es)
   \<and> q_err (foldl quic_step QuicStream_new es) =
       (case List.map_filter peer_code es of [] \<Rightarrow> None | v # _ \<Rightarrow> Some (peer_error v))
   \<and> (quic_closed (foldl quic_step QuicStream_new es) = Ready ()
        \<longleftrightarrow> (\<exists>e \<in> set es. peer_code e \<noteq> None \<or> local_close e))
   \<and> q_notified (foldl quic_step QuicStream_new es) = of_bool (quic_closed (foldl quic_step QuicStream_new es) = Ready ())"
proof -
  have "write_ends QuicStream_new" by (simp add: write_ends_def QuicStream_new_def)
  then have "write_ends (foldl quic_step QuicStream_new es)" by (rule quic.run_inv) simp
  then show ?thesis
    using quic_run_close [of QuicStream_new es] by (simp add: QuicStream_new_def quic_closed_def closed_after_def)
qed

theorem quic_stream_ends_once_witness:
  "quic_closed (foldl quic_step QuicStream_new [QvCloseWrite, QvResetWrite EcReset, QvRead (Ready (Inl (IoReset 3)))]) = Ready ()"
  using quic_stream_ends_once [of "[QvCloseWrite, QvResetWrite EcReset, QvRead (Ready (Inl (IoReset 3)))]"] by simp

lemma code_survives: "(ucast (ucast w :: u64) :: u32) = w"
proof -
  have "unat w < 2 ^ LENGTH(64)" using unat_bound [of w] by simp
  then have "unat (of_nat (unat w) :: u64) = unat w" by (rule unat_of_nat_small)
  then have "unat (ucast w :: u64) = unat w" by simp
  then have "of_nat (unat (ucast w :: u64)) = w" by simp
  then show ?thesis by simp
qed

text \<open>
  The close reason of a QUIC connection is right for every code that fits in 32 bits: what
  the peer passed to \<open>close_with_error\<close> is what \<open>err\<close> reports, and code 0 is a clean close.
  A code of more than 32 bits is cut: the peer's close is reported as clean exactly when its
  code is a multiple of 2 to the 32.
\<close>

theorem quic_close_reason_exact:
  "quic_conn_error (Some (ApplicationClosed (quic_conn_close_with_error code))) =
     (if code = EcNone then None else Some (ErrStream \<lparr>se_code = code, se_remote = True\<rparr>))
   \<and> (quic_conn_error (Some (ApplicationClosed v)) = None \<longleftrightarrow> unat v mod 2 ^ 32 = 0)
   \<and> conn_err (ApplicationClosed quic_conn_close) = ErrConnClosed"
proof -
  have "to_wire code = 0 \<longleftrightarrow> code = EcNone" by (cases code) simp_all
  moreover have "(ucast v :: u32) = 0 \<longleftrightarrow> unat v mod 2 ^ 32 = 0"
    by (simp add: word_unat_eq_iff unsigned_ucast_eq take_bit_eq_mod)
  ultimately show ?thesis
    by (simp add: quic_conn_error_def normalize_close_def quic_conn_close_with_error_def quic_conn_close_def conn_err_def
        code_survives Let_def del: power_numeral)
qed

lemma xor_zero_iff: "a XOR b = 0 \<longleftrightarrow> a = (b :: u8)"
  by (auto simp: bit_eq_iff bit_xor_iff)

lemma pin_diff_zero:
  "length xs = length ys \<Longrightarrow> fold (\<lambda>(a, b) diff. diff OR (a XOR b)) (zip xs ys) d = (0 :: u8) \<longleftrightarrow> d = 0 \<and> xs = ys"
proof (induction xs ys arbitrary: d rule: list_induct2)
  case (Cons x xs y ys)
  then show ?case by (auto simp: or_eq_0_iff xor_zero_iff)
qed simp

lemma verify_server_cert_iff:
  "length (sha256 cert) = length digest \<Longrightarrow> verify_server_cert sha256 digest cert = Inr () \<longleftrightarrow> sha256 cert = digest"
  using pin_diff_zero [of "sha256 cert" digest 0] by (simp add: verify_server_cert_def pin_diff_def)

text \<open>
  C32: Pinning: a client that dials an address accepts exactly the certificate whose certhash
  the address carries. With a canonical base64url engine and a hash of 32 bytes, the check
  that folds the differences of all bytes succeeds on the digest of the address if and only
  if the certhash of the address is the encoding of the certificate's hash.
\<close>

theorem pin_exact:
  assumes "\<And>x. dec (enc x) = Inr x" and "\<And>t x. dec t = Inr x \<Longrightarrow> enc x = t"
    and "length (sha256 cert) = 32" and "decode_certhash dec h = Inr digest"
  shows "verify_server_cert sha256 digest cert = Inr () \<longleftrightarrow> h = encode_certhash enc (sha256 cert)"
proof -
  have "length digest = 32" and h: "h = encode_certhash enc digest"
    using decode_certhash_iff [OF assms(1,2)] assms(4) by blast+
  then have "verify_server_cert sha256 digest cert = Inr () \<longleftrightarrow> sha256 cert = digest"
    using assms(3) by (simp add: verify_server_cert_iff)
  moreover have "encode_certhash enc x = encode_certhash enc y \<longleftrightarrow> x = y" for x y
  proof -
    have "enc ([0x12, 0x20] @ x) = enc ([0x12, 0x20] @ y) \<Longrightarrow> x = y"
      by (metis assms(1) same_append_eq sum.inject(2))
    then show ?thesis by (auto simp: encode_certhash_def)
  qed
  ultimately show ?thesis using h by metis
qed

text \<open>A certificate whose first 32 bytes are its hash, for the example.\<close>

theorem pin_exact_witness:
  "verify_server_cert (take 32) (replicate 32 7) (replicate 40 7) = Inr ()"
  using pin_exact [of bytes_of chars_of "take 32" "replicate 40 7" "encode_certhash chars_of (replicate 32 7)" "replicate 32 7"]
    decode_certhash_iff [of bytes_of chars_of "encode_certhash chars_of (replicate 32 7)" "replicate 32 7"]
  by (simp add: bytes_of_chars chars_of_bytes)

end
