(* ===== verification/KpsTransports.thy ===== *)
theory KpsTransports
  imports KpsWriter KpsQuic KpsConnClose
begin

text \<open>
  \<open>src/libs/rust/kps/src/api.rs\<close>: the traits both transports implement, so that callers cannot
  tell which one backs a connection. The calls of \<open>Stream\<close> have an abstract specification on
  the two halves of a stream, an interface that the WebRTC and the QUIC stream both refine;
  what a close tells the other side is compared for \<open>Conn\<close>.
\<close>

section \<open>The trait and its specification\<close>

text \<open>The calls of \<open>Stream\<close> that end a half, and \<open>shutdown\<close> of its supertrait \<open>AsyncWrite\<close>.\<close>

datatype stream_call =
    ScCloseWrite
  | ScCancelRead ErrorCode
  | ScResetWrite ErrorCode
  | ScClose
  | ScCloseWithError ErrorCode
  | ScShutdown

text \<open>How the other side sees the halves: the first end of each counts.\<close>

datatype write_half = WriteOpen | WriteFinished | WriteAborted ErrorCode

record Halves =
  write_half :: write_half
  read_half :: "ErrorCode option"

definition end_write :: "write_half \<Rightarrow> Halves \<Rightarrow> Halves" where
  "end_write w h = (if write_half h = WriteOpen then h\<lparr>write_half := w\<rparr> else h)"

definition end_read :: "ErrorCode \<Rightarrow> Halves \<Rightarrow> Halves" where
  "end_read code h = (if read_half h = None then h\<lparr>read_half := Some code\<rparr> else h)"

fun halves_call :: "stream_call \<Rightarrow> Halves \<Rightarrow> Halves" where
  "halves_call ScCloseWrite h = end_write WriteFinished h"
| "halves_call ScShutdown h = end_write WriteFinished h"
| "halves_call (ScCancelRead code) h = end_read code h"
| "halves_call (ScResetWrite code) h = end_write (WriteAborted code) h"
| "halves_call ScClose h = end_read EcClosed (end_write WriteFinished h)"
| "halves_call (ScCloseWithError code) h = end_read code (end_write (WriteAborted code) h)"

definition both_open :: Halves where
  "both_open = \<lparr>write_half = WriteOpen, read_half = None\<rparr>"

definition calls_of :: "(stream_call + 'e) list \<Rightarrow> stream_call list" where
  "calls_of es = List.map_filter (\<lambda>e. case e of Inl c \<Rightarrow> Some c | Inr x \<Rightarrow> None) es"

text \<open>
  The interface: calls move the halves as specified, and whatever else the transport does in
  between (\<open>Inr\<close>) leaves them alone.
\<close>

locale stream_api =
  fixes step :: "'s \<Rightarrow> stream_call + 'e \<Rightarrow> 's"
    and may :: "'s \<Rightarrow> stream_call + 'e \<Rightarrow> bool"
    and halves :: "'s \<Rightarrow> Halves"
    and sound :: "'s \<Rightarrow> bool"
  assumes sound_step: "sound s \<Longrightarrow> may s e \<Longrightarrow> sound (step s e)"
    and halves_step: "sound s \<Longrightarrow> may s (Inl c) \<Longrightarrow> halves (step s (Inl c)) = halves_call c (halves s)"
    and halves_else: "sound s \<Longrightarrow> may s (Inr x) \<Longrightarrow> halves (step s (Inr x)) = halves s"
begin

lemma run_halves:
  "sound s \<Longrightarrow> legal step may s es \<Longrightarrow> halves (foldl step s es) = fold halves_call (calls_of es) (halves s)"
proof (induction es arbitrary: s)
  case (Cons e es)
  have IH: "halves (foldl step (step s e) es) = fold halves_call (calls_of es) (halves (step s e))"
    using Cons.prems sound_step [of s e] by (intro Cons.IH) simp_all
  then show ?case
    using Cons.prems halves_step [of s] halves_else [of s]
    by (cases e) (simp_all add: calls_of_def map_filter_simps)
qed (simp add: calls_of_def map_filter_simps)

end

section \<open>QUIC\<close>

fun asks_stop :: "quinn_call \<Rightarrow> bool" where
  "asks_stop (StopSending v) = True"
| "asks_stop _ = False"

text \<open>quinn ignores what ends a half that has ended, so its first call counts.\<close>

definition quic_halves :: "QuicStream \<Rightarrow> Halves" where
  "quic_halves s =
     \<lparr>write_half =
        (case filter ends_write (quinn_calls s) of
           [] \<Rightarrow> WriteOpen
         | ResetStream v # _ \<Rightarrow> WriteAborted (from_wire (ucast v))
         | _ # _ \<Rightarrow> WriteFinished),
      read_half =
        (case filter asks_stop (quinn_calls s) of
           StopSending v # _ \<Rightarrow> Some (from_wire (ucast v))
         | _ \<Rightarrow> None)\<rparr>"

fun quic_call :: "stream_call \<Rightarrow> QuicStream \<Rightarrow> QuicStream" where
  "quic_call ScCloseWrite s = quic_close_write s"
| "quic_call ScShutdown s = quic_poll_shutdown s"
| "quic_call (ScCancelRead code) s = quic_cancel_read code s"
| "quic_call (ScResetWrite code) s = quic_reset_write code s"
| "quic_call ScClose s = quic_close s"
| "quic_call (ScCloseWithError code) s = quic_close_with_error code s"

text \<open>Reads and writes go to quinn.\<close>

definition quic_api :: "QuicStream \<Rightarrow> stream_call + (io_error + bytes) poll + (io_error + nat) poll \<Rightarrow> QuicStream" where
  "quic_api s e =
     (case e of
        Inl c \<Rightarrow> quic_call c s
      | Inr (Inl inner) \<Rightarrow> snd (quic_poll_read inner s)
      | Inr (Inr inner) \<Rightarrow> snd (quic_poll_write inner s))"

definition quic_sound :: "QuicStream \<Rightarrow> bool" where
  "quic_sound s \<longleftrightarrow> (q_write_closed s \<longleftrightarrow> filter ends_write (quinn_calls s) \<noteq> [])"

lemma quic_io: "quinn_calls (note_io_error e s) = quinn_calls s" "q_write_closed (note_io_error e s) = q_write_closed s"
  by (simp_all add: note_io_error_def record_err_def Let_def split: io_error.split)

lemma closed_code: "from_wire 2 = EcClosed"
  using from_to_wire [of EcClosed] by simp

lemma asked: "filter asks_stop xs = y # ys \<Longrightarrow> \<exists>v. y = StopSending v"
proof -
  assume "filter asks_stop xs = y # ys"
  then have "y \<in> set (filter asks_stop xs)" by simp
  then have "asks_stop y" by simp
  then show ?thesis by (cases y) simp_all
qed

fun call_halves :: "quinn_call \<Rightarrow> Halves \<Rightarrow> Halves" where
  "call_halves (ResetStream v) h = end_write (WriteAborted (from_wire (ucast v))) h"
| "call_halves (StopSending v) h = end_read (from_wire (ucast v)) h"
| "call_halves c h = end_write WriteFinished h"

lemma quinn_halves: "quic_halves (quinn c s) = call_halves c (quic_halves s)"
proof (cases "filter asks_stop (quinn_calls s)")
  case Nil
  then show ?thesis
    by (cases c; cases "filter ends_write (quinn_calls s)")
       (auto simp: quinn_def quic_halves_def end_write_def end_read_def split: quinn_call.split)
next
  case (Cons y ys)
  with asked [OF Cons] show ?thesis
    by (cases c; cases "filter ends_write (quinn_calls s)")
       (auto simp: quinn_def quic_halves_def end_write_def end_read_def split: quinn_call.split)
qed

lemma quic_frame [simp]:
  "quic_halves (s\<lparr>q_write_closed := b\<rparr>) = quic_halves s" "quic_halves (quic_mark_closed s) = quic_halves s"
  "q_write_closed (quinn c s) = q_write_closed s" "q_write_closed (quic_mark_closed s) = q_write_closed s"
  by (simp_all add: quic_halves_def quic_mark_closed_def quinn_def)

lemma quic_ended:
  assumes "quic_sound s" and "q_write_closed s"
  shows "end_write w (quic_halves s) = quic_halves s"
  using assms
  by (cases "filter ends_write (quinn_calls s)")
     (auto simp: quic_sound_def quic_halves_def end_write_def split: quinn_call.split)

lemma end_read_write: "end_read code (end_write w h) = end_write w (end_read code h)"
  by (simp add: end_read_def end_write_def)

lemma quic_call_halves:
  assumes "quic_sound s"
  shows "quic_halves (quic_call c s) = halves_call c (quic_halves s)" and "quic_sound (quic_call c s)"
proof -
  show "quic_halves (quic_call c s) = halves_call c (quic_halves s)"
    using quic_ended [OF assms]
    by (cases c)
       (simp_all add: quic_poll_shutdown_def quic_close_write_def quic_cancel_read_def quic_reset_write_def quic_close_def
         quic_close_with_error_def quinn_halves code_survives closed_code end_read_write [symmetric] Let_def)
  show "quic_sound (quic_call c s)"
    using assms by (cases c) (auto simp: quic_defs quic_sound_def Let_def)
qed

lemma quic_else_halves:
  "quic_halves (quic_api s (Inr x)) = quic_halves s \<and> (quic_sound (quic_api s (Inr x)) \<longleftrightarrow> quic_sound s)"
  by (simp add: quic_api_def quic_poll_read_def quic_poll_write_def quic_io quic_halves_def quic_sound_def
      split: sum.split poll.split)

interpretation quic_stream: stream_api quic_api "\<lambda>_ _. True" quic_halves quic_sound
proof unfold_locales
  fix s e
  show "quic_sound s \<Longrightarrow> quic_sound (quic_api s e)"
    using quic_else_halves quic_call_halves(2) by (cases e) (auto simp: quic_api_def)
qed (simp_all add: quic_else_halves, simp add: quic_api_def quic_call_halves(1))

section \<open>WebRTC\<close>

text \<open>What has gone out and what the writer task will send, as the other side reads it.\<close>

definition spoken_frames :: "WebrtcStream \<Rightarrow> bytes list" where
  "spoken_frames s = wire_out s @ remaining s"

definition write_part :: "bytes list \<Rightarrow> write_half" where
  "write_part frs =
     (case frs of
        [] \<Rightarrow> WriteOpen
      | fr # _ \<Rightarrow> (case parse_frame fr of Inr (PfReset code) \<Rightarrow> WriteAborted code | _ \<Rightarrow> WriteFinished))"

definition read_part :: "bytes list \<Rightarrow> ErrorCode option" where
  "read_part frs =
     (case frs of
        [] \<Rightarrow> None
      | fr # _ \<Rightarrow> (case parse_frame fr of Inr (PfStopSending code) \<Rightarrow> Some code | _ \<Rightarrow> None))"

definition webrtc_halves :: "WebrtcStream \<Rightarrow> Halves" where
  "webrtc_halves s =
     \<lparr>write_half = write_part (filter is_terminal (spoken_frames s)),
      read_half = read_part (filter (is_kind FtStopSending) (spoken_frames s))\<rparr>"

text \<open>The calls, with room in the DATA queue.\<close>

fun webrtc_call :: "stream_call \<Rightarrow> WebrtcStream \<Rightarrow> WebrtcStream" where
  "webrtc_call ScCloseWrite s = snd (close_write True s)"
| "webrtc_call ScShutdown s = snd (poll_shutdown (Ready (Inr ())) True s)"
| "webrtc_call (ScCancelRead code) s = cancel_read code s"
| "webrtc_call (ScResetWrite code) s = reset_write code s"
| "webrtc_call ScClose s = stream_close True s"
| "webrtc_call (ScCloseWithError code) s = stream_close_with_error code s"

datatype webrtc_else = WeTurn | WeRead waker nat | WeWrite waker bytes

definition webrtc_api :: "WebrtcStream \<Rightarrow> stream_call + webrtc_else \<Rightarrow> WebrtcStream" where
  "webrtc_api s e =
     (case e of
        Inl c \<Rightarrow> webrtc_call c s
      | Inr WeTurn \<Rightarrow> writer_turn s
      | Inr (WeRead w cap) \<Rightarrow> snd (poll_read w cap s)
      | Inr (WeWrite w buf) \<Rightarrow> snd (poll_write w buf (Ready (Inr ())) True s))"

text \<open>A signal frame is none of DATA: the frames of a kind that are out or will go out.\<close>

definition signals :: "(bytes \<Rightarrow> bool) \<Rightarrow> WebrtcStream \<Rightarrow> bytes list" where
  "signals P s = filter P (wire_out s @ in_hand (writer_at s) @ life_q s @ map fst (data_q s))"

lemma spoken_signals:
  assumes "\<And>fr. P fr \<Longrightarrow> \<not> is_kind FtData fr"
  shows "filter P (spoken_frames s) = signals P s"
proof -
  have "filter P (map fst (filter (\<lambda>x. \<not> (drop_data s \<and> is_kind FtData (fst x))) q)) = filter P (map fst q)" for q :: "(bytes \<times> u64) list"
    using assms by (induction q) auto
  then show ?thesis by (simp add: spoken_frames_def remaining_def signals_def)
qed

lemma terminal_not_data: "is_terminal fr \<Longrightarrow> \<not> is_kind FtData fr" "is_kind FtStopSending fr \<Longrightarrow> \<not> is_kind FtData fr"
  by (cases fr; auto simp: is_terminal_def is_kind_def)+

lemmas spoken_terminals = spoken_signals [of is_terminal, OF terminal_not_data(1)]
lemmas spoken_stops = spoken_signals [of "is_kind FtStopSending", OF terminal_not_data(2)]

lemma signals_same [simp]:
  "signals P (maybe_retire s) = signals P s" "signals P (on_flow g s) = signals P s" "signals P (wake_reader s) = signals P s"
  by (simp_all add: signals_def)

lemma signals_life:
  assumes "writer_at s \<noteq> WrDone"
  shows "\<not> P m \<Longrightarrow> signals P (life_send m s) = signals P s" and "P m \<Longrightarrow> signals P s = [] \<Longrightarrow> signals P (life_send m s) = [m]"
  using assms by (auto simp: signals_def life_send_def)

lemma signals_consumed:
  assumes "writer_at s \<noteq> WrDone" and "\<And>a. \<not> P (encode_max_stream_data a)"
  shows "signals P (shared_consumed n s) = signals P s" "signals P (discard_consumed n s) = signals P s"
proof -
  show "signals P (shared_consumed n s) = signals P s" for n
    using assms by (auto simp: signals_def shared_consumed_def life_send_def Let_def split: prod.split option.split)
  then show "signals P (discard_consumed n s) = signals P s" by (simp add: discard_consumed_def)
qed

text \<open>
  The channel is open, its peer has ended nothing and asked for nothing, the handle is there.
\<close>

definition webrtc_sound :: "WebrtcStream \<Rightarrow> bool" where
  "webrtc_sound s \<longleftrightarrow>
     dc_open s \<and> \<not> dc_closed s \<and> \<not> peer_terminal s \<and> peer_stop s = None \<and> handle_live s \<and> writer_at s \<noteq> WrDone
     \<and> (local_terminal s = None \<longleftrightarrow> signals is_terminal s = [])
     \<and> (if read_cancel s then read_part (signals (is_kind FtStopSending) s) \<noteq> None else signals (is_kind FtStopSending) s = [])"

lemma turn_signals:
  assumes "webrtc_sound s"
  shows "webrtc_sound (writer_turn s)" and "spoken_frames (writer_turn s) = spoken_frames s"
proof -
  have o: "dc_open s" "\<not> dc_closed s" "writer_at s \<noteq> WrDone" "handle_live s" using assms by (simp_all add: webrtc_sound_def)
  show sp: "spoken_frames (writer_turn s) = spoken_frames s"
    unfolding spoken_frames_def using turn_remaining [OF o(1,2)] .
  have live: "writer_at (writer_turn s) \<noteq> WrDone" using turn_ends [OF o(1,2,3)] o(4) by blast
  have sig: "signals is_terminal (writer_turn s) = signals is_terminal s"
    "signals (is_kind FtStopSending) (writer_turn s) = signals (is_kind FtStopSending) s"
    using sp spoken_terminals spoken_stops by metis+
  have "peer_terminal (writer_turn s) = peer_terminal s \<and> peer_stop (writer_turn s) = peer_stop s
      \<and> local_terminal (writer_turn s) = local_terminal s \<and> read_cancel (writer_turn s) = read_cancel s"
    by (cases "writer_at s"; cases "life_q s"; cases "data_q s")
       (auto simp: writer_turn_def writer_start_def writer_select_def writer_buffer_def writer_transmit_def writer_sent_def
         writer_exit_def peer_terminal_def Let_def split: prod.split poll.split sum.split)
  with assms live sig turn_frame [OF o(1,2)] show "webrtc_sound (writer_turn s)" by (simp add: webrtc_sound_def)
qed

text \<open>One half ends: by a FIN, by a RESET, by a STOP_SENDING.\<close>

lemma fin_value:
  assumes "local_terminal s = None"
    and t: "t = snd (close_write True s) \<or> t = snd (poll_shutdown (Ready (Inr ())) True s)"
  shows "data_q t = data_q s @ [(encode_fin, 0)]" "life_q t = life_q s" "wire_out t = wire_out s" "writer_at t = writer_at s"
    "local_terminal t = Some TermFin" "dc_open t = dc_open s" "dc_closed t = dc_closed s" "handle_live t = handle_live s"
    "peer_terminal t = peer_terminal s" "peer_stop t = peer_stop s" "read_cancel t = read_cancel s"
  using assms
  by (auto simp: close_write_def close_write_begin_def close_write_finish_def poll_shutdown_def Let_def peer_terminal_def)

lemma reset_value:
  assumes "local_terminal s = None" and "writer_at s \<noteq> WrDone"
  shows "data_q (reset_write code s) = data_q s" "life_q (reset_write code s) = life_q s @ [encode_code FtReset code]"
    "wire_out (reset_write code s) = wire_out s" "writer_at (reset_write code s) = writer_at s"
    "local_terminal (reset_write code s) = Some TermReset" "dc_open (reset_write code s) = dc_open s"
    "dc_closed (reset_write code s) = dc_closed s" "handle_live (reset_write code s) = handle_live s"
    "peer_terminal (reset_write code s) = peer_terminal s" "peer_stop (reset_write code s) = peer_stop s"
    "read_cancel (reset_write code s) = read_cancel s"
  using assms by (simp_all add: reset_write_def Let_def peer_terminal_def life_send_def)

lemma webrtc_fin:
  assumes "webrtc_sound s" and t: "t = snd (close_write True s) \<or> t = snd (poll_shutdown (Ready (Inr ())) True s)"
  shows "webrtc_sound t \<and> webrtc_halves t = end_write WriteFinished (webrtc_halves s)"
proof (cases "local_terminal s = None")
  case True
  note v = fin_value [OF True t]
  have sig: "signals is_terminal s = []" using assms(1) True by (simp add: webrtc_sound_def)
  have kind: "is_terminal encode_fin" "\<not> is_kind FtStopSending encode_fin" "parse_frame encode_fin = Inr PfFin"
    by (simp_all add: is_terminal_def is_kind_def encode_fin_def parse_frame_def frame_consts)
  have "signals is_terminal t = [encode_fin]" "signals (is_kind FtStopSending) t = signals (is_kind FtStopSending) s"
    using sig kind by (simp_all add: signals_def v)
  with assms(1) kind v sig show ?thesis
    by (simp add: webrtc_sound_def webrtc_halves_def spoken_terminals spoken_stops end_write_def write_part_def)
next
  case False
  then have "t = s" using t by (auto simp: close_write_def close_write_begin_def poll_shutdown_def)
  have "signals is_terminal s \<noteq> []" using assms(1) False by (simp add: webrtc_sound_def)
  then have "write_half (webrtc_halves s) \<noteq> WriteOpen"
    by (cases "signals is_terminal s")
       (simp_all add: webrtc_halves_def spoken_terminals write_part_def split: sum.split ParsedFrame.split)
  with assms(1) \<open>t = s\<close> show ?thesis by (simp add: end_write_def)
qed

lemma written_half:
  assumes "webrtc_sound s" and "local_terminal s \<noteq> None"
  shows "end_write w (webrtc_halves s) = webrtc_halves s"
proof -
  have "signals is_terminal s \<noteq> []" using assms by (simp add: webrtc_sound_def)
  then have "write_half (webrtc_halves s) \<noteq> WriteOpen"
    by (cases "signals is_terminal s")
       (simp_all add: webrtc_halves_def spoken_terminals write_part_def split: sum.split ParsedFrame.split)
  then show ?thesis by (simp add: end_write_def)
qed

lemma webrtc_reset:
  assumes "webrtc_sound s"
  shows "webrtc_sound (reset_write code s) \<and> webrtc_halves (reset_write code s) = end_write (WriteAborted code) (webrtc_halves s)"
proof (cases "local_terminal s = None")
  case True
  let ?t = "reset_write code s" and ?m = "encode_code FtReset code"
  have wr: "writer_at s \<noteq> WrDone" using assms by (simp add: webrtc_sound_def)
  note v = reset_value [OF True wr]
  have sig: "signals is_terminal s = []" using assms True by (simp add: webrtc_sound_def)
  have kind: "is_terminal ?m" "\<not> is_kind FtStopSending ?m" "parse_frame ?m = Inr (PfReset code)"
    using frame.dec_enc [of "PfReset code"] by (simp_all add: is_terminal_def is_kind_def encode_code_def)
  have "signals is_terminal ?t = [?m]" "signals (is_kind FtStopSending) ?t = signals (is_kind FtStopSending) s"
    using sig kind by (simp_all add: signals_def v)
  with assms kind v sig show ?thesis
    by (simp add: webrtc_sound_def webrtc_halves_def spoken_terminals spoken_stops end_write_def write_part_def)
next
  case False
  then have "reset_write code s = s" by (simp add: reset_write_def)
  with assms False written_half [OF assms False] show ?thesis by simp
qed

lemma webrtc_cancel:
  assumes "webrtc_sound s"
  shows "webrtc_sound (cancel_read code s) \<and> webrtc_halves (cancel_read code s) = end_read code (webrtc_halves s)"
proof (cases "read_cancel s")
  case False
  let ?t = "cancel_read code s" and ?m = "encode_code FtStopSending code"
  have s: "\<not> peer_terminal s" "writer_at s \<noteq> WrDone" "signals (is_kind FtStopSending) s = []"
    using assms False by (simp_all add: webrtc_sound_def)
  have kind: "\<not> is_terminal ?m" "is_kind FtStopSending ?m" "parse_frame ?m = Inr (PfStopSending code)"
    "\<And>a. \<not> is_terminal (encode_max_stream_data a)" "\<And>a. \<not> is_kind FtStopSending (encode_max_stream_data a)"
    using frame.dec_enc [of "PfStopSending code"]
    by (simp_all add: is_terminal_def is_kind_def encode_code_def encode_max_stream_data_def)
  let ?u = "discard_consumed (of_nat (inbuf_bytes s))
      (on_flow (mark_cancelled (sh_id s)) (wake_reader (s\<lparr>read_cancel := True, inbuf := []\<rparr>)))"
  have t: "?t = maybe_retire (life_send ?m ?u)"
    using False s(1) by (simp add: cancel_read_def Let_def inbuf_bytes_def peer_terminal_def)
  have u: "writer_at ?u \<noteq> WrDone" using s(2) by simp
  have same: "signals P ?u = signals P s" if "\<And>a. \<not> P (encode_max_stream_data a)" for P
    using signals_consumed(2) [of "on_flow (mark_cancelled (sh_id s)) (wake_reader (s\<lparr>read_cancel := True, inbuf := []\<rparr>))" P] s(2) that
    by simp (simp add: signals_def)
  have "signals is_terminal ?t = signals is_terminal s" "signals (is_kind FtStopSending) ?t = [?m]"
    using signals_life(1) [OF u, of is_terminal] signals_life(2) [OF u, of "is_kind FtStopSending"] same kind s(3)
    by (simp_all add: t)
  with assms kind False s(3) show ?thesis
    by (simp add: webrtc_sound_def webrtc_halves_def spoken_terminals spoken_stops end_read_def read_part_def)
       (simp add: t peer_terminal_def)
next
  case True
  then have "read_half (webrtc_halves s) \<noteq> None"
    using assms by (simp add: webrtc_sound_def webrtc_halves_def spoken_stops)
  with True assms show ?thesis by (simp add: cancel_read_def end_read_def)
qed

lemma webrtc_call_halves:
  assumes "webrtc_sound s"
  shows "webrtc_sound (webrtc_call c s) \<and> webrtc_halves (webrtc_call c s) = halves_call c (webrtc_halves s)"
proof (cases c)
  case ScClose
  from webrtc_fin [OF assms, of "snd (close_write True s)"]
  have f: "webrtc_sound (snd (close_write True s))"
    "webrtc_halves (snd (close_write True s)) = end_write WriteFinished (webrtc_halves s)" by blast+
  from webrtc_cancel [OF f(1), of EcClosed] f(2) ScClose show ?thesis by (simp add: stream_close_def)
next
  case (ScCloseWithError code)
  from webrtc_reset [OF assms, of code]
  have f: "webrtc_sound (reset_write code s)"
    "webrtc_halves (reset_write code s) = end_write (WriteAborted code) (webrtc_halves s)" by blast+
  from webrtc_cancel [OF f(1), of code] f(2) ScCloseWithError show ?thesis by (simp add: stream_close_with_error_def)
next
  case ScCloseWrite
  with webrtc_fin [OF assms, of "snd (close_write True s)"] show ?thesis by simp
next
  case ScShutdown
  with webrtc_fin [OF assms, of "snd (poll_shutdown (Ready (Inr ())) True s)"] show ?thesis by simp
qed (use webrtc_reset [OF assms] webrtc_cancel [OF assms] in simp_all)

text \<open>Reads and writes touch no signal.\<close>

text \<open>A state with the same frames and flags.\<close>

definition same_signals :: "WebrtcStream \<Rightarrow> WebrtcStream \<Rightarrow> bool" where
  "same_signals s t \<longleftrightarrow>
     signals is_terminal t = signals is_terminal s \<and> signals (is_kind FtStopSending) t = signals (is_kind FtStopSending) s
     \<and> dc_open t = dc_open s \<and> dc_closed t = dc_closed s \<and> peer_terminal t = peer_terminal s \<and> peer_stop t = peer_stop s
     \<and> handle_live t = handle_live s \<and> writer_at t = writer_at s \<and> local_terminal t = local_terminal s \<and> read_cancel t = read_cancel s"

lemma same_sound:
  "webrtc_sound s \<Longrightarrow> same_signals s t \<Longrightarrow> webrtc_sound t \<and> webrtc_halves t = webrtc_halves s"
  by (simp add: same_signals_def webrtc_sound_def webrtc_halves_def spoken_terminals spoken_stops)

lemma credit_signals: "same_signals s (snd (write_credit w buf s))"
  by (simp add: write_credit_def same_signals_def signals_def peer_terminal_def Let_def split: prod.split poll.split sum.split)

lemma queue_signals: "same_signals s (snd (write_queue buf (Ready (Inr ())) True s))"
  by (simp add: write_queue_def give_back_grant_def same_signals_def signals_def peer_terminal_def Let_def
      is_terminal_def is_kind_def encode_data_def)

lemma read_signals:
  assumes "writer_at s \<noteq> WrDone"
  shows "same_signals s (snd (poll_read w cap s))"
proof -
  have "signals P (snd (poll_read w cap s)) = signals P s" if "\<And>a. \<not> P (encode_max_stream_data a)" for P
    using signals_consumed(1) [of _ P] assms that
    by (auto simp: poll_read_def Let_def split: list.split option.split) (auto simp: signals_def)
  then have "signals is_terminal (snd (poll_read w cap s)) = signals is_terminal s"
    and "signals (is_kind FtStopSending) (snd (poll_read w cap s)) = signals (is_kind FtStopSending) s"
    by (simp_all add: is_terminal_def is_kind_def encode_max_stream_data_def)
  then show ?thesis
    by (auto simp: same_signals_def poll_read_def Let_def peer_terminal_def split: list.split option.split)
qed

lemma same_trans: "same_signals s t \<Longrightarrow> same_signals t u \<Longrightarrow> same_signals s u"
  by (simp add: same_signals_def)

lemma webrtc_write:
  assumes "webrtc_sound s"
  shows "webrtc_sound (snd (poll_write w buf (Ready (Inr ())) True s)) \<and> webrtc_halves (snd (poll_write w buf (Ready (Inr ())) True s)) = webrtc_halves s"
proof -
  obtain r t where c: "write_credit w buf s = (r, t)" by (cases "write_credit w buf s")
  with credit_signals [of s w buf] have "same_signals s t" by simp
  moreover have "same_signals s s" by (simp add: same_signals_def)
  ultimately have "same_signals s (snd (poll_write w buf (Ready (Inr ())) True s))"
    using same_trans [OF _ queue_signals] by (simp add: poll_write_def c split: option.split poll.split sum.split)
  with same_sound [OF assms] show ?thesis by blast
qed

lemma webrtc_turn:
  assumes "webrtc_sound s"
  shows "webrtc_sound (writer_turn s) \<and> webrtc_halves (writer_turn s) = webrtc_halves s"
  using turn_signals [OF assms] by (simp add: webrtc_halves_def)

definition webrtc_may :: "WebrtcStream \<Rightarrow> stream_call + webrtc_else \<Rightarrow> bool" where
  "webrtc_may s e \<longleftrightarrow> length (data_q s) < 32"

lemma webrtc_read:
  assumes "webrtc_sound s"
  shows "webrtc_sound (snd (poll_read w cap s)) \<and> webrtc_halves (snd (poll_read w cap s)) = webrtc_halves s"
proof -
  have "writer_at s \<noteq> WrDone" using assms by (simp add: webrtc_sound_def)
  from same_sound [OF assms read_signals [OF this]] show ?thesis .
qed

lemma webrtc_else:
  assumes "webrtc_sound s"
  shows "webrtc_sound (webrtc_api s (Inr x)) \<and> webrtc_halves (webrtc_api s (Inr x)) = webrtc_halves s"
  using webrtc_turn [OF assms] webrtc_read [OF assms] webrtc_write [OF assms]
  by (cases x) (simp_all add: webrtc_api_def)

interpretation webrtc_stream: stream_api webrtc_api webrtc_may webrtc_halves webrtc_sound
proof unfold_locales
  fix s :: WebrtcStream and e
  assume "webrtc_sound s"
  then show "webrtc_sound (webrtc_api s e)"
    using webrtc_call_halves [of s] webrtc_else [of s] by (cases e) (simp_all add: webrtc_api_def)
next
  fix s :: WebrtcStream and c
  assume "webrtc_sound s"
  then show "webrtc_halves (webrtc_api s (Inl c)) = halves_call c (webrtc_halves s)"
    using webrtc_call_halves [of s] by (simp add: webrtc_api_def)
qed (simp add: webrtc_else)

section \<open>The properties\<close>

text \<open>A stream whose channel is open, and the same calls on both transports.\<close>

definition both_calls :: "stream_call list" where
  "both_calls = [ScCancelRead EcTimeout, ScCloseWrite, ScResetWrite EcReset, ScClose]"

lemma webrtc_new_sound: "webrtc_sound (Stream_new pin td True f)" "webrtc_halves (Stream_new pin td True f) = both_open"
  by (simp_all add: webrtc_sound_def webrtc_halves_def spoken_frames_def remaining_def signals_def both_open_def write_part_def
      read_part_def Stream_new_def new_stream_def peer_terminal_def Let_def)

lemma quic_new_sound: "quic_sound QuicStream_new" "quic_halves QuicStream_new = both_open"
  by (simp_all add: quic_sound_def quic_halves_def QuicStream_new_def both_open_def)

lemma webrtc_run_sound:
  "webrtc_sound s \<Longrightarrow> legal webrtc_api webrtc_may s es \<Longrightarrow> webrtc_sound (foldl webrtc_api s es)"
  by (induction es arbitrary: s) (simp_all add: webrtc_stream.sound_step)


lemma both_calls_legal: "legal webrtc_api webrtc_may (Stream_new False False True hello_engine) (map Inl both_calls)"
  by (simp add: both_calls_def webrtc_may_def webrtc_api_def close_write_def close_write_begin_def close_write_finish_def
      stream_close_def Let_def cancel_read_def reset_write_def) (simp add: Stream_new_def new_stream_def Let_def)


text \<open>
  What closing a connection tells the application: a close by the peer with any code is
  reported alike by \<open>err\<close> and by a pending \<open>accept_stream\<close>; the transports differ after a local
  close with a code, which WebRTC reports and QUIC does not.
\<close>

theorem close_reason_agrees:
  assumes "\<not> cs_closed c" and "inc_queue c = []"
  shows "conn_error (on_control (encode_conn_close code) c)
       = quic_conn_error (Some (ApplicationClosed (quic_conn_close_with_error code)))
     \<and> fst (accept_stream (on_control (encode_conn_close code) c))
       = Ready (Inl (conn_err (ApplicationClosed (quic_conn_close_with_error code))))
     \<and> conn_error (snd (close_finish code r c)) = (if code = EcNone then None else Some (ErrStream \<lparr>se_code = code, se_remote = False\<rparr>))
     \<and> quic_conn_error (Some LocallyClosed) = None"
proof -
  have d: "decode_control (encode_conn_close code) = Inr (CtlClose code)"
    using control.dec_enc [of "CtlClose code"] by simp
  have z: "to_wire code = 0 \<longleftrightarrow> code = EcNone" by (cases code) simp_all
  show ?thesis
    using assms z
    by (simp add: on_control_def d mark_def mark_store_def mark_swap_def pc_close_def conn_error_def quic_conn_error_def
        normalize_close_def quic_conn_close_with_error_def code_survives conn_err_def accept_stream_def inc_pop_def
        close_result_def close_finish_def send_close_and_flush_def control_send_def finish_task_def Let_def)
qed

end
