(* ===== verification/KpsWaits.thy ===== *)
theory KpsWaits
  imports KpsQuic KpsConnClose
begin

text \<open>
  The waits of the library: seven loops that take a \<open>Notified\<close>, test a condition and await.
  Each is a future that takes turns while its object moves, and is not lost: once its
  condition holds it ends. \<open>CloseState\<close>, \<open>HelloState\<close> and \<open>accept_stream\<close> (\<open>conn.rs\<close>),
  \<open>reserve_stream_slot\<close> (\<open>flow.rs\<close>), \<open>wait_open\<close> and \<open>closed\<close> (\<open>stream.rs\<close>), \<open>closed\<close> (\<open>quic.rs\<close>).
\<close>

section \<open>A waiting future\<close>

text \<open>
  Where the loop stands: at its head; holding a \<open>Notified\<close>, which counts from the number of
  \<open>notify_waiters\<close> calls at its creation; parked at the \<open>await\<close>; returned.
\<close>

datatype waiter = WtTop | WtArmed nat | WtParked nat | WtDone

text \<open>One turn, with the condition as the loop tests it and the calls of \<open>notify_waiters\<close> so far.\<close>

fun wait_turn :: "bool \<Rightarrow> nat \<Rightarrow> waiter \<Rightarrow> waiter" where
  "wait_turn holds n WtTop = WtArmed n"
| "wait_turn holds n (WtArmed k) = (if holds then WtDone else WtParked k)"
| "wait_turn holds n (WtParked k) = (if k < n then WtTop else WtParked k)"
| "wait_turn holds n WtDone = WtDone"

text \<open>The object moves (\<open>Some\<close>) or the future takes a turn (\<open>None\<close>).\<close>

definition wait_step :: "('s \<Rightarrow> 'e \<Rightarrow> 's) \<Rightarrow> ('s \<Rightarrow> waiter \<Rightarrow> waiter) \<Rightarrow> 's \<times> waiter \<Rightarrow> 'e option \<Rightarrow> 's \<times> waiter" where
  "wait_step step turn x e =
     (case e of
        Some ev \<Rightarrow> (step (fst x) ev, snd x)
      | None \<Rightarrow> (fst x, turn (fst x) (snd x)))"

definition wait_guard :: "('s \<Rightarrow> 'e \<Rightarrow> bool) \<Rightarrow> 's \<times> waiter \<Rightarrow> 'e option \<Rightarrow> bool" where
  "wait_guard guard x e = (case e of Some ev \<Rightarrow> guard (fst x) ev | None \<Rightarrow> True)"

text \<open>
  No wake-up is lost: however the object and the future interleave, when it is ripe the future
  returns within three turns of its own.
\<close>

definition wakes_up ::
  "('s \<Rightarrow> 'e \<Rightarrow> 's) \<Rightarrow> ('s \<Rightarrow> 'e \<Rightarrow> bool) \<Rightarrow> ('s \<Rightarrow> waiter \<Rightarrow> waiter) \<Rightarrow> ('s \<Rightarrow> bool) \<Rightarrow> 's \<Rightarrow> bool" where
  "wakes_up step guard turn ripe s \<longleftrightarrow>
     (\<forall>es s' w'. legal (wait_step step turn) (wait_guard guard) (s, WtTop) es \<longrightarrow>
        foldl (wait_step step turn) (s, WtTop) es = (s', w') \<longrightarrow> ripe s' \<longrightarrow> (turn s' ^^ 3) w' = WtDone)"

text \<open>
  The waiter has not been forgotten: while it is parked on a condition that holds, a
  notification has come after its registration.
\<close>

definition remembered :: "bool \<Rightarrow> nat \<Rightarrow> waiter \<Rightarrow> bool" where
  "remembered ripe n w \<longleftrightarrow>
     (case w of
        WtArmed k \<Rightarrow> k \<le> n
      | WtParked k \<Rightarrow> k \<le> n \<and> (ripe \<longrightarrow> k < n)
      | _ \<Rightarrow> True)"

lemma remembered_moves:
  assumes "remembered ripe n w" and "n \<le> n'" and "ripe' \<Longrightarrow> ripe \<or> n < n'"
  shows "remembered ripe' n' w"
  using assms by (cases w) (auto simp: remembered_def)

lemma remembered_turn:
  assumes "remembered ripe n w" and "ripe \<Longrightarrow> holds"
  shows "remembered ripe n (wait_turn holds n w)"
  using assms by (cases w) (auto simp: remembered_def)

lemma remembered_ends:
  assumes "remembered True n w"
  shows "(wait_turn True n ^^ 3) w = WtDone"
  using assms by (cases w) (auto simp: remembered_def eval_nat_numeral)

text \<open>
  The interface: what the loop tests (\<open>holds\<close>), when its notification has been given as well
  (\<open>ripe\<close>), and that a step that brings this about notifies.
\<close>

locale awaited = machine step guard inv
  for step :: "'s \<Rightarrow> 'e \<Rightarrow> 's" and guard :: "'s \<Rightarrow> 'e \<Rightarrow> bool" and inv :: "'s \<Rightarrow> bool" +
  fixes holds ripe :: "'s \<Rightarrow> bool"
    and calls :: "'s \<Rightarrow> nat"
  assumes ripe_holds: "ripe s \<Longrightarrow> holds s"
    and calls_grow: "inv s \<Longrightarrow> guard s e \<Longrightarrow> calls s \<le> calls (step s e)"
    and change_notifies: "inv s \<Longrightarrow> guard s e \<Longrightarrow> ripe (step s e) \<Longrightarrow> ripe s \<or> calls s < calls (step s e)"
begin

lemma run_remembered:
  assumes "inv s" and "legal (wait_step step (\<lambda>s. wait_turn (holds s) (calls s))) (wait_guard guard) (s, w) es" and "remembered (ripe s) (calls s) w"
    and "foldl (wait_step step (\<lambda>s. wait_turn (holds s) (calls s))) (s, w) es = (s', w')"
  shows "inv s' \<and> remembered (ripe s') (calls s') w'"
  using assms
proof (induction es arbitrary: s w)
  case (Cons e es)
  show ?case
  proof (cases e)
    case None
    then show ?thesis
      using Cons.prems remembered_turn [OF Cons.prems(3) ripe_holds]
      by (intro Cons.IH [of s "wait_turn (holds s) (calls s) w"]) (simp_all add: wait_step_def)
  next
    case (Some ev)
    then have g: "guard s ev" using Cons.prems(2) by (simp add: wait_guard_def)
    show ?thesis
      using Some Cons.prems remembered_moves [OF Cons.prems(3) calls_grow [OF Cons.prems(1) g] change_notifies [OF Cons.prems(1) g]]
        step_inv [OF Cons.prems(1) g]
      by (intro Cons.IH [of "step s ev" w]) (simp_all add: wait_step_def)
  qed
qed simp

lemma not_lost:
  assumes "inv s"
  shows "wakes_up step guard (\<lambda>s. wait_turn (holds s) (calls s)) ripe s"
  unfolding wakes_up_def
proof (intro allI impI)
  let ?turn = "\<lambda>s. wait_turn (holds s) (calls s)"
  fix es s' w'
  assume "legal (wait_step step ?turn) (wait_guard guard) (s, WtTop) es"
    and "foldl (wait_step step ?turn) (s, WtTop) es = (s', w')" and "ripe s'"
  then show "(?turn s' ^^ 3) w' = WtDone"
    using run_remembered [OF assms, of WtTop es s' w'] ripe_holds [of s'] remembered_ends
    by (simp add: remembered_def [of _ _ WtTop])
qed

end

section \<open>The loops of the library\<close>

definition close_wait :: "WebrtcConn \<Rightarrow> waiter \<Rightarrow> waiter" where
  "close_wait c = wait_turn (cs_closed c) (cs_notified c)"

definition hello_wait :: "WebrtcConn \<Rightarrow> waiter \<Rightarrow> waiter" where
  "hello_wait c = wait_turn (established c) (hello_notified c)"

definition slot_wait :: "ConnFlow \<Rightarrow> waiter \<Rightarrow> waiter" where
  "slot_wait f = wait_turn (fst (reserve_stream_slot f) \<noteq> Pending) (notified f)"

definition open_wait :: "WebrtcStream \<Rightarrow> waiter \<Rightarrow> waiter" where
  "open_wait s = wait_turn (wait_open s \<noteq> Pending) (open_notified s)"

definition stream_closed_wait :: "WebrtcStream \<Rightarrow> waiter \<Rightarrow> waiter" where
  "stream_closed_wait s = wait_turn (st_closed s) (closed_notified s)"

definition quic_closed_wait :: "QuicStream \<Rightarrow> waiter \<Rightarrow> waiter" where
  "quic_closed_wait s = wait_turn (q_closed s) (q_notified s)"

subsection \<open>Slots and streams\<close>

lemma flow_step_notified: "notified f \<le> notified (flow_step f e)"
  by (cases e)
     (simp_all add: flow_op_defs new_stream_def on_data_received_def poll_reserve_def on_consumed_def consume_stream_def
       consume_conn_def drop_stream_def reserve_stream_slot_def Let_def
       split: option.split prod.split)

interpretation slot: awaited flow_step "\<lambda>_ _. True" "\<lambda>_. True" "\<lambda>f. fst (reserve_stream_slot f) \<noteq> Pending"
  "\<lambda>f. fst (reserve_stream_slot f) \<noteq> Pending" notified
proof unfold_locales
  fix f e
  show "notified f \<le> notified (flow_step f e)" by (rule flow_step_notified)
  assume "fst (reserve_stream_slot (flow_step f e)) \<noteq> Pending"
  then show "fst (reserve_stream_slot f) \<noteq> Pending \<or> notified f < notified (flow_step f e)"
    using slot_blocked_or_woken [of f e] by (auto simp: slot_blocked_def woke_all_def)
qed simp_all

lemma open_flags:
  "e \<noteq> SvOpen \<Longrightarrow> e \<noteq> SvClosed \<Longrightarrow>
     dc_open (stream_step s e) = dc_open s \<and> dc_closed (stream_step s e) = dc_closed s
     \<and> open_notified (stream_step s e) = open_notified s"
  by (cases e)
     (simp_all add: stream_op_defs poll_write_def write_credit_def write_queue_def give_back_grant_def mark_closed_def
       split: poll.split sum.split list.split writer.split prod.split option.split ParsedFrame.split bool.split)

lemma open_changes:
  "open_notified s \<le> open_notified (stream_step s e)
   \<and> (wait_open (stream_step s e) \<noteq> Pending \<longrightarrow> wait_open s \<noteq> Pending \<or> open_notified s < open_notified (stream_step s e))"
proof (cases "e = SvOpen \<or> e = SvClosed")
  case True
  then show ?thesis
    by (auto simp: on_open_def on_channel_close_def mark_closed_def Let_def wait_open_def)
next
  case False
  with open_flags [of e s] show ?thesis by (simp add: wait_open_def)
qed

lemma mark_closed_changes:
  "closed_notified s \<le> closed_notified (mark_closed s)
   \<and> (st_closed (mark_closed s) \<longrightarrow> st_closed s \<or> closed_notified s < closed_notified (mark_closed s))"
  by (simp add: mark_closed_def)

lemma stream_closed_changes:
  "closed_notified s \<le> closed_notified (stream_step s e)
   \<and> (st_closed (stream_step s e) \<longrightarrow> st_closed s \<or> closed_notified s < closed_notified (stream_step s e))"
  by (cases e)
     (auto simp: stream_op_defs wait_open_def poll_write_def write_credit_def write_queue_def give_back_grant_def mark_closed_def
       split: poll.split sum.split list.split writer.split prod.split option.split ParsedFrame.split bool.split)

interpretation opened: awaited stream_step stream_guard "\<lambda>_. True" "\<lambda>s. wait_open s \<noteq> Pending" "\<lambda>s. wait_open s \<noteq> Pending" open_notified
  by unfold_locales (use open_changes in blast)+

interpretation stream_closed: awaited stream_step stream_guard "\<lambda>_. True" st_closed st_closed closed_notified
  by unfold_locales (use stream_closed_changes in blast)+

interpretation quic_closed: awaited quic_step "\<lambda>_ _. True" "\<lambda>_. True" q_closed q_closed q_notified
  by unfold_locales (simp_all add: quic_step_close)

subsection \<open>Connections\<close>

text \<open>
  Any task and callback of a connection, and \<open>mark\<close> called by a further thread, which can be
  interrupted between its swap of the flag and the rest.
\<close>

datatype mark_ev = MvConn conn_ev | MvSwap | MvStore "StreamError option"

fun mark_move :: "WebrtcConn \<times> bool \<Rightarrow> mark_ev \<Rightarrow> WebrtcConn \<times> bool" where
  "mark_move (c, marking) (MvConn e) = (conn_step c e, marking)"
| "mark_move (c, marking) MvSwap = (mark_swap c, True)"
| "mark_move (c, marking) (MvStore err) = (mark_store err c, False)"

fun mark_guard :: "WebrtcConn \<times> bool \<Rightarrow> mark_ev \<Rightarrow> bool" where
  "mark_guard (c, marking) (MvConn e) \<longleftrightarrow> conn_guard c e"
| "mark_guard (c, marking) MvSwap \<longleftrightarrow> \<not> cs_closed c"
| "mark_guard (c, marking) (MvStore err) \<longleftrightarrow> marking"

text \<open>What a step from \<open>c\<close> to \<open>d\<close> owes the waiters.\<close>

definition notifies :: "WebrtcConn \<Rightarrow> WebrtcConn \<Rightarrow> bool" where
  "notifies c d \<longleftrightarrow>
     cs_notified c \<le> cs_notified d \<and> (cs_closed c \<longrightarrow> cs_closed d)
     \<and> (cs_closed d \<longrightarrow> cs_closed c \<or> cs_notified c < cs_notified d)
     \<and> hello_notified c \<le> hello_notified d \<and> (established d \<longrightarrow> established c \<or> hello_notified c < hello_notified d)
     \<and> inc_notified c \<le> inc_notified d \<and> (inc_queue d \<noteq> [] \<longrightarrow> inc_queue c \<noteq> [] \<or> inc_notified c < inc_notified d)"

lemma notifies_refl [simp]: "notifies c c"
  by (simp add: notifies_def)

lemma notifies_frame [simp]:
  "notifies c (d\<lparr>tasks := x1\<rparr>) = notifies c d" "notifies c (d\<lparr>control_out := x2\<rparr>) = notifies c d"
  "notifies c (d\<lparr>conn_flow := x3\<rparr>) = notifies c d" "notifies c (d\<lparr>tearing_down := x4\<rparr>) = notifies c d"
  "notifies c (d\<lparr>watcher := x5\<rparr>) = notifies c d" "notifies c (d\<lparr>dg_rx := x6\<rparr>) = notifies c d"
  "notifies c (d\<lparr>hello_sent := x7\<rparr>) = notifies c d" "notifies c (d\<lparr>hello_received := x8\<rparr>) = notifies c d"
  "notifies c (d\<lparr>inc_staged := x9\<rparr>) = notifies c d" "notifies c (d\<lparr>pc_close_calls := x10\<rparr>) = notifies c d"
  "notifies c (d\<lparr>control_writer_live := x11\<rparr>) = notifies c d" "notifies c (d\<lparr>handed_out := x12\<rparr>) = notifies c d"
  "notifies c (d\<lparr>stream_seq := x13\<rparr>) = notifies c d" "notifies c (d\<lparr>conn_streams := x14\<rparr>) = notifies c d"
  by (simp_all add: notifies_def)

lemma notifies_helpers [simp]:
  "notifies c (spawn t d) = notifies c d" "notifies c (finish_task t d) = notifies c d"
  "notifies c (fatal code msg d) = notifies c d" "notifies c (control_send m ok d) = notifies c d"
  "notifies c (pc_close d) = notifies c d" "notifies c (on_flow_conn g d) = notifies c d"
  "notifies c (put_conn_stream s d) = notifies c d" "notifies c (hand_out i d) = notifies c d"
  by (simp_all add: spawn_def finish_task_def fatal_def control_send_def pc_close_def on_flow_conn_def put_conn_stream_def
      hand_out_def)

lemma notifies_events [simp]:
  "notifies c d \<Longrightarrow> notifies c (mark err d)" "notifies c d \<Longrightarrow> notifies c (check_and_flush d)"
  "notifies c d \<Longrightarrow> notifies c (inc_push i d)"
  by (auto simp: notifies_def mark_def mark_swap_def mark_store_def check_and_flush_def hello_check_def flush_staged_def
      inc_push_def)

lemma notifies_fatals [simp]: "notifies c (fatals calls d) = notifies c d"
  by (induction calls d rule: fatals.induct) simp_all

lemma notifies_accept [simp]: "notifies c (snd (accept_stream c))"
  by (simp add: accept_stream_def inc_pop_def split: list.split) (simp add: notifies_def)

lemma notifies_step: "notifies c (conn_step c e)"
proof (cases "e = CvAccept")
  case False
  then show ?thesis
    by (cases e)
       (simp_all add: conn_defs(2-5) new_conn_stream_def handle_incoming_def surface_def inc_stage_def stream_event_def
         fatal_send_def fatal_finish_def watch_step_def open_begin_def
         open_established_def open_slot_def open_channel_def open_ready_def call_abandon_def close_begin_def
         close_finish_def send_close_and_flush_def unsupported_finish_def reserved_channel_lost_def control_writer_def
         on_datagram_def receive_datagram_def Let_def
         split: option.split list.split sum.split poll.split prod.split ControlMsg.split watch.split watch_branch.split
           conn_task.split)
qed simp

definition marked :: "WebrtcConn \<times> bool \<Rightarrow> bool" where
  "marked x \<longleftrightarrow> cs_closed (fst x) \<and> \<not> snd x"

lemma mark_move_notifies:
  assumes "mark_guard x e"
  shows "cs_notified (fst x) \<le> cs_notified (fst (mark_move x e))" "hello_notified (fst x) \<le> hello_notified (fst (mark_move x e))"
    "inc_notified (fst x) \<le> inc_notified (fst (mark_move x e))"
    "marked (mark_move x e) \<Longrightarrow> marked x \<or> cs_notified (fst x) < cs_notified (fst (mark_move x e))"
    "established (fst (mark_move x e)) \<Longrightarrow> established (fst x) \<or> hello_notified (fst x) < hello_notified (fst (mark_move x e))"
    "inc_queue (fst (mark_move x e)) \<noteq> [] \<Longrightarrow> inc_queue (fst x) \<noteq> [] \<or> inc_notified (fst x) < inc_notified (fst (mark_move x e))"
proof -
  obtain c m where x: "x = (c, m)" by (cases x)
  have n: "notifies c (conn_step c ev)" for ev by (rule notifies_step)
  show "cs_notified (fst x) \<le> cs_notified (fst (mark_move x e))" "hello_notified (fst x) \<le> hello_notified (fst (mark_move x e))"
    "inc_notified (fst x) \<le> inc_notified (fst (mark_move x e))"
    "marked (mark_move x e) \<Longrightarrow> marked x \<or> cs_notified (fst x) < cs_notified (fst (mark_move x e))"
    "established (fst (mark_move x e)) \<Longrightarrow> established (fst x) \<or> hello_notified (fst x) < hello_notified (fst (mark_move x e))"
    "inc_queue (fst (mark_move x e)) \<noteq> [] \<Longrightarrow> inc_queue (fst x) \<noteq> [] \<or> inc_notified (fst x) < inc_notified (fst (mark_move x e))"
    using n by (cases e; auto simp: x marked_def notifies_def mark_swap_def mark_store_def)+
qed

interpretation close_wait: awaited mark_move mark_guard "\<lambda>_. True" "\<lambda>x. cs_closed (fst x)" marked "\<lambda>x. cs_notified (fst x)"
  by unfold_locales (use mark_move_notifies in \<open>auto simp: marked_def\<close>)

interpretation hello_wait: awaited mark_move mark_guard "\<lambda>_. True" "\<lambda>x. established (fst x)" "\<lambda>x. established (fst x)" "\<lambda>x. hello_notified (fst x)"
  by unfold_locales (use mark_move_notifies in auto)

section \<open>Accepting a stream\<close>

text \<open>
  \<open>accept_stream\<close> holds a \<open>Notified\<close> of the queue while it looks, and then awaits that or the
  close, whose wait it begins anew; either takes it back to the head of the loop.
\<close>

datatype accepter = AcTop | AcArmed nat | AcSelect nat waiter | AcDone "Error + u64"

fun accept_turn :: "WebrtcConn \<Rightarrow> accepter \<Rightarrow> WebrtcConn \<times> accepter" where
  "accept_turn c AcTop = (c, AcArmed (inc_notified c))"
| "accept_turn c (AcArmed k) =
     (case accept_stream c of
        (Ready r, c') \<Rightarrow> (c', AcDone r)
      | (Pending, c') \<Rightarrow> (c', AcSelect k WtTop))"
| "accept_turn c (AcSelect k w) =
     (if k < inc_notified c then (c, AcTop)
      else case close_wait c w of WtDone \<Rightarrow> (c, AcTop) | w' \<Rightarrow> (c, AcSelect k w'))"
| "accept_turn c (AcDone r) = (c, AcDone r)"

definition accept_turns :: "nat \<Rightarrow> WebrtcConn \<Rightarrow> accepter \<Rightarrow> WebrtcConn \<times> accepter" where
  "accept_turns n c a = ((\<lambda>(c, a). accept_turn c a) ^^ n) (c, a)"

definition accept_step :: "(WebrtcConn \<times> bool) \<times> accepter \<Rightarrow> mark_ev option \<Rightarrow> (WebrtcConn \<times> bool) \<times> accepter" where
  "accept_step y e =
     (case y of ((c, marking), a) \<Rightarrow>
        (case e of
           Some ev \<Rightarrow> (mark_move (c, marking) ev, a)
         | None \<Rightarrow> (let (c', a') = accept_turn c a in ((c', marking), a'))))"

definition accept_guard :: "(WebrtcConn \<times> bool) \<times> accepter \<Rightarrow> mark_ev option \<Rightarrow> bool" where
  "accept_guard y e \<longleftrightarrow> (case e of Some ev \<Rightarrow> mark_guard (fst y) ev | None \<Rightarrow> True)"

definition accepter_ok :: "(WebrtcConn \<times> bool) \<times> accepter \<Rightarrow> bool" where
  "accepter_ok y \<longleftrightarrow>
     (case snd y of
        AcArmed k \<Rightarrow> k \<le> inc_notified (fst (fst y))
      | AcSelect k w \<Rightarrow>
          k \<le> inc_notified (fst (fst y)) \<and> (inc_queue (fst (fst y)) \<noteq> [] \<longrightarrow> k < inc_notified (fst (fst y)))
          \<and> remembered (marked (fst y)) (cs_notified (fst (fst y))) w
      | _ \<Rightarrow> True)"

lemma accept_waits: "fst (accept_stream c) = Pending \<longleftrightarrow> inc_queue c = [] \<and> \<not> cs_closed c"
  by (simp add: accept_stream_def inc_pop_def split: list.split)

lemma accept_pending: "accept_stream c = (Pending, c') \<Longrightarrow> c' = c \<and> inc_queue c = [] \<and> \<not> cs_closed c"
  by (auto simp: accept_stream_def inc_pop_def split: list.splits if_splits)

lemma accepter_turn_ok:
  assumes "accepter_ok ((c, m), a)" and "accept_turn c a = (c', a')"
  shows "accepter_ok ((c', m), a')"
proof (cases a)
  case (AcArmed k)
  with assms accept_pending [of c] show ?thesis
    by (auto simp: accepter_ok_def remembered_def split: prod.splits poll.splits)
next
  case (AcSelect k w)
  have r: "remembered (marked (c, m)) (cs_notified c) (close_wait c w)"
    using assms(1) AcSelect remembered_turn [of "marked (c, m)" "cs_notified c" w "cs_closed c"]
    by (simp add: accepter_ok_def close_wait_def marked_def)
  with assms AcSelect show ?thesis
    by (auto simp: accepter_ok_def split: if_splits waiter.splits)
qed (use assms in \<open>auto simp: accepter_ok_def\<close>)

lemma accepter_step_ok:
  assumes "accepter_ok y" and "accept_guard y e"
  shows "accepter_ok (accept_step y e)"
proof -
  obtain c m a where y: "y = ((c, m), a)" by (metis surj_pair)
  show ?thesis
  proof (cases e)
    case None
    with assms(1) accepter_turn_ok [of c m a] show ?thesis by (simp add: y accept_step_def split: prod.split)
  next
    case (Some ev)
    have g: "mark_guard (c, m) ev" using assms(2) Some by (simp add: y accept_guard_def)
    obtain c' m' where x: "mark_move (c, m) ev = (c', m')" by (cases "mark_move (c, m) ev")
    note n = mark_move_notifies [OF g, unfolded x, simplified]
    have "remembered (marked (c', m')) (cs_notified c') w" if "remembered (marked (c, m)) (cs_notified c) w" for w
      by (rule remembered_moves [OF that n(1) n(4)])
    moreover have "inc_queue c' \<noteq> [] \<longrightarrow> k < inc_notified c'"
      if "k \<le> inc_notified c" "inc_queue c \<noteq> [] \<longrightarrow> k < inc_notified c" for k
      using that n(3,6) by fastforce
    moreover have "accept_step y e = ((c', m'), a)" using x by (simp add: Some y accept_step_def)
    ultimately show ?thesis
      using assms(1) n(3) by (cases a) (simp_all add: y accepter_ok_def)
  qed
qed

interpretation accepter: machine accept_step accept_guard accepter_ok
  by unfold_locales (rule accepter_step_ok)

lemma accepter_ends:
  assumes "accepter_ok ((c, False), a)" and "accept_stream c = (Ready r, c')" and "\<forall>x. a \<noteq> AcDone x"
  shows "accept_turns 5 c a = (c', AcDone r)"
proof -
  have "inc_queue c \<noteq> [] \<or> cs_closed c" using accept_waits [of c] assms(2) by simp
  then show ?thesis
    using assms
    by (cases a; auto simp: accepter_ok_def accept_turns_def eval_nat_numeral close_wait_def remembered_def marked_def split: waiter.splits)
qed

section \<open>The properties\<close>

text \<open>
  C6: No wait of the library is lost, whatever the threads do in between: a waiter for the close
  of a connection, whose flag is set before its notification is given, for its establishment,
  for a stream slot, for a stream to open, for a stream to end on WebRTC or on QUIC returns
  within three turns of its own once what it waits for has come about, wherever in its loop
  the threads had left it: before the registration, between that and the test, or parked.
\<close>

theorem waits_end:
  "wakes_up mark_move mark_guard (\<lambda>x. close_wait (fst x)) marked (c, False)
   \<and> wakes_up mark_move mark_guard (\<lambda>x. hello_wait (fst x)) (\<lambda>x. established (fst x)) (c, False)
   \<and> wakes_up flow_step (\<lambda>_ _. True) slot_wait (\<lambda>f. fst (reserve_stream_slot f) \<noteq> Pending) f
   \<and> wakes_up stream_step stream_guard open_wait (\<lambda>s. wait_open s \<noteq> Pending) s
   \<and> wakes_up stream_step stream_guard stream_closed_wait st_closed s
   \<and> wakes_up quic_step (\<lambda>_ _. True) quic_closed_wait q_closed q"
  unfolding close_wait_def hello_wait_def slot_wait_def [abs_def] open_wait_def [abs_def] stream_closed_wait_def [abs_def]
    quic_closed_wait_def [abs_def]
  using close_wait.not_lost [OF TrueI] hello_wait.not_lost [OF TrueI] slot.not_lost [OF TrueI] opened.not_lost [OF TrueI]
    stream_closed.not_lost [OF TrueI] quic_closed.not_lost [OF TrueI]
  by (intro conjI)

text \<open>
  C14: No wake-up is lost for \<open>accept_stream\<close>: however its loop interleaves with the tasks and
  callbacks of the connection, other acceptors and the marking of a close, when a stream is in
  the queue or the connection is closed, the call returns within five turns, and with exactly
  the stream at the head of the queue or the close reason.
\<close>

theorem accept_not_lost:
  assumes "legal accept_step accept_guard ((c, False), AcTop) es"
    and "foldl accept_step ((c, False), AcTop) es = ((d, False), a)" and "\<forall>x. a \<noteq> AcDone x"
    and "accept_stream d = (Ready r, d')"
  shows "accept_turns 5 d a = (d', AcDone r)"
proof (rule accepter_ends [OF _ assms(4,3)])
  have "accepter_ok ((c, False), AcTop)" by (simp add: accepter_ok_def)
  from accepter.run_inv [OF this assms(1)] show "accepter_ok ((d, False), a)" by (simp add: assms(2))
qed

text \<open>A parked call, and then a stream of the peer.\<close>

definition arriving :: WebrtcConn where
  "arriving = fresh_conn\<lparr>tasks := [TkSurface 1 True]\<rparr>"

definition arrived_conn :: WebrtcConn where
  "arrived_conn = fresh_conn\<lparr>inc_queue := [1], inc_notified := 1\<rparr>"

theorem accept_not_lost_witness:
  "\<exists>d. accept_turns 5 arrived_conn (AcSelect 0 WtTop) = (d, AcDone (Inr 1))"
proof -
  let ?es = "[None, None, Some (MvConn (CvSurface 1 True))]"
  have a: "inc_queue arriving = []" "\<not> cs_closed arriving" "inc_notified arriving = 0" "TkSurface 1 True \<in> set (tasks arriving)"
    "surface 1 True arriving = arrived_conn"
    by (simp_all add: arriving_def arrived_conn_def fresh_conn_def WebrtcConn_new_def surface_def finish_task_def inc_push_def)
  have p: "accept_stream arriving = (Pending, arriving)" using a(1,2) by (simp add: accept_stream_def inc_pop_def)
  have l: "legal accept_step accept_guard ((arriving, False), AcTop) ?es"
    and r: "foldl accept_step ((arriving, False), AcTop) ?es = ((arrived_conn, False), AcSelect 0 WtTop)"
    using a p by (simp_all add: accept_step_def accept_guard_def)
  obtain d where "accept_stream arrived_conn = (Ready (Inr 1), d)"
    by (simp add: arrived_conn_def accept_stream_def inc_pop_def)
  from accept_not_lost [OF l r _ this] show ?thesis by simp
qed

end
