(* ===== verification/KpsIdentity.thy ===== *)
theory KpsIdentity
  imports KpsAddress
begin

text \<open>
  \<open>src/libs/rust/kps/src/cert.rs\<close> and \<open>ice.rs\<close>: the server's identity, its PEM file, and the
  ICE password derived from its digest. The crates (PEM, keys and certificates, SHA-256, HMAC,
  base64) are the fields of one argument; the file system is a map from paths to contents.
\<close>

section \<open>The crates\<close>

record Pem =
  pem_tag :: string
  pem_contents :: bytes
  pem_headers :: "string list"

record 'k Crates =
  cr_sha256 :: "bytes \<Rightarrow> bytes"
  cr_hmac_sha256 :: "bytes \<Rightarrow> bytes \<Rightarrow> bytes"
  cr_base64url :: "bytes \<Rightarrow> string"
  cr_base64 :: "bytes \<Rightarrow> string"
  cr_pem_parse_many :: "string \<Rightarrow> string + Pem list"
  cr_pem_encode :: "Pem \<Rightarrow> string"
  cr_key_from_pem :: "string \<Rightarrow> string + 'k"
  cr_key_pem :: "'k \<Rightarrow> string"
  cr_key_der :: "'k \<Rightarrow> bytes"

section \<open>Identities\<close>

record Identity =
  id_cert_der :: bytes
  id_key_der :: bytes
  id_key_pem :: string
  id_certhash :: string
  id_digest :: bytes

definition from_parts :: "'k Crates \<Rightarrow> bytes \<Rightarrow> 'k \<Rightarrow> Identity" where
  "from_parts C cert key =
     (let digest = cr_sha256 C cert
      in \<lparr>id_cert_der = cert, id_key_der = cr_key_der C key, id_key_pem = cr_key_pem C key,
          id_certhash = encode_certhash (cr_base64url C) digest, id_digest = digest\<rparr>)"

text \<open>\<open>build_cert\<close> and the key generation answer with an error text or the certificate.\<close>

definition build_cert :: "string + bytes \<Rightarrow> Error + bytes" where
  "build_cert answer = (case answer of Inl e \<Rightarrow> Inl (ErrIdentity (''self-sign: '' @ e)) | Inr der \<Rightarrow> Inr der)"

text \<open>The serial number of a new certificate: 16 random bytes, kept positive.\<close>

definition serial_bytes :: "bytes \<Rightarrow> bytes" where
  "serial_bytes random = random[0 := and (random ! 0) 0x7f]"

definition generate :: "'k Crates \<Rightarrow> string + 'k \<Rightarrow> ('k \<Rightarrow> string + bytes) \<Rightarrow> Error + Identity" where
  "generate C new_key sign =
     (case new_key of
        Inl e \<Rightarrow> Inl (ErrIdentity (''generate key: '' @ e))
      | Inr key \<Rightarrow>
          (case build_cert (sign key) of Inl e \<Rightarrow> Inl e | Inr cert \<Rightarrow> Inr (from_parts C cert key)))"

text \<open>The loop over the blocks: the first certificate and the first private key count.\<close>

fun pick_blocks :: "'k Crates \<Rightarrow> Pem list \<Rightarrow> bytes option \<Rightarrow> string option \<Rightarrow> bytes option \<times> string option" where
  "pick_blocks C [] cert key = (cert, key)"
| "pick_blocks C (b # bs) cert key =
     (if pem_tag b = ''CERTIFICATE'' \<and> cert = None then pick_blocks C bs (Some (pem_contents b)) key
      else if (pem_tag b = ''PRIVATE KEY'' \<or> pem_tag b = ''EC PRIVATE KEY'') \<and> key = None
      then pick_blocks C bs cert (Some (cr_pem_encode C b))
      else pick_blocks C bs cert key)"

definition from_pem :: "'k Crates \<Rightarrow> string \<Rightarrow> Error + Identity" where
  "from_pem C pem_str =
     (case cr_pem_parse_many C pem_str of
        Inl e \<Rightarrow> Inl (ErrIdentity (''parse PEM: '' @ e))
      | Inr blocks \<Rightarrow>
          (case pick_blocks C blocks None None of
             (None, key) \<Rightarrow> Inl (ErrIdentity ''PEM has no CERTIFICATE block'')
           | (Some cert, None) \<Rightarrow> Inl (ErrIdentity ''PEM has no PRIVATE KEY block'')
           | (Some cert, Some key_pem) \<Rightarrow>
               (case cr_key_from_pem C key_pem of
                  Inl e \<Rightarrow> Inl (ErrIdentity (''parse private key: '' @ e))
                | Inr key \<Rightarrow> Inr (from_parts C cert key))))"

definition cert_block :: "bytes \<Rightarrow> Pem" where
  "cert_block der = \<lparr>pem_tag = ''CERTIFICATE'', pem_contents = der, pem_headers = []\<rparr>"

definition to_pem :: "'k Crates \<Rightarrow> Identity \<Rightarrow> string" where
  "to_pem C i =
     id_key_pem i @ cr_pem_encode C (cert_block (id_cert_der i))"

section \<open>The key file\<close>

text \<open>What the system answers: a read that fails otherwise than by absence, and a write.\<close>

datatype write_answer = WriteDone | OpenFails string | WriteStops nat string

text \<open>The file is truncated when it is opened; a write that stops leaves what it had written.\<close>

definition write_secret ::
  "write_answer \<Rightarrow> string \<Rightarrow> string \<Rightarrow> (string \<rightharpoonup> string) \<Rightarrow> (Error + unit) \<times> (string \<rightharpoonup> string)" where
  "write_secret answer path data fs =
     (case answer of
        WriteDone \<Rightarrow> (Inr (), fs(path \<mapsto> data))
      | OpenFails e \<Rightarrow> (Inl (ErrIo e), fs)
      | WriteStops n e \<Rightarrow> (Inl (ErrIo e), fs(path \<mapsto> take n data)))"

definition save_identity ::
  "'k Crates \<Rightarrow> write_answer \<Rightarrow> string \<Rightarrow> Identity \<Rightarrow> (string \<rightharpoonup> string) \<Rightarrow> (Error + Identity) \<times> (string \<rightharpoonup> string)" where
  "save_identity C answer path i fs =
     (case write_secret answer path (to_pem C i) fs of
        (Inl e, fs') \<Rightarrow> (Inl e, fs')
      | (Inr _, fs') \<Rightarrow> (Inr i, fs'))"

definition load_or_create ::
  "'k Crates \<Rightarrow> string + 'k \<Rightarrow> ('k \<Rightarrow> string + bytes) \<Rightarrow> string option \<Rightarrow> write_answer \<Rightarrow> string
   \<Rightarrow> (string \<rightharpoonup> string) \<Rightarrow> (Error + Identity) \<times> (string \<rightharpoonup> string)" where
  "load_or_create C new_key sign read_fails answer path fs =
     (case read_fails of
        Some e \<Rightarrow> (Inl (ErrIo e), fs)
      | None \<Rightarrow>
          (case fs path of
             Some data \<Rightarrow>
               (case from_pem C data of
                  Inr i \<Rightarrow> (Inr i, fs)
                | Inl _ \<Rightarrow>
                    (case cr_key_from_pem C data of
                       Inl e \<Rightarrow> (Inl (ErrIdentity (''parse '' @ path @ '': '' @ e)), fs)
                     | Inr key \<Rightarrow>
                         (case build_cert (sign key) of
                            Inl e \<Rightarrow> (Inl e, fs)
                          | Inr cert \<Rightarrow> save_identity C answer path (from_parts C cert key) fs)))
           | None \<Rightarrow>
               (case generate C new_key sign of
                  Inl e \<Rightarrow> (Inl e, fs)
                | Inr i \<Rightarrow> save_identity C answer path i fs)))"

section \<open>ICE credentials\<close>

definition str_bytes :: "string \<Rightarrow> bytes" where
  "str_bytes s = map (\<lambda>c. of_nat (of_char c)) s"

definition derive_ice_pwd :: "'k Crates \<Rightarrow> bytes \<Rightarrow> string \<Rightarrow> string" where
  "derive_ice_pwd C digest ufrag =
     cr_base64 C (cr_hmac_sha256 C digest (str_bytes ''kps-ice-pwd-v1:'' @ str_bytes ufrag))"

text \<open>\<open>hex::encode\<close> is an argument; the random bytes are another.\<close>

definition rand_ufrag :: "(bytes \<Rightarrow> string) \<Rightarrow> bytes \<Rightarrow> string" where
  "rand_ufrag hex_encode random = hex_encode random"

section \<open>Stability\<close>

text \<open>
  What the identity relies on: the PEM crate reads back the two blocks that were written one
  after the other, and a key that was read from its own PEM is the same key.
\<close>

definition pem_faithful :: "'k Crates \<Rightarrow> bool" where
  "pem_faithful C \<longleftrightarrow>
     (\<forall>key cert. \<exists>kb.
        cr_pem_parse_many C (cr_key_pem C key @ cr_pem_encode C (cert_block cert)) = Inr [kb, cert_block cert]
        \<and> pem_tag kb = ''PRIVATE KEY'' \<and> cr_key_from_pem C (cr_pem_encode C kb) = Inr key)"

lemma from_pem_to_pem:
  assumes "pem_faithful C"
  shows "from_pem C (to_pem C (from_parts C cert key)) = Inr (from_parts C cert key)"
proof -
  obtain kb where "cr_pem_parse_many C (cr_key_pem C key @ cr_pem_encode C (cert_block cert)) = Inr [kb, cert_block cert]"
    "pem_tag kb = ''PRIVATE KEY''" "cr_key_from_pem C (cr_pem_encode C kb) = Inr key"
    using assms unfolding pem_faithful_def by blast
  then show ?thesis by (simp add: from_pem_def to_pem_def from_parts_def cert_block_def Let_def)
qed

definition identity_wf :: "'k Crates \<Rightarrow> Identity \<Rightarrow> bool" where
  "identity_wf C i \<longleftrightarrow> (\<exists>cert key. i = from_parts C cert key)"

lemma identity_wfD:
  "identity_wf C i \<Longrightarrow> id_digest i = cr_sha256 C (id_cert_der i)
     \<and> id_certhash i = encode_certhash (cr_base64url C) (cr_sha256 C (id_cert_der i))"
  by (auto simp: identity_wf_def from_parts_def Let_def)

lemma from_pem_wf: "from_pem C s = Inr i \<Longrightarrow> identity_wf C i"
  by (auto simp: from_pem_def identity_wf_def split: sum.splits prod.splits option.splits)

lemma saved_identity:
  assumes "save_identity C answer path i fs = (Inr j, fs')"
  shows "j = i" and "fs' path = Some (to_pem C i)"
  using assms by (auto simp: save_identity_def write_secret_def split: write_answer.splits)

text \<open>A load that succeeded: the file now holds a PEM that reads as the identity returned.\<close>

lemma loaded_identity:
  assumes "pem_faithful C" and "load_or_create C new_key sign read_fails answer path fs = (Inr i, fs')"
  shows "identity_wf C i \<and> (\<exists>data. fs' path = Some data \<and> from_pem C data = Inr i)"
proof -
  have saved: ?thesis if "save_identity C answer path (from_parts C cert key) fs = (Inr i, fs')" for cert key
    using saved_identity [OF that] from_pem_to_pem [OF assms(1), of cert key] by (auto simp: identity_wf_def)
  show ?thesis
    using assms(2) saved
    by (auto simp: load_or_create_def generate_def split: option.splits sum.splits intro: from_pem_wf)
qed

text \<open>
  C39: The identity is stable: with crates that read back what they wrote, once
  \<open>load_or_create\<close> has returned an identity, whatever the file was before (absent, a legacy
  key, a combined PEM), every later call on that path returns the same identity, certificate,
  key and certhash, and leaves the files alone; and the certhash is the encoding of the hash
  of the certificate that both transports present.
\<close>

theorem identity_stable:
  assumes "pem_faithful C" and "load_or_create C new_key sign read_fails answer path fs = (Inr i, fs')"
  shows "load_or_create C new_key' sign' None answer' path fs' = (Inr i, fs')
    \<and> from_pem C (to_pem C i) = Inr i
    \<and> id_certhash i = encode_certhash (cr_base64url C) (cr_sha256 C (id_cert_der i))"
proof -
  obtain data where wf: "identity_wf C i" and "fs' path = Some data" "from_pem C data = Inr i"
    using loaded_identity [OF assms] by blast
  then have "load_or_create C new_key' sign' None answer' path fs' = (Inr i, fs')" by (simp add: load_or_create_def)
  moreover have "from_pem C (to_pem C i) = Inr i"
    using wf from_pem_to_pem [OF assms(1)] by (auto simp: identity_wf_def)
  ultimately show ?thesis using identity_wfD [OF wf] by blast
qed

text \<open>
  Crates for the example: a key is a byte and its PEM the character, a block's PEM are its
  contents as characters, and the hash is the first 32 bytes, padded.
\<close>

definition ex_crates :: "u8 Crates" where
  "ex_crates =
     \<lparr>cr_sha256 = (\<lambda>x. take 32 (x @ replicate 32 0)), cr_hmac_sha256 = (\<lambda>k x. k @ x), cr_base64url = chars_of,
      cr_base64 = chars_of,
      cr_pem_parse_many = (\<lambda>s. case s of [] \<Rightarrow> Inl ''empty''
        | c # cs \<Rightarrow> Inr [\<lparr>pem_tag = ''PRIVATE KEY'', pem_contents = [of_nat (of_char c)], pem_headers = []\<rparr>,
                        cert_block (map (\<lambda>c. of_nat (of_char c)) cs)]),
      cr_pem_encode = (\<lambda>b. chars_of (pem_contents b)),
      cr_key_from_pem = (\<lambda>s. if length s = 1 then Inr (of_nat (of_char (hd s))) else Inl ''bad key''),
      cr_key_pem = (\<lambda>k. [char_of (unat k)]), cr_key_der = (\<lambda>k. [k])\<rparr>"

lemma byte_char: "of_nat (unat b mod 256) = (b :: u8)"
  using unat_bound [of b] by simp

lemma ex_crates_faithful: "pem_faithful ex_crates"
  by (auto simp: pem_faithful_def ex_crates_def chars_of_def byte_char comp_def cert_block_def)

theorem identity_stable_witness:
  "\<exists>i fs. load_or_create ex_crates (Inr 7) (\<lambda>k. Inr [1, k]) None WriteDone ''kps.key'' Map.empty = (Inr i, fs)
     \<and> load_or_create ex_crates (Inr 8) (\<lambda>k. Inr [2, k]) None WriteDone ''kps.key'' fs = (Inr i, fs)"
proof -
  have "load_or_create ex_crates (Inr 7) (\<lambda>k. Inr [1, k]) None WriteDone ''kps.key'' Map.empty
      = (Inr (from_parts ex_crates [1, 7] 7), [''kps.key'' \<mapsto> to_pem ex_crates (from_parts ex_crates [1, 7] 7)])"
    by (simp add: load_or_create_def generate_def build_cert_def save_identity_def write_secret_def)
  with identity_stable [OF ex_crates_faithful this] show ?thesis by blast
qed

section \<open>When a write stops\<close>

text \<open>
  A legacy key file is rewritten in place: when the write stops after the truncation, the
  only copy of the key is gone, and the next start no longer finds the key it had.
\<close>

lemma stopped_upgrade_loses_key:
  assumes "fs path = Some data" and "from_pem C data = Inl e" and "cr_key_from_pem C data = Inr key"
    and "sign key = Inr cert"
  shows "load_or_create C new_key sign None (WriteStops 0 io) path fs = (Inl (ErrIo io), fs(path \<mapsto> []))"
  using assms by (simp add: load_or_create_def build_cert_def save_identity_def write_secret_def)

end
