(* ===== verification/KpsDialer.thy ===== *)
theory KpsDialer
  imports KpsIdentity KpsListener KpsQuic
begin

text \<open>
  \<open>src/libs/rust/kps/src/webrtc_client.rs\<close>: the WebRTC dialer, with the answers of the WebRTC
  stack as arguments, and the session descriptions that neither side transmits.
\<close>

section \<open>Results\<close>

definition and_then :: "'e + 'a \<Rightarrow> ('a \<Rightarrow> 'e + 'b) \<Rightarrow> 'e + 'b" where
  "and_then r k = (case r of Inl e \<Rightarrow> Inl e | Inr x \<Rightarrow> k x)"

lemma and_then_simps [simp]: "and_then (Inl e) k = Inl e" "and_then (Inr x) k = k x"
  by (simp_all add: and_then_def)

lemma and_then_ok [simp]: "and_then r k = Inr y \<longleftrightarrow> (\<exists>x. r = Inr x \<and> k x = Inr y)"
  by (cases r) simp_all

definition dial_error :: "string \<Rightarrow> string + 'a \<Rightarrow> Error + 'a" where
  "dial_error what r = (case r of Inl e \<Rightarrow> Inl (ErrDial (what @ e)) | Inr x \<Rightarrow> Inr x)"

section \<open>The answer\<close>

fun join_colon :: "string list \<Rightarrow> string" where
  "join_colon [] = ''''"
| "join_colon [x] = x"
| "join_colon (x # y # zs) = x @ '':'' @ join_colon (y # zs)"

definition digest_to_fingerprint :: "bytes \<Rightarrow> string" where
  "digest_to_fingerprint d = join_colon (map hex2_upper d)"

definition synthesize_webrtc_answer :: "Address \<Rightarrow> string \<Rightarrow> string \<Rightarrow> string \<Rightarrow> string" where
  "synthesize_webrtc_answer a ufrag pwd fingerprint =
     (let fam = (if CHR '':'' \<in> set (ad_ip a) then ''IP6'' else ''IP4'');
          any_addr = (if CHR '':'' \<in> set (ad_ip a) then ''::'' else ''0.0.0.0'');
          port = show_nat (unat (ad_port a))
      in join_lines
           [''v=0'',
            ''o=- 0 0 IN '' @ fam @ '' '' @ any_addr,
            ''s=-'',
            ''t=0 0'',
            ''a=ice-lite'',
            ''m=application '' @ port @ '' UDP/DTLS/SCTP webrtc-datachannel'',
            ''c=IN '' @ fam @ '' '' @ ad_ip a,
            ''a=mid:0'',
            ''a=ice-ufrag:'' @ ufrag,
            ''a=ice-pwd:'' @ pwd,
            ''a=fingerprint:sha-256 '' @ fingerprint,
            ''a=setup:passive'',
            ''a=sctp-port:5000'',
            ''a=max-message-size:1048576'',
            ''a=candidate:1 1 UDP 1 '' @ ad_ip a @ '' '' @ port @ '' typ host''])"

section \<open>Dialing\<close>

text \<open>What the stack answers to each call of the dialer, in order.\<close>

record DialAnswers =
  da_peer_connection :: "string + unit"
  da_control :: "string + unit"
  da_conn :: "Error + unit"
  da_offer :: "string + unit"
  da_set_local :: "string + unit"
  da_answer :: "string + unit"
  da_set_remote :: "string + unit"
  da_established :: "Error + unit"

record Dialed =
  dl_remote :: SocketAddr
  dl_ufrag :: string
  dl_pwd :: string
  dl_answer :: string

definition dial_setup ::
  "'k Crates \<Rightarrow> (string \<Rightarrow> string + bytes) \<Rightarrow> (string \<Rightarrow> string + SocketAddr) \<Rightarrow> string \<Rightarrow> DialAnswers \<Rightarrow> string \<Rightarrow> Error + Dialed" where
  "dial_setup C base64_decode parse_socket ufrag ans addr =
     and_then (parse_address addr) (\<lambda>a.
     and_then (decode_certhash base64_decode (ad_certhash a)) (\<lambda>digest.
     let pwd = derive_ice_pwd C digest ufrag;
         sdp = synthesize_webrtc_answer a ufrag pwd (digest_to_fingerprint digest)
     in and_then (dial_error ''peer connection: '' (da_peer_connection ans)) (\<lambda>_.
        and_then (dial_error ''control channel: '' (da_control ans)) (\<lambda>_.
        and_then (case parse_socket (socket_text a) of
                    Inl e \<Rightarrow> Inl (ErrAddress (''bad ip in address: '' @ e)) | Inr r \<Rightarrow> Inr r) (\<lambda>remote.
        and_then (da_conn ans) (\<lambda>_.
        and_then (dial_error ''create offer: '' (da_offer ans)) (\<lambda>_.
        and_then (dial_error ''set local: '' (da_set_local ans)) (\<lambda>_.
        and_then (dial_error ''synthesize answer: '' (da_answer ans)) (\<lambda>_.
        and_then (dial_error ''set remote: '' (da_set_remote ans)) (\<lambda>_.
        Inr \<lparr>dl_remote = remote, dl_ufrag = ufrag, dl_pwd = pwd, dl_answer = sdp\<rparr>))))))))))"

text \<open>Then the wait for the HELLO exchange; a failure closes the PeerConnection.\<close>

definition dial_webrtc ::
  "'k Crates \<Rightarrow> (string \<Rightarrow> string + bytes) \<Rightarrow> (string \<Rightarrow> string + SocketAddr) \<Rightarrow> string \<Rightarrow> DialAnswers \<Rightarrow> string
   \<Rightarrow> (Error + Dialed) \<times> bool" where
  "dial_webrtc C base64_decode parse_socket ufrag ans addr =
     (case dial_setup C base64_decode parse_socket ufrag ans addr of
        Inl e \<Rightarrow> (Inl e, False)
      | Inr d \<Rightarrow>
          (case da_established ans of
             Inl e \<Rightarrow> (Inl (ErrDial (''connection failed: '' @ display_error e)), True)
           | Inr _ \<Rightarrow> (Inr d, False)))"

section \<open>Fingerprints\<close>

lemma of_char_hex_digit: "d < 16 \<Longrightarrow> (of_char (hex_digit 65 d) :: nat) = (if d < 10 then 48 + d else 55 + d)"
  by (simp add: hex_digit_def digit_char_def)

lemma hex_digit_inj:
  assumes "hex_digit 65 d = hex_digit 65 e" and "d < 16" and "e < 16"
  shows "d = e"
proof -
  have "(of_char (hex_digit 65 d) :: nat) = of_char (hex_digit 65 e)" by (rule arg_cong [OF assms(1)])
  then have "(if d < 10 then 48 + d else 55 + d) = (if e < 10 then 48 + e else 55 + e)"
    by (simp only: of_char_hex_digit [OF assms(2)] of_char_hex_digit [OF assms(3)])
  then show ?thesis by (simp split: if_splits)
qed

lemma hex2_upper_inj [simp]: "hex2_upper a = hex2_upper b \<longleftrightarrow> a = b"
proof
  assume h: "hex2_upper a = hex2_upper b"
  have bound: "unat a < 256" "unat b < 256" using unat_bound [of a] unat_bound [of b] by simp_all
  have "unat a div 16 = unat b div 16"
    by (rule hex_digit_inj) (use h bound in \<open>simp_all add: hex2_upper_def\<close>)
  moreover have "unat a mod 16 = unat b mod 16"
    by (rule hex_digit_inj) (use h in \<open>simp_all add: hex2_upper_def\<close>)
  ultimately have "unat a = unat b" by (metis div_mult_mod_eq)
  then show "a = b" by (simp add: word_unat_eq_iff)
qed simp

lemma join_colon_inj:
  assumes "length xs = length ys" and "list_all (\<lambda>x. length x = n) xs" and "list_all (\<lambda>x. length x = n) ys"
    and "join_colon xs = join_colon ys"
  shows "xs = ys"
  using assms
proof (induction xs ys rule: list_induct2)
  case (Cons x xs y ys)
  then show ?case by (cases xs; cases ys) auto
qed simp

lemma fingerprint_inj:
  assumes "length d = length e"
  shows "digest_to_fingerprint d = digest_to_fingerprint e \<longleftrightarrow> d = e"
proof
  assume "digest_to_fingerprint d = digest_to_fingerprint e"
  then have "map hex2_upper d = map hex2_upper e"
    using assms unfolding digest_to_fingerprint_def
    by (intro join_colon_inj [where n = 2]) (simp_all add: list_all_iff hex2_upper_def)
  then show "d = e" by (metis hex2_upper_inj injI map_injective)
qed simp

section \<open>Lines of a session description\<close>

definition sdp_line :: "string \<Rightarrow> string \<Rightarrow> bool" where
  "sdp_line sdp l \<longleftrightarrow> (\<exists>before after. sdp = before @ l @ [char_of (13::nat), char_of (10::nat)] @ after)"

lemma sdp_line_join: "l \<in> set ls \<Longrightarrow> sdp_line (join_lines ls) l"
proof -
  assume "l \<in> set ls"
  then obtain xs ys where "ls = xs @ l # ys" by (meson split_list)
  then have "join_lines ls = join_lines xs @ l @ [char_of (13::nat), char_of (10::nat)] @ join_lines ys"
    by (simp add: join_lines_def)
  then show ?thesis unfolding sdp_line_def by blast
qed

lemma answer_lines:
  "sdp_line (synthesize_webrtc_answer a ufrag pwd fp) (''a=ice-ufrag:'' @ ufrag)"
  "sdp_line (synthesize_webrtc_answer a ufrag pwd fp) (''a=ice-pwd:'' @ pwd)"
  "sdp_line (synthesize_webrtc_answer a ufrag pwd fp) (''a=fingerprint:sha-256 '' @ fp)"
  unfolding synthesize_webrtc_answer_def Let_def by (rule sdp_line_join, simp)+

lemma offer_lines:
  "sdp_line (build_client_offer ufrag pwd port addr) (''a=ice-ufrag:'' @ ufrag)"
  "sdp_line (build_client_offer ufrag pwd port addr) (''a=ice-pwd:'' @ pwd)"
  unfolding build_client_offer_def Let_def by (rule sdp_line_join, simp)+

end
