(* ===== verification/KpsServe.thy ===== *)
theory KpsServe
  imports KpsDialer
begin

text \<open>
  How a server comes up: \<open>listen\<close> and \<open>spawn_pc\<close> of \<open>listener.rs\<close>, the certificates that
  \<open>cert.rs\<close> and \<open>quic.rs\<close> make of the identity for the two stacks, and the virtual sockets. What
  the crates and the system answer to each call is an argument, in the order of the calls.
\<close>

section \<open>Errors\<close>

definition map_error :: "('e \<Rightarrow> Error) \<Rightarrow> 'e + 'a \<Rightarrow> Error + 'a" where
  "map_error f r = (case r of Inl e \<Rightarrow> Inl (f e) | Inr x \<Rightarrow> Inr x)"

lemma map_error_simps [simp]: "map_error f (Inl e) = Inl (f e)" "map_error f (Inr x) = Inr x"
  by (simp_all add: map_error_def)

lemma map_error_ok [simp]: "map_error f r = Inr x \<longleftrightarrow> r = Inr x"
  by (cases r) simp_all

definition identity_error :: "string \<Rightarrow> string \<Rightarrow> Error" where
  "identity_error what e = ErrIdentity (what @ '': '' @ e)"

definition transport_error :: "string \<Rightarrow> string \<Rightarrow> Error" where
  "transport_error what e = ErrTransport (what @ '': '' @ e)"

section \<open>The certificate\<close>

definition CERT_LIFETIME_DAYS :: int where
  "CERT_LIFETIME_DAYS = 200 * 365"

datatype key_usage = DigitalSignature
datatype extended_key_usage = ServerAuth | ClientAuth

text \<open>The parameters of a new certificate; times are seconds, the subject's attributes a list.\<close>

record CertificateParams =
  cp_subject :: "string list"
  cp_serial :: bytes
  cp_not_before :: int
  cp_not_after :: int
  cp_key_usages :: "key_usage list"
  cp_extended_key_usages :: "extended_key_usage list"

definition cert_params :: "bytes \<Rightarrow> int \<Rightarrow> CertificateParams" where
  "cert_params random now =
     \<lparr>cp_subject = [], cp_serial = serial_bytes random, cp_not_before = now - 3600,
      cp_not_after = now + CERT_LIFETIME_DAYS * 86400, cp_key_usages = [DigitalSignature],
      cp_extended_key_usages = [ServerAuth, ClientAuth]\<rparr>"

record 'd RtcCertificate =
  rc_chain :: "bytes list"
  rc_private_key :: 'd
  rc_expires :: int

definition rtc_certificate :: "'k Crates \<Rightarrow> ('k \<Rightarrow> string + 'd) \<Rightarrow> int \<Rightarrow> Identity \<Rightarrow> Error + 'd RtcCertificate" where
  "rtc_certificate C private_key now i =
     and_then (map_error (identity_error ''key for DTLS'') (cr_key_from_pem C (id_key_pem i))) (\<lambda>key.
     and_then (map_error (identity_error ''key for DTLS'') (private_key key)) (\<lambda>private.
     Inr \<lparr>rc_chain = [id_cert_der i], rc_private_key = private, rc_expires = now + CERT_LIFETIME_DAYS * 24 * 3600\<rparr>))"

definition rustls_parts :: "(bytes \<Rightarrow> string + bytes) \<Rightarrow> Identity \<Rightarrow> Error + bytes list \<times> bytes" where
  "rustls_parts private_key_der i =
     and_then (map_error (identity_error ''key for TLS'') (private_key_der (id_key_der i))) (\<lambda>key.
     Inr ([id_cert_der i], key))"

definition ALPN_KPS :: bytes where
  "ALPN_KPS = [0x68, 0x33]"

record TlsConfig =
  tc_chain :: "bytes list"
  tc_key :: bytes
  tc_alpn :: "bytes list"

definition server_config ::
  "(bytes \<Rightarrow> string + bytes) \<Rightarrow> (bytes list \<times> bytes \<Rightarrow> string + unit) \<Rightarrow> (TlsConfig \<Rightarrow> string + unit) \<Rightarrow> Identity
     \<Rightarrow> Error + TlsConfig" where
  "server_config private_key_der single_cert quic_tls i =
     and_then (rustls_parts private_key_der i) (\<lambda>(certs, key).
     and_then (map_error (identity_error ''tls cert'') (single_cert (certs, key))) (\<lambda>_.
     let tls = \<lparr>tc_chain = certs, tc_key = key, tc_alpn = [ALPN_KPS]\<rparr>
     in and_then (map_error (identity_error ''quic tls'') (quic_tls tls)) (\<lambda>_. Inr tls)))"

section \<open>The PeerConnection of a new client\<close>

datatype network_type = Udp4 | Udp6

text \<open>The settings of the ICE agent; interfaces are admitted by their names.\<close>

record IceSettings =
  is_lite :: bool
  is_ufrag :: string
  is_pwd :: string
  is_verify_fingerprint :: bool
  is_network :: network_type
  is_loopback :: bool

definition interface_filter :: "string \<Rightarrow> bool" where
  "interface_filter name \<longleftrightarrow> take 2 name = ''lo''"

definition ice_settings :: "string \<Rightarrow> string \<Rightarrow> SocketAddr \<Rightarrow> IceSettings" where
  "ice_settings ufrag pwd client =
     \<lparr>is_lite = True, is_ufrag = ufrag, is_pwd = pwd, is_verify_fingerprint = False,
      is_network = (if is_ipv6 (sa_ip client) then Udp6 else Udp4), is_loopback = True\<rparr>"

record SpawnAnswers =
  sp_local :: "string + SocketAddr"
  sp_peer_connection :: "string + unit"
  sp_conn :: "Error + unit"
  sp_offer :: "string + unit"
  sp_set_remote :: "string + unit"
  sp_answer :: "string + unit"
  sp_set_local :: "string + unit"

record 'd Spawned =
  sd_settings :: IceSettings
  sd_certificate :: "'d RtcCertificate"
  sd_remote :: SocketAddr
  sd_offer :: string

text \<open>Up to the registration of the state callback, and from there on.\<close>

definition spawn_begin ::
  "'k Crates \<Rightarrow> ('k \<Rightarrow> string + 'd) \<Rightarrow> int \<Rightarrow> SpawnAnswers \<Rightarrow> Identity \<Rightarrow> string \<Rightarrow> SocketAddr \<Rightarrow> Error + 'd Spawned" where
  "spawn_begin C private_key now ans i ufrag client =
     and_then (map_error ErrIo (sp_local ans)) (\<lambda>local.
     let pwd = derive_ice_pwd C (id_digest i) ufrag
     in and_then (rtc_certificate C private_key now i) (\<lambda>cert.
        and_then (map_error (transport_error ''peer connection'') (sp_peer_connection ans)) (\<lambda>_.
        and_then (sp_conn ans) (\<lambda>_.
        Inr \<lparr>sd_settings = ice_settings ufrag pwd client, sd_certificate = cert, sd_remote = client,
             sd_offer = build_client_offer ufrag pwd (sa_port local) client\<rparr>))))"

definition spawn_finish :: "SpawnAnswers \<Rightarrow> 'd Spawned \<Rightarrow> Error + 'd Spawned" where
  "spawn_finish ans p =
     and_then (map_error (transport_error ''offer'') (sp_offer ans)) (\<lambda>_.
     and_then (map_error (transport_error ''set remote'') (sp_set_remote ans)) (\<lambda>_.
     and_then (map_error (transport_error ''answer'') (sp_answer ans)) (\<lambda>_.
     and_then (map_error (transport_error ''set local'') (sp_set_local ans)) (\<lambda>_. Inr p))))"

text \<open>The flag says that the state callback was registered.\<close>

definition spawn_pc ::
  "'k Crates \<Rightarrow> ('k \<Rightarrow> string + 'd) \<Rightarrow> int \<Rightarrow> SpawnAnswers \<Rightarrow> Identity \<Rightarrow> string \<Rightarrow> SocketAddr
     \<Rightarrow> (Error + 'd Spawned) \<times> bool" where
  "spawn_pc C private_key now ans i ufrag client =
     (case spawn_begin C private_key now ans i ufrag client of
        Inl e \<Rightarrow> (Inl e, False)
      | Inr p \<Rightarrow> (spawn_finish ans p, True))"

text \<open>The pump's call of it.\<close>

definition pump_spawn :: "'k Crates \<Rightarrow> ('k \<Rightarrow> string + 'd) \<Rightarrow> int \<Rightarrow> SpawnAnswers \<Rightarrow> Identity \<Rightarrow> Listener \<Rightarrow> Listener" where
  "pump_spawn C private_key now ans i s =
     (case pump s of
        PumpSpawn ufrag n pkt from \<Rightarrow>
          (let (r, registered) = spawn_pc C private_key now ans i ufrag from
           in pump_spawned (case r of Inl e \<Rightarrow> False | Inr p \<Rightarrow> True) (if registered then spawn_register s else s))
      | _ \<Rightarrow> s)"

section \<open>Listening\<close>

record ListenOptions =
  lo_identity :: "Identity option"
  lo_key_file :: "string option"

text \<open>What \<open>load_or_create\<close> is answered, and the calls that \<open>listen\<close> makes after it.\<close>

record 'k KeyAnswers =
  ka_new_key :: "string + 'k"
  ka_sign :: "'k \<Rightarrow> string + bytes"
  ka_read_fails :: "string option"
  ka_write :: write_answer

record ListenAnswers =
  la_parse :: "string \<Rightarrow> string + SocketAddr"
  la_bind :: "SocketAddr \<Rightarrow> string + unit"
  la_local :: "string + SocketAddr"
  la_private_key_der :: "bytes \<Rightarrow> string + bytes"
  la_single_cert :: "bytes list \<times> bytes \<Rightarrow> string + unit"
  la_quic_tls :: "TlsConfig \<Rightarrow> string + unit"
  la_endpoint :: "TlsConfig \<Rightarrow> string + unit"

definition listen_identity ::
  "'k Crates \<Rightarrow> 'k KeyAnswers \<Rightarrow> ListenOptions \<Rightarrow> (string \<rightharpoonup> string) \<Rightarrow> (Error + Identity) \<times> (string \<rightharpoonup> string)" where
  "listen_identity C keys opts fs =
     (case lo_identity opts of
        Some i \<Rightarrow> (Inr i, fs)
      | None \<Rightarrow>
          load_or_create C (ka_new_key keys) (ka_sign keys) (ka_read_fails keys) (ka_write keys)
            (case lo_key_file opts of Some path \<Rightarrow> path | None \<Rightarrow> ''kps.key'') fs)"

definition listen_bind :: "ListenAnswers \<Rightarrow> string \<Rightarrow> Error + SocketAddr" where
  "listen_bind ans addr =
     and_then (map_error (\<lambda>e. ErrAddress (''bad listen addr '' @ str_debug addr @ '': '' @ e)) (la_parse ans (bind_text addr))) (\<lambda>bind.
     and_then (map_error (transport_error (''listen '' @ str_debug addr)) (la_bind ans bind)) (\<lambda>_.
     map_error ErrIo (la_local ans)))"

text \<open>The listener, the identity that its pump holds, and the configuration of the QUIC endpoint.\<close>

definition listen ::
  "'k Crates \<Rightarrow> 'k KeyAnswers \<Rightarrow> ListenAnswers \<Rightarrow> ListenOptions \<Rightarrow> string \<Rightarrow> (string \<rightharpoonup> string)
     \<Rightarrow> (Error + Listener \<times> Identity \<times> TlsConfig) \<times> (string \<rightharpoonup> string)" where
  "listen C keys ans opts addr fs =
     (case listen_identity C keys opts fs of
        (Inl e, fs') \<Rightarrow> (Inl e, fs')
      | (Inr i, fs') \<Rightarrow>
          (and_then (listen_bind ans addr) (\<lambda>local.
           and_then (server_config (la_private_key_der ans) (la_single_cert ans) (la_quic_tls ans) i) (\<lambda>tls.
           and_then (map_error (transport_error ''quic endpoint'') (la_endpoint ans tls)) (\<lambda>_.
           Inr (listen_state local (id_certhash i), i, tls)))), fs'))"

section \<open>The sockets of the two stacks\<close>

text \<open>\<open>PcConn\<close> and \<open>DemuxUdpSocket\<close> send through the one socket, whose answer is an argument.\<close>

definition pc_connect :: "string + unit" where
  "pc_connect = Inl ''connect unsupported''"

definition pc_send :: "bytes \<Rightarrow> string + nat" where
  "pc_send buf = Inl ''send unsupported''"

definition pc_send_to :: "(bytes \<Rightarrow> SocketAddr \<Rightarrow> string + nat) \<Rightarrow> Listener \<Rightarrow> bytes \<Rightarrow> SocketAddr \<Rightarrow> string + nat" where
  "pc_send_to io s buf target = io buf (map_for_socket (ls_local s) target)"

definition quic_try_send :: "(bytes \<Rightarrow> SocketAddr \<Rightarrow> string + nat) \<Rightarrow> Listener \<Rightarrow> bytes \<Rightarrow> SocketAddr \<Rightarrow> string + unit" where
  "quic_try_send io s contents destination =
     (case io contents (map_for_socket (ls_local s) destination) of Inl e \<Rightarrow> Inl e | Inr n \<Rightarrow> Inr ())"

text \<open>What they say of themselves, and the mux of a PeerConnection, which has its one socket for every ufrag.\<close>

definition pc_local_addr :: "Listener \<Rightarrow> string + SocketAddr" where
  "pc_local_addr s = Inr (ls_local s)"

definition pc_remote_addr :: "SocketAddr option" where
  "pc_remote_addr = None"

definition quic_local_addr :: "Listener \<Rightarrow> string + SocketAddr" where
  "quic_local_addr s = Inr (ls_local s)"

definition mux_get_conn :: "nat \<Rightarrow> string \<Rightarrow> string + nat" where
  "mux_get_conn i ufrag = Inr i"

text \<open>So an agent reads from its own inbox only, whatever ufrag it asks for.\<close>

lemma agent_reads_own_inbox:
  assumes "mux_get_conn i ufrag = Inr j" and "inboxes s i = Some b" and "ib_packets b = (pkt, from) # rest"
  shows "pc_recv_len j cap gone s = (Ready (Inr (min (length pkt) cap)), s\<lparr>inboxes := (inboxes s)(i \<mapsto> b\<lparr>ib_packets := rest\<rparr>)\<rparr>)"
  using assms by (simp add: mux_get_conn_def pc_recv_len_def pc_recv_def inbox_recv_def Let_def)

section \<open>What a server presents\<close>

lemma listen_value:
  assumes "listen C keys ans opts addr fs = (Inr (s, i, tls), fs')"
  shows "tc_chain tls = [id_cert_der i]" and "tc_alpn tls = [ALPN_KPS]" and "ls_certhash s = id_certhash i"
    and "\<exists>local. s = listen_state local (id_certhash i) \<and> la_local ans = Inr local"
    and "listen_identity C keys opts fs = (Inr i, fs')"
  using assms
  by (auto simp: listen_def server_config_def rustls_parts_def listen_bind_def listen_state_def Let_def split: prod.splits sum.splits)

lemma listen_identity_wf:
  assumes "listen_identity C keys opts fs = (Inr i, fs')" and "\<And>j. lo_identity opts = Some j \<Longrightarrow> identity_wf C j"
    and "pem_faithful C"
  shows "identity_wf C i"
  using assms loaded_identity [OF assms(3)] by (auto simp: listen_identity_def split: option.splits)

lemma spawn_value:
  assumes "spawn_pc C private_key now ans i ufrag client = (Inr p, registered)"
  shows "rc_chain (sd_certificate p) = [id_cert_der i]" and "sd_remote p = client" and "registered"
    and "sd_settings p = ice_settings ufrag (derive_ice_pwd C (id_digest i) ufrag) client"
    and "\<exists>port. sd_offer p = build_client_offer ufrag (derive_ice_pwd C (id_digest i) ufrag) port client"
  using assms
  by (auto simp: spawn_pc_def spawn_begin_def spawn_finish_def rtc_certificate_def Let_def split: sum.splits)

text \<open>
  A failure after the callback is registered: the pump forgets the client, but the callback
  stays with its connection and PeerConnection, until the connection's HELLO timeout ends it.
\<close>

lemma failed_spawn_stays:
  assumes "pump s = PumpSpawn ufrag n pkt from"
    and "spawn_begin C private_key now ans i ufrag from = Inr p" and "spawn_finish ans p = Inl e"
  shows "pump (pump_spawn C private_key now ans i s) = PumpIdle"
    and "by_ufrag (pump_spawn C private_key now ans i s) = by_ufrag s"
    and "closing_pcs (pump_spawn C private_key now ans i s) = closing_pcs s"
    and "\<exists>c. pcs (pump_spawn C private_key now ans i s) n = Some c \<and> ps_ufrag c = ufrag \<and> ps_conn c"
  using assms by (simp_all add: pump_spawn_def spawn_pc_def pump_spawned_def spawn_register_def)

text \<open>A bad address is noticed only after the key file was written.\<close>

lemma bad_address_leaves_key:
  assumes "listen_identity C keys opts fs = (Inr i, fs')" and "la_parse ans (bind_text addr) = Inl e"
  shows "listen C keys ans opts addr fs = (Inl (ErrAddress (''bad listen addr '' @ str_debug addr @ '': '' @ e)), fs')"
  using assms by (simp add: listen_def listen_bind_def)

end
