(* ===== verification/KpsLink.thy ===== *)
theory KpsLink
  imports KpsStreamView
begin

text \<open>
  Two ends of one stream joined by a reliable, ordered channel: what one writer gave the
  transport is delivered to the other end frame by frame. The two engines are those of the
  two connections, so everything else they do goes on between the steps.
\<close>

section \<open>What every step of an end keeps\<close>

lemma step_wire_out: "\<exists>fs. wire_out (stream_step s e) = wire_out s @ fs"
proof (cases e)
  case SvWriterTransmit
  then show ?thesis by (simp add: writer_transmit_def split: writer.split bool.split)
qed (simp_all add: stream_op_defs poll_write_def write_credit_def write_queue_def give_back_grant_def
      split: poll.split sum.split list.split writer.split bool.split prod.split option.split ParsedFrame.split)

lemma step_arrived:
  "arrived (stream_step s e) = arrived s @ (case e of SvMessage data \<Rightarrow> [data] | _ \<Rightarrow> [])"
proof (cases e)
  case (SvMessage data)
  then show ?thesis by (simp add: on_message_def)
qed (simp_all add: stream_op_defs poll_write_def write_credit_def write_queue_def give_back_grant_def
      split: poll.split sum.split list.split writer.split bool.split prod.split option.split ParsedFrame.split)

lemma peer_init_step:
  "peer_init_stream_data (flow_step f op) =
     (case op of FlPeerHello l \<Rightarrow> max_stream_data l | _ \<Rightarrow> peer_init_stream_data f)"
  by (cases op) (simp_all add: flow_fail_def on_peer_hello_def on_peer_max_data_def on_peer_max_streams_def
      new_stream_def reserve_stream_slot_def commit_stream_slot_def release_stream_slot_def
      peer_stream_opened_def Let_def)

lemma step_limits:
  "limits_of (stream_step s e) =
     (fst (limits_of s), case e of SvFlow (FlPeerHello l) \<Rightarrow> max_stream_data l | _ \<Rightarrow> snd (limits_of s))"
proof (cases "\<exists>op. e = SvFlow op")
  case True
  then obtain op where "e = SvFlow op" by blast
  then show ?thesis by (simp add: limits_of_def local_limits_step peer_init_step split: flow_op.split)
next
  case False
  then have "limits_of (stream_step s e) = limits_of s" by (intro limits.V_step) blast
  with False show ?thesis by (cases e) simp_all
qed

section \<open>The link\<close>

record Link =
  end_a :: WebrtcStream
  end_b :: WebrtcStream

datatype link_ev = LkA stream_ev | LkB stream_ev | LkToA | LkToB

definition next_frame :: "WebrtcStream \<Rightarrow> WebrtcStream \<Rightarrow> bytes" where
  "next_frame s t = wire_out s ! length (arrived t)"

fun link_step :: "Link \<Rightarrow> link_ev \<Rightarrow> Link" where
  "link_step l (LkA e) = l\<lparr>end_a := stream_step (end_a l) e\<rparr>"
| "link_step l (LkB e) = l\<lparr>end_b := stream_step (end_b l) e\<rparr>"
| "link_step l LkToA = l\<lparr>end_a := stream_step (end_a l) (SvMessage (next_frame (end_b l) (end_a l)))\<rparr>"
| "link_step l LkToB = l\<lparr>end_b := stream_step (end_b l) (SvMessage (next_frame (end_a l) (end_b l)))\<rparr>"

text \<open>
  An end takes any step of its own but a message, which comes from the channel; the HELLO a
  connection hears is the one the other connection announced.
\<close>

definition own_event :: "WebrtcStream \<Rightarrow> stream_ev \<Rightarrow> bool" where
  "own_event other e \<longleftrightarrow>
     (case e of
        SvMessage data \<Rightarrow> False
      | SvFlow (FlPeerHello h) \<Rightarrow> h = fst (limits_of other)
      | _ \<Rightarrow> True)"

definition can_deliver :: "WebrtcStream \<Rightarrow> WebrtcStream \<Rightarrow> bool" where
  "can_deliver s t \<longleftrightarrow> length (arrived t) < length (wire_out s) \<and> \<not> dc_closed t"

fun link_guard :: "Link \<Rightarrow> link_ev \<Rightarrow> bool" where
  "link_guard l (LkA e) \<longleftrightarrow> stream_guard (end_a l) e \<and> own_event (end_b l) e"
| "link_guard l (LkB e) \<longleftrightarrow> stream_guard (end_b l) e \<and> own_event (end_a l) e"
| "link_guard l LkToA \<longleftrightarrow> can_deliver (end_b l) (end_a l)"
| "link_guard l LkToB \<longleftrightarrow> can_deliver (end_a l) (end_b l)"

text \<open>One direction: what arrived is a prefix of what was sent, and the initial credit is honest.\<close>

definition chan_ok :: "WebrtcStream \<Rightarrow> WebrtcStream \<Rightarrow> bool" where
  "chan_ok s t \<longleftrightarrow>
     (\<exists>fs. wire_out s = arrived t @ fs)
     \<and> snd (limits_of s) \<le> max_stream_data (fst (limits_of t))"

definition link_inv :: "Link \<Rightarrow> bool" where
  "link_inv l \<longleftrightarrow> end_inv (end_a l) \<and> end_inv (end_b l)
     \<and> chan_ok (end_a l) (end_b l) \<and> chan_ok (end_b l) (end_a l)"

lemma chan_sender:
  assumes "chan_ok s t" and "own_event t e"
  shows "chan_ok (stream_step s e) t"
proof -
  obtain fs where "wire_out (stream_step s e) = wire_out s @ fs" using step_wire_out by blast
  moreover have "snd (limits_of (stream_step s e)) \<le> max_stream_data (fst (limits_of t))"
    using assms by (auto simp: step_limits chan_ok_def own_event_def
        split: stream_ev.splits flow_op.splits)
  ultimately show ?thesis using assms(1) by (auto simp: chan_ok_def)
qed

lemma chan_receiver:
  assumes "chan_ok s t" and "\<And>data. e \<noteq> SvMessage data"
  shows "chan_ok s (stream_step t e)"
  using assms by (simp add: chan_ok_def step_arrived step_limits split: stream_ev.split)

lemma chan_deliver:
  assumes "chan_ok s t" and "can_deliver s t"
  shows "chan_ok s (stream_step t (SvMessage (next_frame s t)))"
proof -
  obtain fs where fs: "wire_out s = arrived t @ fs" using assms(1) by (auto simp: chan_ok_def)
  with assms(2) obtain g gs where g: "fs = g # gs" by (cases fs) (auto simp: can_deliver_def)
  with fs have "next_frame s t = g" by (simp add: next_frame_def)
  with fs g assms(1) show ?thesis
    by (simp add: chan_ok_def step_arrived step_limits del: stream_step.simps)
qed

lemma message_sender:
  "chan_ok s t \<Longrightarrow> chan_ok (stream_step s (SvMessage data)) t"
  using step_wire_out [of s "SvMessage data"]
  by (auto simp: chan_ok_def step_limits simp del: stream_step.simps)

lemma own_event_no_message: "own_event t e \<Longrightarrow> e \<noteq> SvMessage data"
  by (auto simp: own_event_def)

lemma link_step_inv:
  assumes "link_inv l" and "link_guard l e"
  shows "link_inv (link_step l e)"
proof (cases e)
  case (LkA ev)
  with assms have "stream_guard (end_a l) ev" "own_event (end_b l) ev" by simp_all
  with LkA assms(1) show ?thesis
    by (simp add: link_inv_def stream_end.step_inv chan_sender chan_receiver own_event_no_message)
next
  case (LkB ev)
  with assms have "stream_guard (end_b l) ev" "own_event (end_a l) ev" by simp_all
  with LkB assms(1) show ?thesis
    by (simp add: link_inv_def stream_end.step_inv chan_sender chan_receiver own_event_no_message)
next
  case LkToA
  with assms have d: "can_deliver (end_b l) (end_a l)" by simp
  then have "stream_guard (end_a l) (SvMessage (next_frame (end_b l) (end_a l)))" by (simp add: can_deliver_def)
  with LkToA assms(1) d show ?thesis
    by (simp add: link_inv_def stream_end.step_inv chan_deliver message_sender
        del: stream_step.simps stream_guard.simps)
next
  case LkToB
  with assms have d: "can_deliver (end_a l) (end_b l)" by simp
  then have "stream_guard (end_b l) (SvMessage (next_frame (end_a l) (end_b l)))" by (simp add: can_deliver_def)
  with LkToB assms(1) d show ?thesis
    by (simp add: link_inv_def stream_end.step_inv chan_deliver message_sender
        del: stream_step.simps stream_guard.simps)
qed

interpretation link: machine link_step link_guard link_inv
  by unfold_locales (rule link_step_inv)

section \<open>What one end may rely on\<close>

lemma wire_ok_prefix: "wire_ok seen (xs @ ys) \<Longrightarrow> wire_ok seen xs"
  by (induction seen xs rule: wire_ok.induct) (auto split: if_splits)

lemma wire_ok_ended: "wire_ok True ys \<Longrightarrow> data_of ys = []"
proof (induction ys)
  case (Cons fr ys)
  then show ?case by (cases "is_kind FtData fr"; cases "is_terminal fr") (simp_all add: data_payload_def)
qed simp

lemma is_kind_disjoint: "is_kind FtData fr \<Longrightarrow> \<not> is_terminal fr"
  by (cases fr) (simp_all add: is_terminal_def is_kind_def)

lemma wire_ok_after:
  "wire_ok seen (xs @ ys) \<Longrightarrow> seen \<or> list_ex is_terminal xs \<Longrightarrow> data_of ys = []"
proof (induction xs arbitrary: seen)
  case Nil
  then show ?case by (simp add: wire_ok_ended)
next
  case (Cons fr xs)
  then show ?case
    by (cases "is_kind FtData fr"; cases "is_terminal fr") (auto dest: is_kind_disjoint)
qed

end
