(* ===== verification/KpsLinkProps.thy ===== *)
theory KpsLinkProps
  imports KpsLink KpsStreamProps
begin

text \<open>
  The properties of two connected ends: neither ever provokes the protocol errors of the
  other, bytes arrive in order and completely, and credit comes back to the sender.
\<close>

section \<open>Reachable links\<close>

text \<open>Two engines of one connection: neither was told more initial stream credit than the other gives.\<close>

definition paired :: "ConnFlow \<Rightarrow> ConnFlow \<Rightarrow> bool" where
  "paired f g \<longleftrightarrow>
     flow_inv f \<and> next_id f < 18446744073709551615
     \<and> peer_init_stream_data f \<le> max_stream_data (local_limits g)"

definition link_new :: "ConnFlow \<Rightarrow> ConnFlow \<Rightarrow> Link" where
  "link_new f g = \<lparr>end_a = Stream_new False False False f, end_b = Stream_new True False True g\<rparr>"

definition link_reachable :: "Link \<Rightarrow> bool" where
  "link_reachable l \<longleftrightarrow>
     (\<exists>f g es. paired f g \<and> paired g f \<and> peer_retired_streams g < peer_opened_streams g
        \<and> legal link_step link_guard (link_new f g) es \<and> l = foldl link_step (link_new f g) es)"

lemma link_new_inv:
  assumes "paired f g" and "paired g f" and "peer_retired_streams g < peer_opened_streams g"
  shows "link_inv (link_new f g)"
  using assms
  by (simp add: link_inv_def link_new_def paired_def end_new_inv chan_ok_def limits_of_def)
     (simp add: Stream_new_def new_stream_def Let_def)

lemma link_reachable_inv: "link_reachable l \<Longrightarrow> link_inv l"
  unfolding link_reachable_def by (blast intro: link.run_inv link_new_inv)

lemma link_reachable_run:
  assumes "link_reachable l" and "legal link_step link_guard l es"
  shows "link_reachable (foldl link_step l es)"
proof -
  from assms(1) obtain f g fs where
    "paired f g" "paired g f" "peer_retired_streams g < peer_opened_streams g"
    "legal link_step link_guard (link_new f g) fs" "l = foldl link_step (link_new f g) fs"
    unfolding link_reachable_def by blast
  moreover from this assms(2) have "legal link_step link_guard (link_new f g) (fs @ es)"
    by (simp add: legal_append)
  ultimately show ?thesis unfolding link_reachable_def by (metis foldl_append)
qed

lemma end_invD:
  assumes "end_inv s"
  shows "flow_inv (sh_flow s)" "state_ok s" "flow_ok s" "out_ok s" "in_ok s" "sender_ok s" "receiver_ok s"
  using assms by (simp_all add: end_inv_def stream_inv_def flow_ok_def)

section \<open>One direction of the link\<close>

text \<open>The sender of a frame never exceeds what the receiver of it enforces.\<close>

lemma within_stream_credit:
  assumes "end_inv s" and "end_inv t" and "chan_ok s t" and "chan_ok t s"
    and "streams (sh_flow t) (sh_id t) = Some r"
  shows "wired s \<le> unat (local_max r)"
proof -
  obtain fs where fs: "wire_out t = arrived s @ fs" using assms(4) by (auto simp: chan_ok_def)
  have rec: "rcv_rec (sh_flow t) (sh_id t) = Some (unat (received r), unat (local_max r))"
    using assms(5) by (simp add: rcv_rec_def)
  have ro: "unat (max_stream_data (local_limits (sh_flow t))) \<le> unat (local_max r)"
    "max_advert (wire_out t) \<le> unat (local_max r)"
    using end_invD(7) [OF assms(2)] rec by (simp_all add: receiver_ok_def adverts_def)
  have "wired s \<le> credit_seen s" using end_invD(6) [OF assms(1)] by (simp add: sender_ok_def)
  also have "max_advert (arrived s) \<le> max_advert (wire_out t)" using fs by simp
  then have "credit_seen s \<le> unat (local_max r)"
    using assms(3) ro by (auto simp: credit_seen_def chan_ok_def limits_of_def word_le_nat_alt)
  finally show ?thesis .
qed

lemma delivered_in_order:
  assumes "end_inv s" and "end_inv t" and "chan_ok s t" and "fatal_calls t = []"
  shows "\<exists>rest. accepted s = delivered t @ rest"
proof -
  obtain fs where "wire_out s = arrived t @ fs" using assms(3) by (auto simp: chan_ok_def)
  moreover obtain d where "data_of (arrived t) = delivered t @ concat (inbuf t) @ d"
    using in_okD [OF end_invD(5) [OF assms(2)] assms(4)] by blast
  moreover obtain rest where "accepted s = data_of (wire_out s) @ rest"
    using out_okD(7) [OF end_invD(4) [OF assms(1)]] by (auto simp: payload_ok_def)
  ultimately show ?thesis by simp
qed

lemma all_delivered_at_fin:
  assumes "end_inv s" and "end_inv t" and "chan_ok s t" and "fatal_calls t = []"
    and "peer_fin t" and "\<not> read_cancel t" and "peer_reset t = None"
  shows "accepted s = delivered t @ concat (inbuf t)"
proof -
  obtain fs where fs: "wire_out s = arrived t @ fs" using assms(3) by (auto simp: chan_ok_def)
  obtain d where d: "data_of (arrived t) = delivered t @ concat (inbuf t) @ d" "d = []"
    "list_ex (is_kind FtFin) (arrived t)"
    using in_okD [OF end_invD(5) [OF assms(2)] assms(4)] assms(5-7) by metis
  have w: "wire_ok False (wire_out s)" and p: "payload_ok (wire_out s) (held_data s) (data_q s) (accepted s)
                   (\<not> drop_data s \<and> writer_at s \<noteq> WrDone)"
    using out_okD(5,7) [OF end_invD(4) [OF assms(1)]] by blast+
  have "list_ex is_terminal (arrived t)" using d(3) by (simp add: terminal_arrived)
  with w fs have "data_of fs = []" by (auto intro: wire_ok_after)
  moreover have "accepted s = data_of (wire_out s)" using p d(3) fs by (simp add: payload_ok_def)
  ultimately show ?thesis using fs d by simp
qed

text \<open>A frame delivered in order is taken without complaint, unless the connection's credit is exceeded.\<close>

lemma next_frame_accepted:
  assumes "end_inv s" and "end_inv t" and "chan_ok s t" and "chan_ok t s" and "can_deliver s t"
    and "fatal_calls t = []"
    and "unat (conn_received (sh_flow t)) + length (data_payload (next_frame s t))
           \<le> unat (local_max_data (sh_flow t))"
  shows "fatal_calls (on_message (next_frame s t) t) = []"
proof -
  obtain gs where gs: "wire_out s = arrived t @ next_frame s t # gs"
  proof -
    obtain fs where fs: "wire_out s = arrived t @ fs" using assms(3) by (auto simp: chan_ok_def)
    with assms(5) obtain g gs where "fs = g # gs" by (cases fs) (auto simp: can_deliver_def)
    with fs that show thesis by (simp add: next_frame_def)
  qed
  let ?fr = "next_frame s t"
  have "list_all (\<lambda>fr. \<exists>f. parse_frame fr = Inr f) (wire_out s)"
    using end_invD(6) [OF assms(1)] by (simp add: sender_ok_def)
  with gs obtain f where f: "parse_frame ?fr = Inr f" by auto
  have "wire_ok False (arrived t @ ?fr # gs)" using out_okD(5) [OF end_invD(4) [OF assms(1)]] gs by simp
  then have "wire_ok False (arrived t @ [?fr])" using wire_ok_prefix [of False "arrived t @ [?fr]" gs] by simp
  then have once: "is_kind FtData ?fr \<or> is_terminal ?fr \<Longrightarrow> \<not> list_ex is_terminal (arrived t)"
    by (simp add: wire_ok_append)
  have peer: "peer_terminal t \<longleftrightarrow> list_ex is_terminal (arrived t)"
    using in_okD [OF end_invD(5) [OF assms(2)] assms(6)] by (auto simp: peer_terminal_def terminal_arrived)
  note k = parsed_kind [OF f]
  show ?thesis
  proof (cases f)
    case (PfData p)
    have "\<not> peer_terminal t" using once peer k(1) PfData by blast
    moreover have "fst (on_data_received (sh_id t) (of_nat (length p)) (sh_flow t)) = Inr ()"
    proof (cases "streams (sh_flow t) (sh_id t)")
      case None
      then show ?thesis by (simp add: on_data_received_def)
    next
      case (Some r)
      have ri: "recv_inv (sh_flow t)" using end_invD(1) [OF assms(2)] by (simp add: flow_inv_def)
      have pay: "data_payload ?fr = p" using k(4) PfData by simp
      have n: "unat (of_nat (length p) :: u64) = length p" "length p \<le> MAX_FRAME_PAYLOAD"
        using parsed_frame_ok [OF f] PfData by (auto intro!: unat_of_nat_small simp: frame_consts)
      have "unat (received r) = length (data_of (arrived t))"
        using end_invD(7) [OF assms(2)] assms(6) Some by (simp add: receiver_ok_def rcv_rec_def)
      moreover have "length (data_of (arrived t)) + length p \<le> wired s"
        using gs pay by (simp add: wired_def)
      moreover have "wired s \<le> unat (local_max r)"
        using within_stream_credit [OF assms(1-4) Some] .
      ultimately show ?thesis
        using on_data_received_cases(1) [OF ri Some] n assms(7) pay by simp
    qed
    ultimately show ?thesis
      using assms(6) f PfData
      by (cases "on_data_received (sh_id t) (of_nat (length p)) (sh_flow t)")
         (simp add: on_message_def on_frame_def on_data_frame_def peer_terminal_def Let_def)
  next
    case PfFin
    then have "\<not> peer_terminal t" using once peer k(2) by (simp add: is_terminal_def)
    with assms(6) f PfFin show ?thesis
      by (simp add: on_message_def on_frame_def on_fin_frame_def peer_terminal_def)
  next
    case (PfReset c)
    then have "\<not> peer_terminal t" using once peer k(3) by (simp add: is_terminal_def)
    with assms(6) f PfReset show ?thesis
      by (simp add: on_message_def on_frame_def on_reset_frame_def peer_terminal_def Let_def)
  qed (use assms(6) f in \<open>simp_all add: on_message_def on_frame_def on_stop_frame_def Let_def\<close>)
qed

text \<open>The credit a sender has seen when everything is delivered is what the receiver enforces.\<close>

lemma credit_in_step:
  assumes "end_inv s" and "end_inv t" and "chan_ok s t"
    and snd: "streams (sh_flow s) (sh_id s) = Some u" and rcv: "streams (sh_flow t) (sh_id t) = Some r"
    and told: "peer_init_stream_data (sh_flow s) = max_stream_data (local_limits (sh_flow t))"
    and all: "arrived s = wire_out t" "pending_life t = []" "writer_at t \<noteq> WrDone"
  shows "unat (local_max r) \<le> unat (eff_max (sh_flow s) u)"
proof -
  let ?init = "unat (max_stream_data (local_limits (sh_flow t)))"
  have "rcv_rec (sh_flow t) (sh_id t) = Some (unat (received r), unat (local_max r))"
    using rcv by (simp add: rcv_rec_def)
  then have "unat (local_max r) \<le> max ?init (adverts t)"
    using end_invD(7) [OF assms(2)] all(3) by (simp add: receiver_ok_def)
  moreover have "adverts t = max_advert (arrived s)" using all(1,2) by (simp add: adverts_def)
  moreover have "unat (peer_max_explicit u) = max_advert (arrived s)"
    using end_invD(6) [OF assms(1)] snd by (simp add: sender_ok_def snd_rec_def)
  ultimately show ?thesis
    using told by (simp add: eff_max_def u64_simps max.commute)
qed

section \<open>A run\<close>

text \<open>
  Two bytes are written and sent at one end, delivered and read at the other, and the
  writer finishes.
\<close>

definition answering_engine :: ConnFlow where
  "answering_engine = snd (peer_stream_opened hello_engine)"

definition chat_sent :: Link where
  "chat_sent = foldl link_step (link_new hello_engine answering_engine)
     [LkA SvOpen, LkA SvWriterStart, LkA (SvWrite 7 [1, 2] (Ready (Inr ())) True), LkA SvWriterSelect,
      LkA (SvWriterBuffer 0), LkA SvWriterTransmit, LkA (SvWriterSent True), LkB SvWriterStart]"

definition chat_read :: Link where
  "chat_read = foldl link_step chat_sent [LkToB, LkB (SvRead 3 5)]"

definition chat_done :: Link where
  "chat_done = foldl link_step chat_read
     [LkA (SvShutdown (Ready (Inr ())) True), LkA SvWriterSelect, LkA (SvWriterBuffer 0),
      LkA SvWriterTransmit, LkA (SvWriterSent True), LkToB]"

lemmas link_eval = link_new_def answering_engine_def own_event_def can_deliver_def next_frame_def
  limits_of_def fresh_eval

lemma hello_paired: "paired hello_engine answering_engine" "paired answering_engine hello_engine"
proof -
  have "flow_inv answering_engine"
    using flow_step_inv [OF hello_engine_inv, of FlPeerOpened] by (simp add: answering_engine_def)
  then show "paired hello_engine answering_engine" "paired answering_engine hello_engine"
    using hello_engine_inv by (simp_all add: paired_def link_eval)
qed

lemma chat_sent_reachable: "link_reachable chat_sent"
proof -
  have "peer_retired_streams answering_engine < peer_opened_streams answering_engine"
    by (simp add: link_eval)
  moreover have "legal link_step link_guard (link_new hello_engine answering_engine)
     [LkA SvOpen, LkA SvWriterStart, LkA (SvWrite 7 [1, 2] (Ready (Inr ())) True), LkA SvWriterSelect,
      LkA (SvWriterBuffer 0), LkA SvWriterTransmit, LkA (SvWriterSent True), LkB SvWriterStart]"
    by (simp add: link_eval)
  ultimately show ?thesis
    unfolding link_reachable_def chat_sent_def using hello_paired by blast
qed

lemma chat_read_reachable: "link_reachable chat_read"
  unfolding chat_read_def
  by (rule link_reachable_run [OF chat_sent_reachable]) (simp add: chat_sent_def link_eval)

lemma chat_done_reachable: "link_reachable chat_done"
  unfolding chat_done_def
  by (rule link_reachable_run [OF chat_read_reachable]) (simp add: chat_sent_def chat_read_def link_eval)

lemmas chat_eval = chat_done_def chat_read_def chat_sent_def link_eval

section \<open>The properties\<close>

text \<open>
  Two connected ends never provoke each other's protocol errors: whatever the two
  applications do and however the steps interleave, delivering the next frame raises no
  fatal error at the receiving end, as long as the connection's credit, which it shares with
  other streams, covers the payload. So no valid sender is ever reported for a frame that
  does not parse, data beyond MAX_STREAM_DATA, data after the end, or a second end.
\<close>

theorem link_no_violation:
  assumes "link_reachable l" and "link_guard l LkToB" and "fatal_calls (end_b l) = []"
    and "unat (conn_received (sh_flow (end_b l))) + length (data_payload (next_frame (end_a l) (end_b l)))
           \<le> unat (local_max_data (sh_flow (end_b l)))"
  shows "fatal_calls (end_b (link_step l LkToB)) = []"
proof -
  have "link_inv l" using assms(1) by (rule link_reachable_inv)
  with assms(2-4) show ?thesis by (simp add: link_inv_def next_frame_accepted)
qed

theorem link_no_violation_witness:
  "fatal_calls (end_b (link_step chat_sent LkToB)) = []"
  by (rule link_no_violation [OF chat_sent_reachable]) (simp_all add: chat_eval data_payload_def)

text \<open>
  Bytes arrive in order and without loss or duplication: what one application has read
  is a prefix of what the other application was told was accepted, unless the peer was
  reported for breaking the protocol.
\<close>

theorem link_bytes_in_order:
  assumes "link_reachable l" and "fatal_calls (end_b l) = []"
  shows "\<exists>rest. accepted (end_a l) = delivered (end_b l) @ rest"
proof -
  have "link_inv l" using assms(1) by (rule link_reachable_inv)
  with assms(2) show ?thesis by (simp add: link_inv_def delivered_in_order)
qed

theorem link_bytes_in_order_witness:
  "\<exists>rest. [1, 2] = delivered (end_b chat_read) @ rest"
proof -
  have "accepted (end_a chat_read) = [1, 2]" and "fatal_calls (end_b chat_read) = []"
    by (simp_all add: chat_eval)
  with link_bytes_in_order [OF chat_read_reachable] show ?thesis by simp
qed

text \<open>
  End of stream means all of it: when a read into a non-empty buffer reports the end,
  the application has read exactly the bytes that the other side's writes accepted.
\<close>

theorem link_eof_complete:
  assumes "link_reachable l" and "fatal_calls (end_b l) = []"
    and "fst (poll_read w (Suc cap) (end_b l)) = Ready (Inr [])"
  shows "accepted (end_a l) = delivered (end_b l)"
proof -
  have inv: "link_inv l" using assms(1) by (rule link_reachable_inv)
  then have "[] \<notin> set (inbuf (end_b l))"
    using end_invD(2) [of "end_b l"] by (simp add: link_inv_def state_ok_def flags_ok_def)
  then have "inbuf (end_b l) = [] \<and> \<not> read_cancel (end_b l) \<and> peer_reset (end_b l) = None \<and> peer_fin (end_b l)"
    using assms(3) by (auto simp: poll_read_def Let_def min_def split: list.splits option.splits if_splits)
  with inv all_delivered_at_fin [of "end_a l" "end_b l"] assms(2) show ?thesis by (simp add: link_inv_def)
qed

theorem link_eof_complete_witness:
  "accepted (end_a chat_done) = delivered (end_b chat_done)"
  by (rule link_eof_complete [OF chat_done_reachable, where w = 3 and cap = 8]) (simp_all add: chat_eval)

text \<open>
  C11: Credit comes back: once both directions are delivered, the reader has drained its
  buffer without cancelling and its writer task has sent what it had to, the sender's stream
  credit exceeds what it has sent by at least half the receiver's window (or has reached the
  largest offset). So a stream whose reader keeps reading is never stuck for stream credit.
\<close>

theorem link_credit_returns:
  assumes "link_reachable l" and "fatal_calls (end_b l) = []"
    and "\<not> retired_fired (end_a l)" and "\<not> retired_fired (end_b l)"
    and "peer_init_stream_data (sh_flow (end_a l)) = max_stream_data (local_limits (sh_flow (end_b l)))"
    and "arrived (end_b l) = wire_out (end_a l)" and "arrived (end_a l) = wire_out (end_b l)"
    and "pending_life (end_b l) = []" and "writer_at (end_b l) \<noteq> WrDone"
    and "inbuf (end_b l) = []" and "\<not> read_cancel (end_b l)"
  shows "\<exists>u. streams (sh_flow (end_a l)) (sh_id (end_a l)) = Some u
     \<and> min 4611686018427387903
         (wired (end_a l) + (unat (peer_init_stream_data (sh_flow (end_a l))) - unat (peer_init_stream_data (sh_flow (end_a l))) div 2))
       \<le> unat (eff_max (sh_flow (end_a l)) u)"
proof -
  let ?s = "end_a l" and ?t = "end_b l"
  let ?w = "unat (max_stream_data (local_limits (sh_flow ?t)))"
  have inv: "end_inv ?s" "end_inv ?t" "chan_ok ?s ?t"
    using link_reachable_inv [OF assms(1)] by (simp_all add: link_inv_def)
  obtain u where u: "streams (sh_flow ?s) (sh_id ?s) = Some u"
    using end_invD(3) [OF inv(1)] assms(3) by (auto simp: flow_ok_def own_def)
  obtain r where r: "streams (sh_flow ?t) (sh_id ?t) = Some r"
    and un: "unread r = 0" and nc: "\<not> cancelled r"
    using end_invD(3) [OF inv(2)] assms(4,10,11) by (auto simp: flow_ok_def own_def inbuf_bytes_def)
  have ri: "recv_inv (sh_flow ?t)" using end_invD(1) [OF inv(2)] by (simp add: flow_inv_def)
  note b = recv_stream_bounds [OF recv_inv_stream [OF ri r]] recv_inv_bounds [OF ri]
  have "unat (received r) = wired ?s"
    using end_invD(7) [OF inv(2)] assms(2,6) r by (simp add: receiver_ok_def rcv_rec_def wired_def)
  then have con: "unat (consumed r) = wired ?s" using un b(2) by (simp add: unread_def)
  have "unat (consumed r) - unat (advertised_at r) < max 1 (?w div 2)"
    and "local_max r = sat (advertised_at r + max_stream_data (local_limits (sh_flow ?t)))"
    using recv_inv_stream [OF ri r] nc by (simp_all add: recv_stream_ok_def)
  moreover have "unat (advertised_at r + max_stream_data (local_limits (sh_flow ?t))) = unat (advertised_at r) + ?w"
    using b by (intro unat_window_sum) simp_all
  ultimately have "min 4611686018427387903 (wired ?s + (?w - ?w div 2)) \<le> unat (local_max r)"
    using con b(2,3) by (auto simp: sat_def u64_simps)
  also have "\<dots> \<le> unat (eff_max (sh_flow ?s) u)"
    using credit_in_step [OF inv u r assms(5,7-9)] .
  finally show ?thesis using u assms(5) by simp
qed

theorem link_credit_returns_witness:
  "\<exists>u. streams (sh_flow (end_a chat_read)) (sh_id (end_a chat_read)) = Some u
     \<and> 524290 \<le> unat (eff_max (sh_flow (end_a chat_read)) u)"
proof -
  have "wired (end_a chat_read) = 2"
    and "unat (peer_init_stream_data (sh_flow (end_a chat_read))) = 1048576"
    by (simp_all add: wired_def data_payload_def chat_eval)
  with link_credit_returns [OF chat_read_reachable] show ?thesis
    by (simp add: chat_eval pending_life_def held_life_def)
qed

end
