(* ===== verification/KpsStreamTally.thy ===== *)
theory KpsStreamTally
  imports KpsLinkProps
begin

text \<open>
  What one step of a stream adds to the connection's counters: the bytes it puts on the wire
  are the bytes it commits at the engine (up to the frame whose send has not returned), and
  the engine counts no more received bytes than arrived. A stream reports a fatal error of
  its own only when its channel closes.
\<close>

section \<open>The frame in the transport's hands\<close>

definition sending_ok :: "WebrtcStream \<Rightarrow> bool" where
  "sending_ok s \<longleftrightarrow>
     (\<forall>fr r. writer_at s = WrData fr r True \<longrightarrow>
        entry_ok (fr, r) \<and> (\<exists>W. wire_out s = W @ [fr]))"

lemma sending_keep:
  assumes "sending_ok s" and "wire_out t = wire_out s" and "writer_at t = writer_at s \<or> (\<forall>fr r. writer_at t \<noteq> WrData fr r True)"
  shows "sending_ok t"
  using assms by (auto simp: sending_ok_def)

lemma sending_step:
  assumes "sending_ok s" and "out_ok s" and "stream_guard s e"
  shows "sending_ok (stream_step s e)"
proof (cases e)
  case SvWriterTransmit
  with assms(3) consider (data) fr r where "writer_at s = WrData fr r False" | (life) m where "writer_at s = WrLife m False"
    by auto
  then show ?thesis
  proof cases
    case data
    then have "entry_ok (fr, r)" using out_okD(3) [OF assms(2)] view_writer(4) [OF data] by simp
    with data SvWriterTransmit show ?thesis by (simp add: writer_transmit_def sending_ok_def)
  qed (use SvWriterTransmit in \<open>simp add: writer_transmit_def sending_ok_def\<close>)
next
  case SvWriterStart
  with assms(3) show ?thesis
    by (intro sending_keep [OF assms(1)]) (simp_all add: writer_start_def writer_exit_def split: poll.split sum.split)
next
  case SvWriterSelect
  with assms(3) show ?thesis
    by (intro sending_keep [OF assms(1)])
       (simp_all add: writer_select_def writer_exit_def release_held_def Let_def split: list.split prod.split)
next
  case (SvWriterBuffer n)
  with assms(3) show ?thesis
    by (intro sending_keep [OF assms(1)]) (auto simp: writer_buffer_def writer_exit_def release_held_def split: if_splits)
next
  case (SvWriterSent ok)
  with assms(3) show ?thesis
    by (intro sending_keep [OF assms(1)]) (auto simp: writer_sent_def writer_exit_def release_held_def Let_def split: if_splits)
qed (rule sending_keep [OF assms(1)];
     simp add: stream_op_defs poll_write_def write_credit_def write_queue_def give_back_grant_def
      split: poll.split sum.split list.split bool.split prod.split option.split ParsedFrame.split)+

text \<open>While a frame with credit is there, the stream has not retired.\<close>

lemma sending_live:
  assumes "sending_ok s" and "end_inv s" and "writer_at s = WrData fr r True" and "0 < r"
  shows "\<not> retired_fired s" and "length (data_payload fr) = unat r"
proof -
  obtain W where W: "wire_out s = W @ [fr]" and e: "entry_ok (fr, r)" using assms(1,3) by (auto simp: sending_ok_def)
  then have d: "is_kind FtData fr" using assms(4) by (auto elim!: entry_cases)
  show "length (data_payload fr) = unat r"
    using e assms(4) by (cases rule: entry_cases) (simp_all add: unat_of_nat_small frame_consts)
  have "wire_ok False (W @ [fr])" using out_okD(5) [OF end_invD(4) [OF assms(2)]] W by simp
  then have "\<not> list_ex is_terminal W" using d by (simp add: wire_ok_append)
  then have "\<not> list_ex is_terminal (wire_out s)" using W is_kind_disjoint [OF d] by simp
  then have "\<not> local_terminal_sent s" using end_invD(6) [OF assms(2)] by (auto simp: sender_ok_def)
  then show "\<not> retired_fired s" using end_invD(2) [OF assms(2)] by (auto simp: state_ok_def retire_due_def)
qed

section \<open>Bytes sent\<close>

lemma conn_sent_quiet [simp]:
  "conn_sent (fail_send i f) = conn_sent f"
  "conn_sent (mark_cancelled i f) = conn_sent f"
  "conn_sent (release i n f) = conn_sent f"
  "conn_sent (on_peer_max_stream_data i v f) = conn_sent f"
  "conn_sent (snd (on_consumed i n f)) = conn_sent f"
  "conn_sent (snd (on_data_received i n f)) = conn_sent f"
  "conn_sent (snd (poll_reserve w i n f)) = conn_sent f"
  "conn_sent (drop_stream i f) = conn_sent f"
  "conn_sent (peer_stream_retired f) = conn_sent f"
  by (auto simp: flow_op_defs on_consumed_def consume_conn_def on_data_received_def
      poll_reserve_def Let_def split: option.split prod.split)

interpretation sent_part: engine_unsent "\<lambda>s. conn_sent (sh_flow s)"
  by unfold_locales (simp_all add: maybe_retire_fields)

lemma conn_sent_keep:
  assumes "\<And>op. e \<noteq> SvFlow op" and "e \<noteq> SvWriterSent True"
  shows "conn_sent (sh_flow (stream_step s e)) = conn_sent (sh_flow s)"
  using sent_part.V_step_part [OF assms(1) _ assms(2)] sent_part.V_message [of s]
  by (cases "\<exists>data. e = SvMessage data") (auto simp del: stream_step.simps)

lemma wired_keep: "wire_out t = wire_out s \<Longrightarrow> wired t = wired s"
  by (simp add: wired_def)

lemma sent_tally:
  assumes inv: "end_inv s" and snd: "sending_ok s" and g: "stream_guard s e" and own: "\<And>op. e \<noteq> SvFlow op"
  defines "t \<equiv> stream_step s e"
  shows "wired t + sent_credit s + unat (conn_sent (sh_flow s)) \<le> wired s + sent_credit t + unat (conn_sent (sh_flow t))"
proof (cases "e = SvWriterSent True")
  case False
  have same: "conn_sent (sh_flow t) = conn_sent (sh_flow s)"
    unfolding t_def by (rule conn_sent_keep [OF own False])
  show ?thesis
  proof (cases "e = SvWriterTransmit")
    case True
    with g consider (data) fr r where "writer_at s = WrData fr r False" | (life) m where "writer_at s = WrLife m False"
      by auto
    then show ?thesis
    proof cases
      case data
      have "entry_ok (fr, r)" using out_okD(3) [OF end_invD(4) [OF inv]] view_writer(4) [OF data] by simp
      then have "length (data_payload fr) = unat r"
        by (cases rule: entry_cases) (simp_all add: unat_of_nat_small frame_consts)
      with data True same show ?thesis by (simp add: t_def writer_transmit_def wired_def sent_credit_def)
    next
      case life
      have "life_ok m" using out_okD(4) [OF end_invD(4) [OF inv]] view_writer(6) [OF life] by simp
      then have "data_payload m = []" by (auto simp: life_ok_def)
      with life True same show ?thesis by (simp add: t_def writer_transmit_def wired_def sent_credit_def)
    qed
  next
    case nt: False
    have w: "wire_out t = wire_out s"
      using nt own unfolding t_def
      by (cases e) (simp_all add: stream_op_defs poll_write_def write_credit_def write_queue_def give_back_grant_def
        split: poll.split sum.split list.split writer.split bool.split prod.split option.split ParsedFrame.split)
    have "sent_credit s = 0 \<or> writer_at t = writer_at s"
      using nt own g False unfolding t_def
      by (cases e) (auto simp: stream_op_defs poll_write_def write_credit_def write_queue_def give_back_grant_def sent_credit_def
        split: poll.split sum.split list.split prod.split option.split ParsedFrame.split)
    then show ?thesis using same wired_keep [OF w] sent_credit_writer [of t s] by auto
  qed
next
  case True
  then have w: "wire_out t = wire_out s" by (simp add: t_def writer_sent_def Let_def split: writer.split)
  consider (life) m where "writer_at s = WrLife m True" | (data) fr r where "writer_at s = WrData fr r True"
    using g True by auto
  then show ?thesis
  proof cases
    case life
    then have "conn_sent (sh_flow t) = conn_sent (sh_flow s)" and "sent_credit s = 0"
      using True by (simp_all add: t_def writer_sent_def sent_credit_def)
    then show ?thesis using wired_keep [OF w] by simp
  next
    case data
    show ?thesis
    proof (cases "r = 0")
      case z: True
      then have "conn_sent (sh_flow t) = conn_sent (sh_flow s)" and "sent_credit s = 0"
        using True data by (simp_all add: t_def writer_sent_def sent_credit_def)
      then show ?thesis using wired_keep [OF w] by simp
    next
      case False
      then have r: "0 < r" by (simp add: word_gt_0)
      have live: "\<not> retired_fired s" by (rule sending_live(1) [OF snd inv data r])
      obtain q u c where o: "own (sh_flow s) (sh_id s) = Some (q, u, c)" and q: "unat r \<le> q"
        using end_invD(3) [OF inv] live data by (auto simp: flow_ok_def held_credit_def)
      from o obtain x where x: "streams (sh_flow s) (sh_id s) = Some x" "unat (send_reserved x) = q"
        by (rule own_Some)
      have si: "send_inv (sh_flow s)" using end_invD(1) [OF inv] by (simp add: flow_inv_def)
      have fin: "finite (dom (streams (sh_flow s)))" using si by (simp add: send_inv_def)
      have "unat (send_reserved x) \<le> unat (conn_reserved (sh_flow s))"
        using map_total_member [OF fin x(1), of "\<lambda>y. unat (send_reserved y)"] si by (simp add: send_inv_def)
      then have "unat (conn_sent (sh_flow s) + r) = unat (conn_sent (sh_flow s)) + unat r"
        using q x(2) send_inv_conn_bound [OF si] by (intro unat_add_exact) auto
      moreover have "conn_sent (sh_flow t) = conn_sent (sh_flow s) + r"
        using True data r x(1) by (simp add: t_def writer_sent_def Let_def) (simp add: commit_def)
      ultimately show ?thesis using wired_keep [OF w] data by (simp add: sent_credit_def)
    qed
  qed
qed

section \<open>Bytes received\<close>

lemma conn_received_quiet [simp]:
  "conn_received (fail_send i f) = conn_received f"
  "conn_received (mark_cancelled i f) = conn_received f"
  "conn_received (release i n f) = conn_received f"
  "conn_received (commit i n f) = conn_received f"
  "conn_received (on_peer_max_stream_data i v f) = conn_received f"
  "conn_received (snd (on_consumed i n f)) = conn_received f"
  "conn_received (snd (poll_reserve w i n f)) = conn_received f"
  "conn_received (drop_stream i f) = conn_received f"
  "conn_received (peer_stream_retired f) = conn_received f"
  by (auto simp: flow_op_defs on_consumed_def consume_conn_def
      poll_reserve_def Let_def split: option.split prod.split)

interpretation received_part: engine_unreceived "\<lambda>s. conn_received (sh_flow s)"
  by unfold_locales (simp_all add: maybe_retire_fields)

definition arrived_bytes :: "WebrtcStream \<Rightarrow> nat" where
  "arrived_bytes s = length (data_of (arrived s))"

lemma conn_received_arrival:
  assumes "on_data_received i n f = (res, g)"
  shows "unat (conn_received g) \<le> unat (conn_received f) + unat n"
proof -
  have "unat (conn_received f + n) \<le> unat (conn_received f) + unat n"
    by (simp add: unat_word_ariths)
  with assms show ?thesis by (auto simp: on_data_received_def split: option.splits if_splits)
qed

lemma received_message:
  "unat (conn_received (sh_flow (on_message data s))) \<le> unat (conn_received (sh_flow s)) + length (data_payload data)"
proof (cases "\<exists>p. parse_frame data = Inr (PfData p)")
  case False
  then have "conn_received (sh_flow (on_frame data s)) = conn_received (sh_flow s)"
    by (auto simp: on_frame_def split: sum.split ParsedFrame.split)
  then show ?thesis by (simp add: on_message_def)
next
  case True
  then obtain p where p: "parse_frame data = Inr (PfData p)" by blast
  have n: "unat (of_nat (length p) :: u64) = length p"
    using parsed_frame_ok [OF p] by (auto intro!: unat_of_nat_small simp: frame_consts)
  have "data_payload data = p" using parsed_kind(4) [OF p] by simp
  moreover obtain res g where d: "on_data_received (sh_id s) (of_nat (length p)) (sh_flow s) = (res, g)" by fastforce
  ultimately show ?thesis
    using conn_received_arrival [OF d] p n
    by (simp add: on_message_def on_frame_def on_data_frame_def Let_def split: sum.split)
qed

lemma received_tally:
  assumes "\<And>op. e \<noteq> SvFlow op"
  shows "unat (conn_received (sh_flow (stream_step s e))) + arrived_bytes s
    \<le> unat (conn_received (sh_flow s)) + arrived_bytes (stream_step s e)"
proof (cases "\<exists>data. e = SvMessage data")
  case True
  then obtain data where e: "e = SvMessage data" by blast
  show ?thesis
    using received_message [of data s] step_arrived [of s e] unfolding e by (simp add: arrived_bytes_def)
next
  case False
  then have "conn_received (sh_flow (stream_step s e)) = conn_received (sh_flow s)"
    using received_part.V_step_part [OF assms, of s] received_part.V_sent [of s]
    by (cases "e = SvWriterSent True") (auto simp del: stream_step.simps)
  moreover have "arrived (stream_step s e) = arrived s"
    using False step_arrived [of s e] by (simp split: stream_ev.split)
  ultimately show ?thesis by (simp add: arrived_bytes_def)
qed

section \<open>Fatal reports of a stream\<close>

definition report_ok :: "WebrtcStream \<Rightarrow> bool" where
  "report_ok s \<longleftrightarrow> fatal_calls s = [] \<or> dc_closed s"

lemma report_step:
  assumes "report_ok s" and "\<And>data. e \<noteq> SvMessage data"
  shows "report_ok (stream_step s e)"
  using assms
  by (cases e) (auto simp: report_ok_def stream_op_defs poll_write_def write_credit_def write_queue_def give_back_grant_def
      split: poll.split sum.split list.split writer.split bool.split prod.split option.split)

end
