(* ===== verification/KpsConnEffect.thy ===== *)
theory KpsConnEffect
  imports KpsConnProps KpsStreamTally
begin

text \<open>
  What a step of a connection does to its engine and its streams: nothing, one call on the
  engine under its contract, one step of one stream, one new stream, or one advertisement
  taken from the queue. Everything that is to be shown about totals over all streams is
  shown for these five effects.
\<close>

section \<open>Effects\<close>

text \<open>Events by which the peer reaches the connection, and the engine calls they make.\<close>

fun from_peer :: "conn_ev \<Rightarrow> bool" where
  "from_peer (CvControl data) = True"
| "from_peer (CvIncoming ready) = True"
| "from_peer (CvStream i e) = (case e of SvMessage data \<Rightarrow> True | _ \<Rightarrow> False)"
| "from_peer _ = False"

fun peer_call :: "flow_op \<Rightarrow> bool" where
  "peer_call (FlPeerHello l) = True"
| "peer_call (FlPeerMaxData v) = True"
| "peer_call (FlPeerMaxStreams v) = True"
| "peer_call FlPeerOpened = True"
| "peer_call _ = False"

fun conn_call :: "flow_op \<Rightarrow> bool" where
  "conn_call (FlFail e) = True"
| "conn_call FlReserveSlot = True"
| "conn_call FlReleaseSlot = True"
| "conn_call (FlPeerHello l) = True"
| "conn_call (FlPeerMaxData v) = True"
| "conn_call (FlPeerMaxStreams v) = True"
| "conn_call _ = False"

inductive conn_effect :: "bool \<Rightarrow> WebrtcConn \<Rightarrow> WebrtcConn \<Rightarrow> bool" where
  same: "conn_flow d = conn_flow c \<Longrightarrow> conn_streams d = conn_streams c \<Longrightarrow> conn_effect p c d"
| call: "conn_call op \<Longrightarrow> peer_call op \<longrightarrow> p \<Longrightarrow> flow_guard (conn_flow c) op \<Longrightarrow>
    conn_flow d = flow_step (conn_flow c) op \<Longrightarrow> conn_streams d = conn_streams c \<Longrightarrow> conn_effect p c d"
| stream: "conn_streams c i = Some s \<Longrightarrow> stream_guard (load c s) e \<Longrightarrow> \<forall>op. e \<noteq> SvFlow op \<Longrightarrow>
    (\<exists>data. e = SvMessage data) \<longrightarrow> p \<Longrightarrow> t = stream_step (load c s) e \<Longrightarrow>
    conn_flow d = sh_flow t \<Longrightarrow> conn_streams d = (conn_streams c)(i \<mapsto> t) \<Longrightarrow> conn_effect p c d"
| fresh: "op = FlPeerOpened \<and> p \<or> op = FlCommitSlot \<Longrightarrow> flow_guard (conn_flow c) op \<Longrightarrow>
    next_id (conn_flow c) < 18446744073709551615 \<Longrightarrow> t = Stream_new pin td open_now (flow_step (conn_flow c) op) \<Longrightarrow>
    conn_flow d = sh_flow t \<Longrightarrow> conn_streams d = (conn_streams c)(next_id (conn_flow c) + 1 \<mapsto> t) \<Longrightarrow> conn_effect p c d"
| advert: "conn_flow d = (conn_flow c)\<lparr>advert_tx := tl (advert_tx (conn_flow c))\<rparr> \<Longrightarrow>
    conn_streams d = conn_streams c \<Longrightarrow> conn_effect p c d"

lemma engine_frame [simp]:
  "conn_flow (mark err c) = conn_flow c" "conn_streams (mark err c) = conn_streams c"
  "conn_flow (pc_close c) = conn_flow c" "conn_streams (pc_close c) = conn_streams c"
  "conn_flow (control_send m ok c) = conn_flow c" "conn_streams (control_send m ok c) = conn_streams c"
  "conn_flow (fatal code msg c) = conn_flow c" "conn_streams (fatal code msg c) = conn_streams c"
  "conn_flow (spawn t c) = conn_flow c" "conn_streams (spawn t c) = conn_streams c"
  "conn_flow (finish_task t c) = conn_flow c" "conn_streams (finish_task t c) = conn_streams c"
  "conn_flow (hand_out i c) = conn_flow c" "conn_streams (hand_out i c) = conn_streams c"
  "conn_flow (check_and_flush c) = conn_flow c" "conn_streams (check_and_flush c) = conn_streams c"
  "conn_flow (on_flow_conn g c) = g (conn_flow c)" "conn_streams (on_flow_conn g c) = conn_streams c"
  by (simp_all add: mark_def mark_store_def mark_swap_def pc_close_def control_send_def fatal_def spawn_def
      finish_task_def hand_out_def check_and_flush_def hello_check_def flush_staged_def on_flow_conn_def)

lemma fatals_frame [simp]:
  "conn_flow (fatals calls c) = conn_flow c" "conn_streams (fatals calls c) = conn_streams c"
  by (induction calls c rule: fatals.induct) simp_all

lemma effect_stream_event:
  assumes "conn_inv c" and "conn_streams c i = Some s" and "stream_guard (load c s) e"
    and "\<forall>op. e \<noteq> SvFlow op" and "(\<exists>data. e = SvMessage data) \<longrightarrow> p"
  shows "conn_effect p c (stream_event i e c)"
proof -
  have id: "sh_id (stream_step (load c s) e) = i"
    using conn_inv_load(1) [OF assms(1,2)] by (simp add: load_def)
  show ?thesis
    by (rule conn_effect.stream [OF assms(2-5) refl])
       (use assms(2) id in \<open>simp_all add: stream_event_def put_conn_stream_def Let_def\<close>)
qed

lemma effect_cong:
  "conn_effect p c d \<Longrightarrow> conn_flow d' = conn_flow d \<Longrightarrow> conn_streams d' = conn_streams d \<Longrightarrow> conn_effect p c d'"
  by (erule conn_effect.cases) (blast intro: conn_effect.intros trans)+

lemma load_finish [simp]: "load (finish_task t c) s = load c s"
  by (simp add: load_def finish_task_def)

text \<open>The stream of an open call is there, and its handle can be dropped.\<close>

lemma opening_droppable:
  assumes inv: "conn_inv c" and t: "TkOpenReady i \<in> set (tasks c)"
  obtains s where "conn_streams c i = Some s" and "stream_guard (load c s) SvDrop"
proof -
  have "i \<in># unowned c" unfolding held_in_task [OF t] by simp
  moreover have "places_ok (handed_out c) (unowned c) (conn_streams c)" using inv by (simp add: conn_inv_def)
  ultimately obtain s where "conn_streams c i = Some s" "handle_live s" "\<not> close_write_pending s"
    by (auto simp: places_ok_def idle_def)
  then show thesis by (intro that [of s]) (simp_all add: load_def)
qed

lemma drop_handle_event:
  assumes "conn_inv c" and "TkOpenReady i \<in> set (tasks c)"
  shows "conn_effect p c (stream_event i SvDrop (finish_task (TkOpenReady i) c))"
proof -
  obtain s where s: "conn_streams c i = Some s" "stream_guard (load c s) SvDrop"
    by (rule opening_droppable [OF assms])
  have "stream_event i SvDrop (finish_task (TkOpenReady i) c) =
      fatals (drop (length (fatal_calls s)) (fatal_calls (stream_step (load c s) SvDrop)))
        (put_conn_stream (stream_step (load c s) SvDrop) (finish_task (TkOpenReady i) c))"
    using s(1) by (simp add: stream_event_def Let_def)
  moreover have "conn_effect p c (stream_event i SvDrop c)"
    by (rule effect_stream_event [OF assms(1) s]) simp_all
  ultimately show ?thesis
    using s(1) by (elim effect_cong) (simp_all add: stream_event_def put_conn_stream_def Let_def)
qed

lemma effect_control:
  assumes inv: "conn_inv c"
  shows "conn_effect True c (on_control data c)"
proof (cases "decode_control data")
  case (Inl m)
  then show ?thesis by (simp add: on_control_def conn_effect.same)
next
  case (Inr m)
  note ok = decoded_control_ok [OF Inr]
  show ?thesis
  proof (cases m)
    case (CtlClose code)
    with Inr show ?thesis by (simp add: on_control_def conn_effect.same)
  next
    case (CtlHello v l)
    show ?thesis
    proof (cases "hello_received c \<or> v \<noteq> WIRE_VERSION")
      case True
      with Inr CtlHello show ?thesis by (auto simp: on_control_def on_hello_def Let_def intro: conn_effect.same)
    next
      case False
      then have "flow_guard (conn_flow c) (FlPeerHello l)"
        using inv ok CtlHello by (simp add: conn_inv_def hello_ok_def)
      from conn_effect.call [OF _ _ this] Inr CtlHello False show ?thesis
        by (simp add: on_control_def on_hello_def Let_def)
    qed
  next
    case (CtlMaxData v)
    have "conn_effect True c (on_flow_conn (on_peer_max_data v) c)"
      by (rule conn_effect.call [of "FlPeerMaxData v"]) (use ok CtlMaxData in simp_all)
    with Inr CtlMaxData show ?thesis by (simp add: on_control_def conn_effect.same)
  next
    case (CtlMaxStreams v)
    have "conn_effect True c (on_flow_conn (on_peer_max_streams v) c)"
      by (rule conn_effect.call [of "FlPeerMaxStreams v"]) (use ok CtlMaxStreams in simp_all)
    with Inr CtlMaxStreams show ?thesis by (simp add: on_control_def conn_effect.same)
  qed
qed

lemma effect_incoming:
  assumes room: "next_id (conn_flow c) < 18446744073709551615"
  shows "conn_effect True c (handle_incoming ready c)"
proof (cases "fst (peer_stream_opened (conn_flow c))")
  case (Inl m)
  then show ?thesis
    by (auto simp: handle_incoming_def peer_stream_opened_def split: if_splits intro: conn_effect.same)
next
  case (Inr u)
  then obtain f where f: "peer_stream_opened (conn_flow c) = (Inr u, f)" by (cases "peer_stream_opened (conn_flow c)") simp
  then have g: "flow_step (conn_flow c) FlPeerOpened = f" and n: "next_id f = next_id (conn_flow c)"
    by (auto simp: peer_stream_opened_def split: if_splits)
  show ?thesis
    by (rule conn_effect.fresh [of FlPeerOpened True c, OF _ _ room refl])
       (use f g n in \<open>simp_all add: handle_incoming_def new_conn_stream_def put_conn_stream_def spawn_def Let_def\<close>)
qed

lemma effect_open_channel:
  assumes inv: "conn_inv c" and t: "TkOpenChannel \<in> set (tasks c)"
    and room: "next_id (conn_flow c) < 18446744073709551615"
  shows "conn_effect p c (snd (open_channel r c))"
proof -
  have "0 < count_list (tasks c) TkOpenChannel" using t by (rule count_list_member)
  then have res: "0 < streams_reserved (conn_flow c)" using conn_inv_slots [OF inv] by (simp add: word_less_nat_alt)
  show ?thesis
  proof (cases r)
    case (Inl e)
    show ?thesis
      by (rule conn_effect.call [of FlReleaseSlot]) (use res Inl in \<open>simp_all add: open_channel_def\<close>)
  next
    case (Inr ready)
    have n: "next_id (commit_stream_slot (conn_flow c)) = next_id (conn_flow c)" by (simp add: commit_stream_slot_def)
    show ?thesis
      by (rule conn_effect.fresh [of FlCommitSlot p c, OF _ _ room refl])
         (use res Inr n in \<open>simp_all add: open_channel_def new_conn_stream_def put_conn_stream_def Let_def\<close>)
  qed
qed

lemma conn_step_effect:
  assumes inv: "conn_inv c" and g: "conn_guard c e"
  shows "conn_effect (from_peer e) c (conn_step c e)"
proof (cases e)
  case (CvStream i ev)
  with g obtain s where s: "conn_streams c i = Some s" "stream_guard (load c s) ev" and own: "\<forall>op. ev \<noteq> SvFlow op"
    by auto
  have "conn_effect (from_peer e) c (stream_event i ev c)"
    by (rule effect_stream_event [OF inv s own]) (use CvStream in auto)
  with CvStream show ?thesis by simp
next
  case (CvOpenReady b i)
  with g have t: "TkOpenReady i \<in> set (tasks c)" by simp
  obtain s where "conn_streams c i = Some s" by (rule opening_droppable [OF inv t])
  with CvOpenReady drop_handle_event [OF inv t] show ?thesis
    by (auto simp: open_ready_def Let_def split: poll.split sum.split intro: conn_effect.same)
next
  case (CvAbandon t)
  with g have t: "t \<in> set (tasks c)" "open_call t \<or> close_call t" by simp_all
  with CvAbandon show ?thesis
    by (cases t) (auto simp: call_abandon_def intro: conn_effect.same drop_handle_event [OF inv])
next
  case (CvControl data)
  with effect_control [OF inv] show ?thesis by simp
next
  case (CvIncoming ready)
  with effect_incoming g show ?thesis by simp
next
  case (CvOpenChannel r)
  with effect_open_channel [OF inv] g show ?thesis by simp
next
  case (CvWatch b)
  have "conn_effect p c (on_flow_conn (flow_fail err) (c\<lparr>watcher := w\<rparr>))" for p err w
    by (rule conn_effect.call [of "FlFail err"]) simp_all
  with CvWatch show ?thesis
    by (auto simp: watch_step_def split: watch.split watch_branch.split intro: conn_effect.same effect_cong)
next
  case CvOpenSlot
  obtain r f where rf: "reserve_stream_slot (conn_flow c) = (r, f)" by fastforce
  have "conn_effect p c d" if "conn_flow d = f" "conn_streams d = conn_streams c" for p d
    by (rule conn_effect.call [of FlReserveSlot]) (use rf that in simp_all)
  with CvOpenSlot rf show ?thesis
    by (simp add: open_slot_def split: poll.split sum.split)
next
  case (CvAdvert ready ok)
  then show ?thesis
    by (auto simp: control_writer_def Let_def split: list.split intro: conn_effect.same conn_effect.advert)
qed (rule conn_effect.same;
     simp add: send_hello_def send_hello_finish_def reserved_channel_lost_def fatal_send_def fatal_finish_def
       unsupported_finish_def close_begin_def close_finish_def send_close_and_flush_def on_datagram_def
       receive_datagram_def surface_def inc_push_def inc_stage_def accept_stream_def inc_pop_def open_begin_def
       open_established_def Let_def split: list.split option.split poll.split sum.split)+

end
