(* ===== verification/KpsConnTally.thy ===== *)
theory KpsConnTally
  imports KpsConnEffect
begin

text \<open>
  The books of a whole connection: what all streams together put on the wire is covered by
  what the engine counts as sent, what it counts as received has arrived, every
  advertisement in the queue or on the control channel is within what the engine enforces,
  and the HELLO comes once and before any credit.
\<close>

section \<open>Advertisements\<close>

definition credit_msg :: "ConnFlow \<Rightarrow> bytes \<Rightarrow> bool" where
  "credit_msg f m \<longleftrightarrow>
     (\<exists>v. m = encode_max_data v \<and> v \<le> MAX_OFFSET \<and> v \<le> local_max_data f)
     \<or> (\<exists>v. m = encode_max_streams v \<and> v \<le> MAX_OFFSET \<and> v \<le> advertised_max_streams f)"

definition grants_grow :: "ConnFlow \<Rightarrow> ConnFlow \<Rightarrow> bool" where
  "grants_grow f g \<longleftrightarrow> local_max_data f \<le> local_max_data g \<and> advertised_max_streams f \<le> advertised_max_streams g"

lemma grants_grow_refl [simp]: "grants_grow f f"
  by (simp add: grants_grow_def)

lemma grants_grow_trans: "grants_grow f g \<Longrightarrow> grants_grow g h \<Longrightarrow> grants_grow f h"
  by (auto simp: grants_grow_def)

lemma credit_msg_grow: "credit_msg f m \<Longrightarrow> grants_grow f g \<Longrightarrow> credit_msg g m"
  by (auto simp: credit_msg_def grants_grow_def intro: order_trans)

text \<open>Nothing is advertised before the peer has used any credit.\<close>

definition adverts_ok :: "ConnFlow \<Rightarrow> bool" where
  "adverts_ok f \<longleftrightarrow> list_all (credit_msg f) (advert_tx f)
     \<and> (conn_received f = 0 \<and> peer_opened_streams f = 0 \<longrightarrow> advert_tx f = [])"

lemma flow_step_grants: "flow_inv f \<Longrightarrow> flow_guard f op \<Longrightarrow> grants_grow f (flow_step f op)"
  using flow_step_grows [of f op] by (simp add: limits_grow_def grants_grow_def)

lemma sat_range: "sat v \<le> MAX_OFFSET"
  by (simp add: sat_def)

lemma adverts_grow:
  assumes "list_all (credit_msg f) ms" and "grants_grow f g"
  shows "list_all (credit_msg g) ms"
  using assms credit_msg_grow by (auto simp: list_all_iff)

text \<open>What an operation queues, beside what was there.\<close>

definition queues :: "ConnFlow \<Rightarrow> ConnFlow \<Rightarrow> bool" where
  "queues f g \<longleftrightarrow>
     advert_tx g = advert_tx f
     \<or> (\<exists>m. advert_tx g = advert_tx f @ [m] \<and> credit_msg g m)"

lemma receipts_grow:
  assumes inv: "flow_inv f" and g: "flow_guard f op"
  shows "conn_received f \<le> conn_received (flow_step f op)"
    and "peer_opened_streams f \<le> peer_opened_streams (flow_step f op)"
proof -
  have fi: "recv_inv f" "count_inv f" using inv by (simp_all add: flow_inv_def)
  show "conn_received f \<le> conn_received (flow_step f op)"
  proof (cases op)
    case (FlDataReceived i n)
    with g have "unat n \<le> MAX_FRAME_PAYLOAD" by simp
    then have "unat (conn_received f + n) = unat (conn_received f) + unat n"
      using recv_inv_bounds(1) [OF fi(1)] by (intro unat_add_exact) (simp add: frame_consts)
    with FlDataReceived show ?thesis
      by (simp add: on_data_received_def word_le_nat_alt split: option.split)
  next
    case FlNewStream
    then show ?thesis by (simp add: new_stream_def Let_def)
  qed (simp_all add: flow_op_defs split: option.split)
  show "peer_opened_streams f \<le> peer_opened_streams (flow_step f op)"
    using slots_other(2) [OF _ inv, of op] by (cases "op = FlPeerRetired") (simp_all add: peer_stream_retired_def Let_def)
qed

lemma adverts_ok_step:
  assumes ok: "adverts_ok f" and inv: "flow_inv f" and g: "flow_guard f op"
    and lim: "local_limits f = DEFAULT_FLOW_LIMITS"
  shows "adverts_ok (flow_step f op)"
proof -
  let ?g = "flow_step f op"
  have grow: "grants_grow f ?g" by (rule flow_step_grants [OF inv g])
  have q: "queues f ?g"
  proof (cases op)
    case (FlConsumed i n)
    have "queues h (consume_conn n h)" for h
      by (auto simp: queues_def consume_conn_def credit_msg_def sat_range Let_def)
    moreover have "advert_tx (put_stream i t f) = advert_tx f" for t by simp
    ultimately have "queues f (consume_conn n f)" "\<And>t. queues f (consume_conn n (put_stream i t f))"
      by (metis queues_def)+
    with FlConsumed show ?thesis by (simp add: on_consumed_def Let_def split: option.split prod.split)
  next
    case FlPeerRetired
    then show ?thesis by (auto simp: queues_def peer_stream_retired_def credit_msg_def sat_range Let_def)
  next
    case (FlPollReserve w i n)
    then show ?thesis by (simp add: queues_def poll_reserve_def Let_def split: option.split)
  next
    case (FlDataReceived i n)
    then show ?thesis by (simp add: queues_def on_data_received_def split: option.split)
  next
    case FlNewStream
    then show ?thesis by (simp add: queues_def new_stream_def Let_def)
  qed (simp_all add: queues_def flow_op_defs split: option.split)
  have quiet: "advert_tx ?g = []" if z: "conn_received ?g = 0" "peer_opened_streams ?g = 0"
  proof -
    have fi: "recv_inv f" "count_inv f" and gi: "recv_inv ?g"
      using inv flow_step_inv [OF inv g] by (simp_all add: flow_inv_def)
    have was: "conn_received f = 0" "peer_opened_streams f = 0"
      using receipts_grow [OF inv g] z by (simp_all add: word_le_nat_alt unat_eq_0)
    then have nil: "advert_tx f = []" using ok by (simp add: adverts_ok_def)
    have zero: "conn_consumed h = 0" "conn_advertised_at h = 0" if "recv_inv h" "conn_received h = 0" for h
      using recv_inv_bounds(2,3) [OF that(1)] that(2) by (simp_all add: unat_eq_0)
    note f0 = zero [OF fi(1) was(1)] and g0 = zero [OF gi z(1)]
    show ?thesis
    proof (cases op)
      case (FlConsumed i n)
      have "conn_consumed ?g = conn_consumed f + n"
        using FlConsumed by (simp add: on_consumed_def Let_def split: option.split prod.split)
      then have "n = 0" using f0 g0 by simp
      then have "advert_tx (consume_conn n h) = advert_tx h"
        if "conn_consumed h = 0" "conn_advertised_at h = 0" "local_limits h = DEFAULT_FLOW_LIMITS" for h
        using that by (simp add: consume_conn_def DEFAULT_FLOW_LIMITS_def Let_def push_bit_eq_mult)
      with FlConsumed f0 nil lim show ?thesis
        by (simp add: on_consumed_def Let_def split: option.split prod.split)
    next
      case FlPeerRetired
      with g was show ?thesis by simp
    next
      case (FlPollReserve w i n)
      with nil show ?thesis by (simp add: poll_reserve_def Let_def split: option.split)
    next
      case (FlDataReceived i n)
      with nil show ?thesis by (simp add: on_data_received_def split: option.split)
    next
      case FlNewStream
      with nil show ?thesis by (simp add: new_stream_def Let_def)
    qed (use nil in \<open>simp_all add: flow_op_defs split: option.split\<close>)
  qed
  show ?thesis
    using q adverts_grow [OF _ grow] ok quiet by (auto simp: adverts_ok_def queues_def)
qed

section \<open>Totals over the streams\<close>

definition tally_ok :: "ConnFlow \<Rightarrow> (u64 \<rightharpoonup> WebrtcStream) \<Rightarrow> bool" where
  "tally_ok f m \<longleftrightarrow> adverts_ok f
     \<and> map_total wired m \<le> unat (conn_sent f) + map_total sent_credit m
     \<and> unat (conn_received f) \<le> map_total arrived_bytes m
     \<and> (\<forall>i s. m i = Some s \<longrightarrow> sending_ok s)"

lemma load_frame [simp]:
  "wired (load c s) = wired s" "sent_credit (load c s) = sent_credit s" "arrived_bytes (load c s) = arrived_bytes s"
  "sending_ok (load c s) = sending_ok s" "arrived (load c s) = arrived s" "wire_out (load c s) = wire_out s"
  "fatal_calls (load c s) = fatal_calls s" "dc_closed (load c s) = dc_closed s" "sh_flow (load c s) = conn_flow c"
  "sh_id (load c s) = sh_id s" "report_ok (load c s) = report_ok s"
  by (simp_all add: load_def wired_def sent_credit_def arrived_bytes_def sending_ok_def report_ok_def)

lemma new_stream_counters [simp]:
  "conn_sent (snd (new_stream f)) = conn_sent f" "conn_received (snd (new_stream f)) = conn_received f"
  by (simp_all add: new_stream_def Let_def)

lemma fresh_frame [simp]:
  "wired (Stream_new pin td op f) = 0" "sent_credit (Stream_new pin td op f) = 0"
  "arrived_bytes (Stream_new pin td op f) = 0" "sending_ok (Stream_new pin td op f)"
  "arrived (Stream_new pin td op f) = []" "wire_out (Stream_new pin td op f) = []"
  "report_ok (Stream_new pin td op f)"
  by (simp_all add: Stream_new_def new_stream_def Let_def wired_def sent_credit_def arrived_bytes_def sending_ok_def report_ok_def)

lemma conn_call_counters:
  assumes "conn_call op \<or> op = FlPeerOpened \<or> op = FlCommitSlot"
  shows "conn_sent (flow_step f op) = conn_sent f" and "conn_received (flow_step f op) = conn_received f"
  using assms by (cases op; simp add: flow_op_defs Let_def)+

lemma tally_stream:
  assumes inv: "conn_inv c" and ok: "tally_ok (conn_flow c) (conn_streams c)" and i: "conn_streams c i = Some s"
    and g: "stream_guard (load c s) e" and own: "\<forall>op. e \<noteq> SvFlow op" and t: "t = stream_step (load c s) e"
    and adv: "adverts_ok (sh_flow t)"
  shows "tally_ok (sh_flow t) ((conn_streams c)(i \<mapsto> t))"
proof -
  let ?m = "conn_streams c"
  have so: "streams_ok (conn_flow c) ?m" using inv by (simp add: conn_inv_def)
  have fin: "finite (dom ?m)" using streams_okD(2) [OF so] .
  have e: "end_inv (load c s)" using conn_inv_load(2) [OF inv i] .
  have snd: "sending_ok (load c s)" using ok i by (simp add: tally_ok_def)
  have s: "wired t + sent_credit s + unat (conn_sent (conn_flow c)) \<le> wired s + sent_credit t + unat (conn_sent (sh_flow t))"
    using sent_tally [OF e snd g] own unfolding t by simp
  have r: "unat (conn_received (sh_flow t)) + arrived_bytes s \<le> unat (conn_received (conn_flow c)) + arrived_bytes t"
    using received_tally [of e "load c s"] own unfolding t by simp
  have "sending_ok t" unfolding t by (rule sending_step [OF snd end_invD(4) [OF e] g])
  then show ?thesis
    using ok adv s r map_total_update [OF fin i, of wired t] map_total_update [OF fin i, of sent_credit t]
      map_total_update [OF fin i, of arrived_bytes t]
    by (auto simp: tally_ok_def)
qed

lemma engine_run_ends:
  assumes "engine_run f g" and "flow_inv f" and "local_limits f = DEFAULT_FLOW_LIMITS" and "adverts_ok f"
  shows "adverts_ok g" and "grants_grow f g"
proof -
  obtain ops where ops: "legal flow_step flow_guard f ops" "g = foldl flow_step f ops"
    using assms(1) by (auto simp: engine_run_def)
  from assms(2-4) ops(1) have "adverts_ok (foldl flow_step f ops) \<and> grants_grow f (foldl flow_step f ops)"
  proof (induction ops arbitrary: f)
    case (Cons op ops)
    then have "adverts_ok (flow_step f op)" "grants_grow f (flow_step f op)" "flow_inv (flow_step f op)"
      by (simp_all add: adverts_ok_step flow_step_grants flow_step_inv)
    with Cons show ?case by (auto simp: local_limits_step intro: grants_grow_trans)
  qed simp
  with ops(2) show "adverts_ok g" and "grants_grow f g" by simp_all
qed

lemma tally_effect:
  assumes eff: "conn_effect p c d" and inv: "conn_inv c" and ok: "tally_ok (conn_flow c) (conn_streams c)"
  shows "tally_ok (conn_flow d) (conn_streams d) \<and> grants_grow (conn_flow c) (conn_flow d)"
proof -
  let ?f = "conn_flow c" and ?m = "conn_streams c"
  have so: "streams_ok ?f ?m" and lim: "local_limits ?f = DEFAULT_FLOW_LIMITS"
    using inv by (simp_all add: conn_inv_def hello_ok_def)
  note fi = conn_inv_flow [OF inv]
  have adv: "adverts_ok ?f" using ok by (simp add: tally_ok_def)
  show ?thesis
    using eff
  proof cases
    case same
    with ok show ?thesis by simp
  next
    case (call op)
    with ok adverts_ok_step [OF adv fi _ lim] flow_step_grants [OF fi] show ?thesis
      by (simp add: tally_ok_def conn_call_counters)
  next
    case (stream i s e t)
    have e: "end_inv (load c s)" using conn_inv_load(2) [OF inv stream(1)] .
    have "engine_run ?f (sh_flow t)"
      using stream_uses_engine [OF end_invD(2,3) [OF e] stream(2)] stream(5) by simp
    note run = engine_run_ends [OF this fi lim adv]
    from tally_stream [OF inv ok stream(1-3,5) run(1)] run(2) stream show ?thesis by simp
  next
    case (fresh op t pin td now)
    let ?g = "flow_step ?f op"
    have gi: "flow_inv ?g" using flow_step_inv [OF fi fresh(2)] .
    have n: "next_id ?g = next_id ?f"
      using fresh(1) by (auto simp: peer_stream_opened_def commit_stream_slot_def)
    have run: "engine_run ?f (flow_step ?g FlNewStream)"
      using fresh(2,3) n by (intro engine_run_call) simp_all
    note ends = engine_run_ends [OF run fi lim adv]
    have free: "?m (next_id ?f + 1) = None" using new_id_fresh [OF so refl fresh(3)] .
    note ins = map_total_insert [OF streams_okD(2) [OF so] free]
    have "conn_sent ?g = conn_sent ?f" "conn_received ?g = conn_received ?f"
      using fresh(1) by (auto intro!: conn_call_counters)
    with ok ends ins fresh(4,5,6) show ?thesis by (auto simp: tally_ok_def)
  next
    case advert
    have "list_all (credit_msg ?f) (tl (advert_tx ?f))"
      using adv by (cases "advert_tx ?f") (simp_all add: adverts_ok_def)
    with ok advert show ?thesis
      by (auto simp: tally_ok_def adverts_ok_def credit_msg_def [abs_def] grants_grow_def)
  qed
qed

section \<open>What the peer allows covers what is on the wire\<close>

lemma map_total_mono:
  assumes "\<And>k v. m k = Some v \<Longrightarrow> g v \<le> h v"
  shows "map_total g m \<le> map_total h m"
  unfolding map_total_def using assms by (intro sum_mono) auto

lemma wired_within:
  assumes inv: "conn_inv c" and ok: "tally_ok (conn_flow c) (conn_streams c)"
  shows "map_total wired (conn_streams c) \<le> unat (peer_max_data (conn_flow c))"
proof -
  have "sent_credit s \<le> stream_credit s" if "conn_streams c i = Some s" for i s
  proof (cases "\<exists>fr r. writer_at s = WrData fr r True \<and> 0 < r")
    case True
    then obtain fr r where w: "writer_at (load c s) = WrData fr r True" "0 < r" by (auto simp: load_def)
    have "sending_ok (load c s)" using ok that by (simp add: tally_ok_def)
    from sending_live(1) [OF this conn_inv_load(2) [OF inv that] w] have "\<not> retired_fired s" by (simp add: load_def)
    moreover have "sent_credit s = unat r" "held_credit s = unat r"
      using w(1) by (simp_all add: load_def sent_credit_def held_credit_def)
    ultimately show ?thesis by (simp add: stream_credit_def)
  next
    case False
    then have "sent_credit s = 0" by (auto simp: sent_credit_def word_gt_0 split: writer.split bool.split)
    then show ?thesis by simp
  qed
  then have "map_total sent_credit (conn_streams c) \<le> map_total stream_credit (conn_streams c)"
    by (rule map_total_mono)
  moreover have "map_total wired (conn_streams c) \<le> unat (conn_sent (conn_flow c)) + map_total sent_credit (conn_streams c)"
    using ok by (simp add: tally_ok_def)
  ultimately show ?thesis using reserved_total [OF inv] by linarith
qed

end
