(* ===== verification/KpsPair.thy ===== *)
theory KpsPair
  imports KpsConnTally
begin

text \<open>
  Two connections of this implementation talking to each other: what one puts on its control
  channel and on a stream's channel reaches the other in order and at any later time, and a
  channel that one creates is announced to the other at any later time. Everything else a
  connection does goes on in between.
\<close>

section \<open>The pair\<close>

text \<open>
  Each side has heard a number of the other's control messages, and is still to hear of
  channels the other created (\<open>None\<close>: the creator gave the channel up before it had a stream
  for it). \<open>joined\<close> lists the streams that have both ends.
\<close>

record Pair =
  near :: WebrtcConn
  far :: WebrtcConn
  near_heard :: nat
  far_heard :: nat
  near_coming :: "u64 option list"
  far_coming :: "u64 option list"
  joined :: "(u64 \<times> u64) list"

definition pair_new :: "SocketAddr \<Rightarrow> SocketAddr \<Rightarrow> Pair" where
  "pair_new a b =
     \<lparr>near = WebrtcConn_new a, far = WebrtcConn_new b, near_heard = 0, far_heard = 0,
      near_coming = [], far_coming = [], joined = []\<rparr>"

definition turn :: "Pair \<Rightarrow> Pair" where
  "turn p =
     \<lparr>near = far p, far = near p, near_heard = far_heard p, far_heard = near_heard p,
      near_coming = far_coming p, far_coming = near_coming p, joined = map prod.swap (joined p)\<rparr>"

text \<open>
  What happens at one side: a step of its own, its call for a channel succeeding (or being
  dropped while the stack creates the channel all the same), and the arrival of the next
  control message, of a channel, and of the next frame on a channel.
\<close>

datatype side_ev =
    SdOwn conn_ev
  | SdOpened dc_state
  | SdOpenLost
  | SdControl
  | SdChannel nat dc_state
  | SdFrame nat

definition next_id_of :: "WebrtcConn \<Rightarrow> u64" where
  "next_id_of c = next_id (conn_flow c) + 1"

definition stream_at :: "WebrtcConn \<Rightarrow> u64 \<Rightarrow> WebrtcStream" where
  "stream_at c i = load c (the (conn_streams c i))"

definition near_end :: "Pair \<Rightarrow> nat \<Rightarrow> WebrtcStream" where
  "near_end p k = stream_at (near p) (fst (joined p ! k))"

definition far_end :: "Pair \<Rightarrow> nat \<Rightarrow> WebrtcStream" where
  "far_end p k = stream_at (far p) (snd (joined p ! k))"

definition coming_frame :: "Pair \<Rightarrow> nat \<Rightarrow> bytes" where
  "coming_frame p k = next_frame (far_end p k) (near_end p k)"

definition coming_message :: "Pair \<Rightarrow> bytes" where
  "coming_message p = control_out (far p) ! near_heard p"

fun side_step :: "Pair \<Rightarrow> side_ev \<Rightarrow> Pair" where
  "side_step p (SdOwn e) = p\<lparr>near := conn_step (near p) e\<rparr>"
| "side_step p (SdOpened ready) =
     p\<lparr>near := conn_step (near p) (CvOpenChannel (Inr ready)),
       far_coming := far_coming p @ [Some (next_id_of (near p))]\<rparr>"
| "side_step p SdOpenLost =
     p\<lparr>near := conn_step (near p) (CvAbandon TkOpenChannel), far_coming := far_coming p @ [None]\<rparr>"
| "side_step p SdControl =
     p\<lparr>near := conn_step (near p) (CvControl (coming_message p)), near_heard := Suc (near_heard p)\<rparr>"
| "side_step p (SdChannel k ready) =
     p\<lparr>near := conn_step (near p) (CvIncoming ready),
       near_coming := take k (near_coming p) @ drop (Suc k) (near_coming p),
       joined := joined p @
         (case fst (peer_stream_opened (conn_flow (near p))) of
            Inl msg \<Rightarrow> []
          | Inr _ \<Rightarrow> (case near_coming p ! k of None \<Rightarrow> [] | Some j \<Rightarrow> [(next_id_of (near p), j)]))\<rparr>"
| "side_step p (SdFrame k) =
     p\<lparr>near := conn_step (near p) (CvStream (fst (joined p ! k)) (SvMessage (coming_frame p k)))\<rparr>"

text \<open>Steps of its own are those that do not come from the peer and create no channel.\<close>

fun own_step :: "conn_ev \<Rightarrow> bool" where
  "own_step (CvOpenChannel (Inr ready)) = False"
| "own_step e = (\<not> from_peer e)"

fun side_guard :: "Pair \<Rightarrow> side_ev \<Rightarrow> bool" where
  "side_guard p (SdOwn e) \<longleftrightarrow> conn_guard (near p) e \<and> own_step e"
| "side_guard p (SdOpened ready) \<longleftrightarrow> conn_guard (near p) (CvOpenChannel (Inr ready))"
| "side_guard p SdOpenLost \<longleftrightarrow> conn_guard (near p) (CvAbandon TkOpenChannel)"
| "side_guard p SdControl \<longleftrightarrow> near_heard p < length (control_out (far p))"
| "side_guard p (SdChannel k ready) \<longleftrightarrow> k < length (near_coming p) \<and> conn_guard (near p) (CvIncoming ready)"
| "side_guard p (SdFrame k) \<longleftrightarrow> k < length (joined p) \<and> can_deliver (far_end p k) (near_end p k)"

datatype pair_ev = AtNear side_ev | AtFar side_ev

fun pair_step :: "Pair \<Rightarrow> pair_ev \<Rightarrow> Pair" where
  "pair_step p (AtNear e) = side_step p e"
| "pair_step p (AtFar e) = turn (side_step (turn p) e)"

fun pair_guard :: "Pair \<Rightarrow> pair_ev \<Rightarrow> bool" where
  "pair_guard p (AtNear e) \<longleftrightarrow> side_guard p e"
| "pair_guard p (AtFar e) \<longleftrightarrow> side_guard (turn p) e"

definition pair_reachable :: "Pair \<Rightarrow> bool" where
  "pair_reachable p \<longleftrightarrow>
     (\<exists>a b es. legal pair_step pair_guard (pair_new a b) es \<and> p = foldl pair_step (pair_new a b) es)"

lemma swap_swap [simp]: "map prod.swap (map prod.swap J) = J"
  by (simp add: comp_def)

lemma turn_turn [simp]: "turn (turn p) = p"
  by (simp add: turn_def comp_def)

lemma turn_fields [simp]:
  "near (turn p) = far p" "far (turn p) = near p" "near_heard (turn p) = far_heard p"
  "far_heard (turn p) = near_heard p" "near_coming (turn p) = far_coming p" "far_coming (turn p) = near_coming p"
  "joined (turn p) = map prod.swap (joined p)"
  by (simp_all add: turn_def)

section \<open>The control channel\<close>

abbreviation greeting :: bytes where
  "greeting \<equiv> encode_hello DEFAULT_FLOW_LIMITS"

text \<open>One HELLO at most, and no credit before it; credit is what the sender enforces.\<close>

fun ctl_ok :: "ConnFlow \<Rightarrow> bool \<Rightarrow> bytes list \<Rightarrow> bool" where
  "ctl_ok f seen [] = True"
| "ctl_ok f seen (m # ms) =
     (if m = greeting then \<not> seen \<and> ctl_ok f True ms
      else ((\<exists>code. m = encode_conn_close code) \<or> seen \<and> credit_msg f m) \<and> ctl_ok f seen ms)"

lemma ctl_ok_append [simp]:
  "ctl_ok f seen (xs @ ys) \<longleftrightarrow> ctl_ok f seen xs \<and> ctl_ok f (seen \<or> greeting \<in> set xs) ys"
  by (induction f seen xs rule: ctl_ok.induct) auto

lemma ctl_ok_grow: "ctl_ok f seen ms \<Longrightarrow> grants_grow f g \<Longrightarrow> ctl_ok g seen ms"
  by (induction f seen ms rule: ctl_ok.induct) (auto intro: credit_msg_grow)

lemma ctl_next:
  assumes "ctl_ok f False xs" and "k < length xs"
  shows "xs ! k = greeting \<and> greeting \<notin> set (take k xs) \<or> (\<exists>code. xs ! k = encode_conn_close code)
    \<or> greeting \<in> set (take k xs) \<and> credit_msg f (xs ! k)"
proof -
  have "ctl_ok f False (take k xs @ xs ! k # drop (Suc k) xs)" using assms by (simp add: id_take_nth_drop [symmetric])
  then show ?thesis by (auto split: if_splits)
qed

text \<open>What each event puts on the control channel.\<close>

fun sends :: "WebrtcConn \<Rightarrow> conn_ev \<Rightarrow> bytes list" where
  "sends c (CvHelloSent ok) = (if ok then [encode_hello (local_limits (conn_flow c))] else [])"
| "sends c (CvFatalSend code ready ok) = (if ready = DcOpen \<and> ok then [encode_conn_close code] else [])"
| "sends c (CvUnsupported ok) = (if ok then [encode_conn_close EcUnsupported] else [])"
| "sends c (CvCloseSend code op ok) = (if op \<and> ok then [encode_conn_close code] else [])"
| "sends c (CvAdvert ready ok) =
     (case advert_tx (conn_flow c) of [] \<Rightarrow> [] | m # rest \<Rightarrow> if ready = DcOpen \<and> ok then [m] else [])"
| "sends c _ = []"

lemma control_frame [simp]:
  "control_out (mark err c) = control_out c" "control_out (pc_close c) = control_out c"
  "control_out (fatal code msg c) = control_out c" "control_out (spawn t c) = control_out c"
  "control_out (finish_task t c) = control_out c" "control_out (hand_out i c) = control_out c"
  "control_out (check_and_flush c) = control_out c" "control_out (on_flow_conn g c) = control_out c"
  "control_out (put_conn_stream s c) = control_out c"
  "control_out (control_send m ok c) = control_out c @ (if ok then [m] else [])"
  "hello_received (mark err c) = hello_received c" "hello_received (pc_close c) = hello_received c"
  "hello_received (fatal code msg c) = hello_received c" "hello_received (spawn t c) = hello_received c"
  "hello_received (finish_task t c) = hello_received c" "hello_received (hand_out i c) = hello_received c"
  "hello_received (check_and_flush c) = hello_received c" "hello_received (on_flow_conn g c) = hello_received c"
  "hello_received (put_conn_stream s c) = hello_received c" "hello_received (control_send m ok c) = hello_received c"
  "hello_sent (mark err c) = hello_sent c" "hello_sent (pc_close c) = hello_sent c"
  "hello_sent (fatal code msg c) = hello_sent c" "hello_sent (spawn t c) = hello_sent c"
  "hello_sent (finish_task t c) = hello_sent c" "hello_sent (hand_out i c) = hello_sent c"
  "hello_sent (check_and_flush c) = hello_sent c" "hello_sent (on_flow_conn g c) = hello_sent c"
  "hello_sent (put_conn_stream s c) = hello_sent c" "hello_sent (control_send m ok c) = hello_sent c"
  "tasks (check_and_flush c) = tasks c" "tasks (on_flow_conn g c) = tasks c" "tasks (hand_out i c) = tasks c"
  "tasks (put_conn_stream s c) = tasks c"
  by (simp_all add: mark_def mark_store_def mark_swap_def pc_close_def control_send_def fatal_def spawn_def
      finish_task_def hand_out_def check_and_flush_def hello_check_def flush_staged_def on_flow_conn_def put_conn_stream_def)

lemma control_fatals [simp]:
  "control_out (fatals calls c) = control_out c" "hello_received (fatals calls c) = hello_received c"
  "hello_sent (fatals calls c) = hello_sent c"
  "\<forall>code. t \<noteq> TkFatal code \<Longrightarrow> count_list (tasks (fatals calls c)) t = count_list (tasks c) t"
  by (induction calls c rule: fatals.induct) auto

lemma control_stream [simp]:
  "control_out (stream_event i e c) = control_out c" "hello_received (stream_event i e c) = hello_received c"
  "hello_sent (stream_event i e c) = hello_sent c"
  "\<forall>code. t \<noteq> TkFatal code \<Longrightarrow> count_list (tasks (stream_event i e c)) t = count_list (tasks c) t"
  by (simp_all add: stream_event_def Let_def split: option.split)

lemmas conn_event_defs = send_hello_def send_hello_finish_def reserved_channel_lost_def fatal_send_def fatal_finish_def
  unsupported_finish_def close_begin_def close_finish_def send_close_and_flush_def on_datagram_def
  receive_datagram_def surface_def inc_push_def inc_stage_def accept_stream_def inc_pop_def open_begin_def
  open_established_def open_slot_def open_channel_def open_ready_def call_abandon_def new_conn_stream_def
  watch_step_def control_writer_def handle_incoming_def

lemma control_out_step:
  "control_out (conn_step c e) = control_out c @ sends c e"
  by (cases e)
     (simp_all add: conn_event_defs on_control_def on_hello_def Let_def
       split: list.split option.split poll.split sum.split prod.split watch.split watch_branch.split ControlMsg.split conn_task.split)

end
