(* ===== verification/KpsPairInv.thy ===== *)
theory KpsPairInv
  imports KpsPair
begin

text \<open>
  The invariant of two connections: the books of each, and what each side's view of the other
  owes to what the other really granted and sent.
\<close>

section \<open>Tasks and slots\<close>

lemma hello_balance:
  assumes "conn_guard c e"
  shows "count_list (tasks (conn_step c e)) TkHello + of_bool (\<exists>ok. e = CvHelloSent ok) + of_bool (hello_sent c)
    \<le> count_list (tasks c) TkHello + of_bool (hello_sent (conn_step c e))"
proof (cases e)
  case (CvHelloSent ok)
  with assms have "0 < count_list (tasks c) TkHello" by (simp add: count_list_member)
  with CvHelloSent show ?thesis by (simp add: conn_event_defs count_list_remove1)
qed (simp_all add: conn_event_defs on_control_def on_hello_def Let_def count_list_remove1
       split: list.split option.split poll.split sum.split prod.split watch.split watch_branch.split ControlMsg.split conn_task.split)

definition slots_total :: "WebrtcConn \<Rightarrow> nat" where
  "slots_total c = unat (streams_opened (conn_flow c)) + unat (streams_reserved (conn_flow c))"

text \<open>The step that takes a call's slot to a channel.\<close>

definition takes_slot :: "conn_ev \<Rightarrow> bool" where
  "takes_slot e \<longleftrightarrow> (\<exists>ready. e = CvOpenChannel (Inr ready)) \<or> e = CvAbandon TkOpenChannel"

lemma stream_event_rest:
  assumes "\<forall>op. e \<noteq> SvFlow op"
  shows "streams_opened (conn_flow (stream_event i e c)) = streams_opened (conn_flow c)"
    and "streams_reserved (conn_flow (stream_event i e c)) = streams_reserved (conn_flow c)"
proof -
  have "rest_of (stream_step (load c s) e) = rest_of (load c s)" for s using assms by (intro rest.V_step) blast
  note r = rest_of_others [OF this]
  show "streams_opened (conn_flow (stream_event i e c)) = streams_opened (conn_flow c)"
    and "streams_reserved (conn_flow (stream_event i e c)) = streams_reserved (conn_flow c)"
    using r(3,4) by (simp_all add: stream_event_def put_conn_stream_def Let_def split: option.split)
qed

lemma slots_total_frame [simp]:
  "slots_total (mark err c) = slots_total c" "slots_total (pc_close c) = slots_total c"
  "slots_total (fatal code msg c) = slots_total c" "slots_total (spawn t c) = slots_total c"
  "slots_total (finish_task t c) = slots_total c" "slots_total (hand_out i c) = slots_total c"
  "slots_total (check_and_flush c) = slots_total c" "slots_total (control_send m ok c) = slots_total c"
  "slots_total (stream_event i SvDrop c) = slots_total c"
  by (simp_all add: slots_total_def stream_event_rest)

lemma slots_total_calls [simp]:
  "slots_total (on_flow_conn (flow_fail err) c) = slots_total c"
  "slots_total (on_flow_conn (on_peer_hello l) c) = slots_total c"
  "slots_total (on_flow_conn (on_peer_max_data v) c) = slots_total c"
  "slots_total (on_flow_conn (on_peer_max_streams v) c) = slots_total c"
  "slots_total (on_flow_conn (\<lambda>f. f\<lparr>advert_tx := ms\<rparr>) c) = slots_total c"
  by (simp_all add: slots_total_def flow_op_defs)

lemma slots_total_bound:
  assumes "conn_inv c"
  shows "slots_total c \<le> unat (peer_max_streams (conn_flow c))" and "slots_total c \<le> 4611686018427387903"
proof -
  have "count_inv (conn_flow c)" using conn_inv_flow [OF assms] by (simp add: flow_inv_def)
  then show "slots_total c \<le> unat (peer_max_streams (conn_flow c))" and "slots_total c \<le> 4611686018427387903"
    by (auto simp: count_inv_def slots_total_def u64_simps)
qed

lemma slots_open_slot:
  assumes "conn_inv c" and "TkOpenSlot \<in> set (tasks c)"
  shows "count_list (tasks (snd (open_slot c))) TkOpenChannel + slots_total c
    = count_list (tasks c) TkOpenChannel + slots_total (snd (open_slot c))"
proof -
  have "unat (streams_reserved (conn_flow c) + 1) = unat (streams_reserved (conn_flow c)) + 1"
    using slots_total_bound(2) [OF assms(1)] by (simp add: slots_total_def nowrap)
  then show ?thesis
    by (simp add: open_slot_def reserve_stream_slot_def slots_total_def spawn_def finish_task_def count_list_remove1)
qed

lemma slots_open_channel:
  assumes inv: "conn_inv c" and t: "TkOpenChannel \<in> set (tasks c)"
  shows "count_list (tasks (snd (open_channel r c))) TkOpenChannel + of_bool (\<exists>ready. r = Inr ready) + slots_total c
    = count_list (tasks c) TkOpenChannel + slots_total (snd (open_channel r c))"
proof -
  let ?f = "conn_flow c"
  have n: "0 < count_list (tasks c) TkOpenChannel" using t by (rule count_list_member)
  then have res: "0 < unat (streams_reserved ?f)" using conn_inv_slots [OF inv] by linarith
  have down: "unat (streams_reserved ?f - 1) = unat (streams_reserved ?f) - 1"
    using res by (simp add: nowrap)
  have up: "unat (streams_opened ?f + 1) = unat (streams_opened ?f) + 1"
    using slots_total_bound(2) [OF inv] by (simp add: slots_total_def nowrap)
  show ?thesis
    using n res down up
    by (cases r)
       (simp_all add: open_channel_def new_conn_stream_def put_conn_stream_def Let_def slots_total_def count_list_remove1
          spawn_def finish_task_def on_flow_conn_def,
        simp_all add: release_stream_slot_def commit_stream_slot_def new_stream_def Let_def)
qed

lemma slot_balance:
  assumes inv: "conn_inv c" and g: "conn_guard c e"
  shows "count_list (tasks (conn_step c e)) TkOpenChannel + of_bool (takes_slot e) + slots_total c
    \<le> count_list (tasks c) TkOpenChannel + slots_total (conn_step c e)"
proof (cases e)
  case CvOpenSlot
  with g slots_open_slot [OF inv] show ?thesis by (simp add: takes_slot_def)
next
  case (CvOpenChannel r)
  with g slots_open_channel [OF inv, of r] show ?thesis by (simp add: takes_slot_def)
next
  case (CvStream i ev)
  with g show ?thesis by (auto simp: takes_slot_def slots_total_def stream_event_rest)
next
  case (CvAbandon t)
  with g have "0 < count_list (tasks c) t" by (simp add: count_list_member)
  with CvAbandon show ?thesis
    by (cases t) (simp_all add: call_abandon_def takes_slot_def count_list_remove1)
next
  case (CvIncoming ready)
  then show ?thesis
    by (simp add: takes_slot_def slots_total_def handle_incoming_def peer_stream_opened_def new_conn_stream_def
        put_conn_stream_def spawn_def Let_def split: sum.split)
       (simp add: new_stream_def Let_def)
qed (simp_all add: takes_slot_def conn_event_defs on_control_def on_hello_def Let_def count_list_remove1
       split: list.split option.split poll.split sum.split prod.split watch.split watch_branch.split ControlMsg.split,
     simp_all add: slots_total_def)

section \<open>What a side sends on the control channel\<close>

definition greeting_ok :: "WebrtcConn \<Rightarrow> bool" where
  "greeting_ok c \<longleftrightarrow>
     ctl_ok (conn_flow c) False (control_out c)
     \<and> count_list (tasks c) TkHello + count_list (control_out c) greeting \<le> of_bool (hello_sent c)"

lemma greeting_not:
  "encode_conn_close code \<noteq> greeting" "encode_max_data v \<noteq> greeting" "encode_max_streams v \<noteq> greeting"
  by (simp_all add: encode_conn_close_def encode_max_data_def encode_max_streams_def encode_hello_def)

lemma credit_msg_not: "credit_msg f m \<Longrightarrow> m \<noteq> greeting"
  using greeting_not [THEN not_sym] by (auto simp: credit_msg_def)

lemma ctl_ok_plain:
  "\<forall>m\<in>set ms. m \<noteq> greeting \<and> ((\<exists>code. m = encode_conn_close code) \<or> seen \<and> credit_msg f m) \<Longrightarrow> ctl_ok f seen ms"
  by (induction ms) auto

lemma greeting_step:
  assumes inv: "conn_inv c" and tally: "tally_ok (conn_flow c) (conn_streams c)" and ok: "greeting_ok c"
    and g: "conn_guard c e" and quiet: "greeting \<notin> set (control_out c) \<Longrightarrow> advert_tx (conn_flow c) = []"
  shows "greeting_ok (conn_step c e)"
proof -
  let ?d = "conn_step c e"
  have grow: "grants_grow (conn_flow c) (conn_flow ?d)"
    using tally_effect [OF conn_step_effect [OF inv g] inv tally] by blast
  have ctl: "ctl_ok (conn_flow ?d) False (control_out c)" using ok grow by (auto simp: greeting_ok_def intro: ctl_ok_grow)
  have lim: "local_limits (conn_flow c) = DEFAULT_FLOW_LIMITS" using inv by (simp add: conn_inv_def hello_ok_def)
  have adv: "list_all (credit_msg (conn_flow c)) (advert_tx (conn_flow c))"
    using tally by (simp add: tally_ok_def adverts_ok_def)
  note bal = hello_balance [OF g]
  have cnt: "count_list (tasks c) TkHello + count_list (control_out c) greeting \<le> of_bool (hello_sent c)"
    using ok by (simp add: greeting_ok_def)
  show ?thesis
  proof (cases "\<exists>ok. e = CvHelloSent ok")
    case True
    then obtain b where e: "e = CvHelloSent b" by blast
    then have "0 < count_list (tasks c) TkHello" using g by (simp add: count_list_member)
    then have "count_list (control_out c) greeting = 0" using cnt by (cases "hello_sent c") simp_all
    then have "greeting \<notin> set (control_out c)" by (simp add: count_list_0_iff)
    moreover have "count_list (tasks ?d) TkHello + 1 \<le> of_bool (hello_sent ?d)"
      using bal cnt e by (cases "hello_sent c") (simp_all add: ex_bool_eq del: conn_step.simps)
    ultimately show ?thesis
      using ctl e lim by (cases b) (simp_all add: greeting_ok_def control_out_step del: conn_step.simps)
  next
    case False
    have new: "\<forall>m\<in>set (sends c e). m \<noteq> greeting \<and>
        ((\<exists>code. m = encode_conn_close code) \<or> greeting \<in> set (control_out c) \<and> credit_msg (conn_flow ?d) m)"
    proof (cases e)
      case (CvAdvert ready b)
      show ?thesis
      proof (cases "advert_tx (conn_flow c)")
        case (Cons m rest)
        then have "credit_msg (conn_flow c) m" using adv by simp
        from credit_msg_grow [OF this grow] credit_msg_not [OF this] Cons quiet CvAdvert show ?thesis
          by (auto simp del: conn_step.simps)
      qed (use CvAdvert in simp)
    qed (use False in \<open>auto simp: greeting_not\<close>)
    then have "ctl_ok (conn_flow ?d) (greeting \<in> set (control_out c)) (sends c e)"
      by (rule ctl_ok_plain)
    moreover have "count_list (sends c e) greeting = 0" using new by (auto simp: count_list_0_iff)
    ultimately show ?thesis
      using ctl bal cnt False by (simp add: greeting_ok_def control_out_step del: conn_step.simps)
  qed
qed

section \<open>What an own step leaves to the peer\<close>

lemma effect_peer_fields:
  assumes "conn_effect False c d"
  shows "peer_max_data (conn_flow d) = peer_max_data (conn_flow c)"
    and "peer_max_streams (conn_flow d) = peer_max_streams (conn_flow c)"
    and "peer_init_stream_data (conn_flow d) = peer_init_stream_data (conn_flow c)"
    and "peer_opened_streams (conn_flow d) = peer_opened_streams (conn_flow c)"
proof -
  have "peer_max_data (conn_flow d) = peer_max_data (conn_flow c)
    \<and> peer_max_streams (conn_flow d) = peer_max_streams (conn_flow c)
    \<and> peer_init_stream_data (conn_flow d) = peer_init_stream_data (conn_flow c)
    \<and> peer_opened_streams (conn_flow d) = peer_opened_streams (conn_flow c)"
    using assms
  proof cases
    case (call op)
    then show ?thesis by (cases op) (simp_all add: flow_op_defs)
  next
    case (stream i s e t)
    have rest: "rest_of t = rest_of (load c s)" and lim: "limits_of t = limits_of (load c s)"
      using stream(3,5) by (auto intro: rest.V_step limits.V_step)
    note r = rest_of_others [OF rest]
    show ?thesis using stream r(5-7) lim by (simp add: limits_of_def)
  next
    case (fresh op t pin td now)
    then show ?thesis by (auto simp: commit_stream_slot_def)
  qed simp_all
  then show "peer_max_data (conn_flow d) = peer_max_data (conn_flow c)"
    and "peer_max_streams (conn_flow d) = peer_max_streams (conn_flow c)"
    and "peer_init_stream_data (conn_flow d) = peer_init_stream_data (conn_flow c)"
    and "peer_opened_streams (conn_flow d) = peer_opened_streams (conn_flow c)" by blast+
qed

text \<open>The streams after a step, and those that are new.\<close>

definition wires_grow :: "WebrtcConn \<Rightarrow> WebrtcConn \<Rightarrow> bool" where
  "wires_grow c d \<longleftrightarrow>
     (\<forall>i s. conn_streams c i = Some s \<longrightarrow> (\<exists>t fs. conn_streams d i = Some t \<and> wire_out t = wire_out s @ fs))
     \<and> (\<forall>i t. conn_streams c i = None \<longrightarrow> conn_streams d i = Some t \<longrightarrow> arrived t = [] \<and> report_ok t)"

definition arrivals_same :: "WebrtcConn \<Rightarrow> WebrtcConn \<Rightarrow> bool" where
  "arrivals_same c d \<longleftrightarrow>
     (\<forall>i s. conn_streams c i = Some s \<longrightarrow>
        (\<exists>t. conn_streams d i = Some t \<and> arrived t = arrived s \<and> (report_ok s \<longrightarrow> report_ok t)))"

lemma effect_wires:
  assumes eff: "conn_effect p c d" and inv: "conn_inv c"
  shows "wires_grow c d"
  using eff
proof cases
  case (stream i s e t)
  obtain fs where "wire_out t = wire_out (load c s) @ fs" using step_wire_out [of "load c s" e] stream(5) by blast
  with stream show ?thesis by (auto simp: wires_grow_def)
next
  case (fresh op t pin td now)
  have "streams_ok (conn_flow c) (conn_streams c)" using inv by (simp add: conn_inv_def)
  then have "conn_streams c (next_id (conn_flow c) + 1) = None" using fresh(3) by (intro new_id_fresh) simp_all
  with fresh show ?thesis by (auto simp: wires_grow_def)
qed (auto simp: wires_grow_def)

lemma effect_arrivals:
  assumes eff: "conn_effect False c d" and inv: "conn_inv c"
  shows "arrivals_same c d"
  using eff
proof cases
  case (stream i s e t)
  have "arrived t = arrived s" using step_arrived [of "load c s" e] stream(4,5) by (simp split: stream_ev.splits)
  moreover have "report_ok s \<longrightarrow> report_ok t"
    using report_step [of "load c s" e] stream(4,5) by auto
  ultimately show ?thesis using stream by (auto simp: arrivals_same_def)
next
  case (fresh op t pin td now)
  have "streams_ok (conn_flow c) (conn_streams c)" using inv by (simp add: conn_inv_def)
  then have "conn_streams c (next_id (conn_flow c) + 1) = None" using fresh(3) by (intro new_id_fresh) simp_all
  with fresh show ?thesis by (auto simp: arrivals_same_def)
qed (auto simp: arrivals_same_def)

end
