(* ===== verification/KpsConnSpeech.thy ===== *)
theory KpsConnSpeech
  imports KpsPairInv
begin

text \<open>
  What a connection says: whatever its peer sends and however its tasks interleave, everything
  it puts on a channel is a message of the protocol that its peer can decode.
\<close>

section \<open>Control messages\<close>

text \<open>A message a connection may have sent, as the peer decodes it; credit is credit it gives.\<close>

fun granted_msg :: "ConnFlow \<Rightarrow> ControlMsg \<Rightarrow> bool" where
  "granted_msg f (CtlClose code) = True"
| "granted_msg f (CtlHello v l) \<longleftrightarrow> v = WIRE_VERSION \<and> l = DEFAULT_FLOW_LIMITS"
| "granted_msg f (CtlMaxData v) \<longleftrightarrow> v \<le> local_max_data f"
| "granted_msg f (CtlMaxStreams v) \<longleftrightarrow> v \<le> advertised_max_streams f"

definition said_ok :: "ConnFlow \<Rightarrow> bytes \<Rightarrow> bool" where
  "said_ok f m \<longleftrightarrow> (\<exists>x. decode_control m = Inr x \<and> granted_msg f x)"

lemma said_simps [simp]: "said_ok f (encode_conn_close code)" "said_ok f greeting" "credit_msg f m \<Longrightarrow> said_ok f m"
  using control.dec_enc [of "CtlClose code"] control.dec_enc [of "CtlHello WIRE_VERSION DEFAULT_FLOW_LIMITS"]
    default_limits_ok control.dec_enc [of "CtlMaxData _"] control.dec_enc [of "CtlMaxStreams _"]
  by (auto simp: said_ok_def credit_msg_def)

lemma said_grow: "said_ok f m \<Longrightarrow> grants_grow f g \<Longrightarrow> said_ok g m"
  unfolding said_ok_def
proof (elim exE conjE)
  fix x assume "decode_control m = Inr x" and "granted_msg f x" and "grants_grow f g"
  then show "\<exists>x. decode_control m = Inr x \<and> granted_msg g x"
    by (intro exI [of _ x]) (cases x; auto simp: grants_grow_def)
qed

definition speech_ok :: "WebrtcConn \<Rightarrow> bool" where
  "speech_ok c \<longleftrightarrow> conn_inv c \<and> tally_ok (conn_flow c) (conn_streams c)
     \<and> list_all (said_ok (conn_flow c)) (control_out c)
     \<and> count_list (tasks c) TkHello + count_list (control_out c) greeting \<le> of_bool (hello_sent c)"

lemma sends_said:
  assumes "conn_inv c" and "tally_ok (conn_flow c) (conn_streams c)"
  shows "list_all (said_ok (conn_flow c)) (sends c e)"
proof -
  have lim: "local_limits (conn_flow c) = DEFAULT_FLOW_LIMITS" using assms(1) by (simp add: conn_inv_def hello_ok_def)
  have adv: "list_all (credit_msg (conn_flow c)) (advert_tx (conn_flow c))"
    using assms(2) by (simp add: tally_ok_def adverts_ok_def)
  show ?thesis
  proof (cases "advert_tx (conn_flow c)")
    case Nil
    then show ?thesis by (cases e) (simp_all add: lim)
  next
    case (Cons m rest)
    with adv have "said_ok (conn_flow c) m" by simp
    with Cons show ?thesis by (cases e) (simp_all add: lim)
  qed
qed

lemma sends_greeting:
  assumes "tally_ok (conn_flow c) (conn_streams c)" and "\<forall>ok. e \<noteq> CvHelloSent ok"
  shows "count_list (sends c e) greeting = 0"
proof (cases e)
  case (CvAdvert ready b)
  show ?thesis
  proof (cases "advert_tx (conn_flow c)")
    case (Cons m rest)
    then have "credit_msg (conn_flow c) m" using assms(1) by (simp add: tally_ok_def adverts_ok_def)
    from credit_msg_not [OF this] Cons CvAdvert show ?thesis by simp
  qed (use CvAdvert in simp)
qed (use assms(2) in \<open>auto simp: greeting_not\<close>)

lemma one_greeting:
  assumes "conn_inv c" and "tally_ok (conn_flow c) (conn_streams c)" and "conn_guard c e"
    and "count_list (tasks c) TkHello + count_list (control_out c) greeting \<le> of_bool (hello_sent c)"
  shows "count_list (tasks (conn_step c e)) TkHello + count_list (control_out (conn_step c e)) greeting
    \<le> of_bool (hello_sent (conn_step c e))"
proof (cases "\<exists>ok. e = CvHelloSent ok")
  case True
  then obtain b where e: "e = CvHelloSent b" by blast
  have "count_list (sends c e) greeting \<le> 1" by (simp add: e)
  with hello_balance [OF assms(3)] assms(4) e show ?thesis
    unfolding control_out_step by (cases "hello_sent c") (simp_all add: ex_bool_eq del: conn_step.simps sends.simps)
next
  case False
  then have "count_list (sends c e) greeting = 0" using sends_greeting [OF assms(2)] by blast
  with hello_balance [OF assms(3)] assms(4) False show ?thesis
    unfolding control_out_step by (simp del: conn_step.simps sends.simps)
qed

lemma speech_step:
  assumes "speech_ok c" and "conn_guard c e"
  shows "speech_ok (conn_step c e)"
proof -
  have inv: "conn_inv c" and tally: "tally_ok (conn_flow c) (conn_streams c)"
    and said: "list_all (said_ok (conn_flow c)) (control_out c)"
    using assms(1) by (simp_all add: speech_ok_def)
  note t = tally_effect [OF conn_step_effect [OF inv assms(2)] inv tally]
  have "list_all (said_ok (conn_flow c)) (control_out c @ sends c e)"
    using said sends_said [OF inv tally, of e] by simp
  then have "list_all (said_ok (conn_flow (conn_step c e))) (control_out (conn_step c e))"
    unfolding control_out_step using t by (auto simp: list.pred_set intro: said_grow)
  with t conn_step_inv [OF inv assms(2)] one_greeting [OF inv tally assms(2)] assms(1) show ?thesis
    by (simp add: speech_ok_def del: conn_step.simps)
qed

interpretation speech: machine conn_step conn_guard speech_ok
  by unfold_locales (rule speech_step)

lemma reachable_speech: "conn_reachable c \<Longrightarrow> speech_ok c"
proof -
  have "speech_ok (WebrtcConn_new a)" for a
    using conn_new_inv [of a]
    by (simp add: speech_ok_def) (simp add: WebrtcConn_new_def ConnFlow_new_def tally_ok_def adverts_ok_def)
  then show "conn_reachable c \<Longrightarrow> speech_ok c" unfolding conn_reachable_def by (blast intro: speech.run_inv)
qed

section \<open>The property\<close>

text \<open>
  C7: Everything a connection sends is well formed, whatever its peer does: each message on its
  control channel decodes, the HELLO is sent once at most, with this wire version and the
  default limits, and a credit message grants no more than the connection enforces; each frame on a stream's
  channel parses and fits a WebRTC message, and after a FIN or a RESET of a stream come no
  data and no second end.
\<close>

theorem speech_well_formed:
  assumes "conn_reachable c"
  shows "(\<forall>m\<in>set (control_out c). \<exists>x. decode_control m = Inr x \<and> granted_msg (conn_flow c) x)
     \<and> count_list (control_out c) greeting \<le> 1
     \<and> (\<forall>i s. conn_streams c i = Some s \<longrightarrow>
          (\<forall>fr\<in>set (wire_out s). (\<exists>f. parse_frame fr = Inr f) \<and> length fr \<le> MAX_WEBRTC_FRAME_SIZE)
          \<and> wire_ok False (wire_out s))"
proof -
  have sp: "speech_ok c" using assms by (rule reachable_speech)
  then have inv: "conn_inv c" by (simp add: speech_ok_def)
  have frames: "(\<exists>f. parse_frame fr = Inr f) \<and> length fr \<le> MAX_WEBRTC_FRAME_SIZE"
    if "conn_streams c i = Some s" "fr \<in> set (wire_out s)" for i s fr
  proof -
    have "end_inv (load c s)" using conn_inv_load(2) [OF inv that(1)] .
    then have "list_all (\<lambda>fr. \<exists>f. parse_frame fr = Inr f) (wire_out s)"
      using end_invD(6) [of "load c s"] by (simp add: sender_ok_def)
    with that(2) show ?thesis using parsed_frame_size by (auto simp: list_all_iff)
  qed
  moreover have "wire_ok False (wire_out s)" if "conn_streams c i = Some s" for i s
    using out_okD(5) [OF end_invD(4) [OF conn_inv_load(2) [OF inv that]]] by simp
  moreover have "\<forall>m\<in>set (control_out c). said_ok (conn_flow c) m" using sp by (simp add: speech_ok_def list_all_iff)
  moreover have "count_list (control_out c) greeting \<le> 1"
    using sp by (cases "hello_sent c") (simp_all add: speech_ok_def)
  ultimately show ?thesis unfolding said_ok_def by blast
qed

definition answered :: WebrtcConn where
  "answered = foldl conn_step visited
     [CvStream 1 SvWriterStart, CvStream 1 (SvWrite 7 [1, 2] (Ready (Inr ())) True), CvStream 1 SvWriterSelect,
      CvStream 1 (SvWriterBuffer 0), CvStream 1 SvWriterTransmit]"

lemmas answered_eval = visited_value greeted_value fresh_conn_def WebrtcConn_new_def stream_event_def load_def
  put_conn_stream_def guest_eval

lemma answered_facts: "conn_reachable answered" "control_out answered = [greeting]"
  "\<exists>s. conn_streams answered 1 = Some s \<and> wire_out s = [[0, 1, 2]]"
proof -
  show "conn_reachable answered"
    unfolding answered_def by (rule conn_reachable_run [OF visited_reachable]) (simp add: answered_eval)
  show "control_out answered = [greeting]" "\<exists>s. conn_streams answered 1 = Some s \<and> wire_out s = [[0, 1, 2]]"
    by (simp_all add: answered_def answered_eval)
qed

theorem speech_well_formed_witness:
  "(\<exists>x. decode_control greeting = Inr x \<and> granted_msg (conn_flow answered) x) \<and> (\<exists>f. parse_frame [0, 1, 2] = Inr f)"
proof -
  have "greeting \<in> set (control_out answered)" using answered_facts(2) by simp
  moreover obtain s where "conn_streams answered 1 = Some s" "[0, 1, 2] \<in> set (wire_out s)"
    using answered_facts(3) by force
  ultimately show ?thesis using speech_well_formed [OF answered_facts(1)] by blast
qed

end
