(* ===== verification/KpsConnNew.thy ===== *)
theory KpsConnNew
  imports KpsServe KpsConnSpeech
begin

text \<open>
  \<open>WebrtcConn::new\<close> of \<open>src/libs/rust/kps/src/conn.rs\<close>: the two reserved channels it creates, the
  callbacks it registers on them and on the PeerConnection, and what it spawns.
\<close>

section \<open>The reserved channels\<close>

text \<open>\<open>RTCDataChannelInit\<close>, as far as the code sets it.\<close>

record ChannelInit =
  ci_negotiated :: "u16 option"
  ci_ordered :: "bool option"
  ci_max_retransmits :: "u16 option"

definition channel_default :: ChannelInit where
  "channel_default = \<lparr>ci_negotiated = None, ci_ordered = None, ci_max_retransmits = None\<rparr>"

definition datagram_init :: ChannelInit where
  "datagram_init = \<lparr>ci_negotiated = Some 1, ci_ordered = Some False, ci_max_retransmits = Some 0\<rparr>"

definition control_init :: ChannelInit where
  "control_init = channel_default\<lparr>ci_negotiated := Some 0\<rparr>"

text \<open>
  What a PeerConnection answers to \<open>create_data_channel\<close>. The dialer brings its control channel;
  the listener passes none, and one is created here.
\<close>

definition conn_new :: "(string \<Rightarrow> ChannelInit \<Rightarrow> string + 'd) \<Rightarrow> 'd option \<Rightarrow> SocketAddr \<Rightarrow> Error + WebrtcConn \<times> 'd \<times> 'd" where
  "conn_new create given addr =
     and_then (map_error (transport_error ''datagram channel'') (create ''_kps_datagrams'' datagram_init)) (\<lambda>dg.
     and_then (case given of
                 Some c \<Rightarrow> Inr c
               | None \<Rightarrow> map_error (transport_error ''control channel'') (create ''_kps_control'' control_init)) (\<lambda>control.
     Inr (WebrtcConn_new addr, dg, control)))"

text \<open>\<open>dial_webrtc\<close> creates the control channel before it calls \<open>new\<close>.\<close>

definition dial_conn :: "(string \<Rightarrow> ChannelInit \<Rightarrow> string + 'd) \<Rightarrow> SocketAddr \<Rightarrow> Error + WebrtcConn \<times> 'd \<times> 'd" where
  "dial_conn create addr =
     and_then (dial_error ''control channel: '' (create ''_kps_control'' control_init)) (\<lambda>control.
     conn_new create (Some control) addr)"

section \<open>The callbacks\<close>

text \<open>What the channels and the PeerConnection call.\<close>

datatype callback =
    CbControlOpen
  | CbControlMessage bytes
  | CbControlClose pc_state
  | CbDatagramMessage bytes
  | CbDatagramClose pc_state
  | CbDataChannel dc_state

fun on_callback :: "callback \<Rightarrow> WebrtcConn \<Rightarrow> WebrtcConn" where
  "on_callback CbControlOpen c = send_hello c"
| "on_callback (CbControlMessage data) c = on_control data c"
| "on_callback (CbControlClose st) c = reserved_channel_lost ''control'' st c"
| "on_callback (CbDatagramMessage data) c = on_datagram data c"
| "on_callback (CbDatagramClose st) c = reserved_channel_lost ''datagram'' st c"
| "on_callback (CbDataChannel ready) c = handle_incoming ready c"

fun callback_event :: "callback \<Rightarrow> conn_ev" where
  "callback_event CbControlOpen = CvControlOpen"
| "callback_event (CbControlMessage data) = CvControl data"
| "callback_event (CbControlClose st) = CvReservedLost ''control'' st"
| "callback_event (CbDatagramMessage data) = CvDatagram data"
| "callback_event (CbDatagramClose st) = CvReservedLost ''datagram'' st"
| "callback_event (CbDataChannel ready) = CvIncoming ready"

text \<open>
  A control channel that is open already may have fired its \<open>on_open\<close> before the registration:
  a task is spawned that runs the same function.
\<close>

definition greet_if_open :: "dc_state \<Rightarrow> callback list" where
  "greet_if_open ready = (if ready = DcOpen then [CbControlOpen] else [])"

lemma callback_step: "on_callback cb c = conn_step c (callback_event cb)"
  by (cases cb) simp_all

section \<open>Both ends\<close>

text \<open>
  The two sides create the same two channels without a negotiation: a stack that answers by
  label and parameters gives each side its control channel for one pair and its datagram
  channel for another, and the ids differ.
\<close>

lemma reserved_channels:
  assumes "conn_new create None a = Inr (c, dg, control)"
  shows "create ''_kps_datagrams'' datagram_init = Inr dg" "create ''_kps_control'' control_init = Inr control"
    "dial_conn create b = Inr (WebrtcConn_new b, dg, control)" "ci_negotiated datagram_init \<noteq> ci_negotiated control_init"
  using assms
  by (auto simp: conn_new_def dial_conn_def dial_error_def datagram_init_def control_init_def split: sum.splits)

text \<open>The spawned task and the callback may both run: the HELLO goes out once all the same.\<close>

lemma greets_once:
  assumes "conn_reachable c"
  shows "send_hello (send_hello c) = send_hello c" and "count_list (control_out c) greeting \<le> 1"
proof -
  show "send_hello (send_hello c) = send_hello c" by (simp add: send_hello_def spawn_def)
  have "count_list (tasks c) TkHello + count_list (control_out c) greeting \<le> of_bool (hello_sent c)"
    using reachable_speech [OF assms] by (simp add: speech_ok_def)
  then show "count_list (control_out c) greeting \<le> 1" by (cases "hello_sent c") simp_all
qed

lemma new_reachable:
  assumes "conn_new create given a = Inr (c, dg, control)"
  shows "conn_reachable c"
proof -
  have "c = WebrtcConn_new a" using assms by (simp add: conn_new_def split: sum.splits option.splits)
  then show ?thesis unfolding conn_reachable_def by (metis foldl_Nil legal.simps(1))
qed

end
