(* ===== verification/KpsConnLimbo.thy ===== *)
theory KpsConnLimbo
  imports KpsConnRaces
begin

text \<open>
  A connection is never stuck between open and closed: before its HELLO exchange the watcher's
  timeout is armed, and a teardown that has begun is carried on by one of its tasks. A caller
  who drops the future of a close breaks this.
\<close>

section \<open>Who carries a teardown on\<close>

fun closing_task :: "conn_task \<Rightarrow> bool" where
  "closing_task (TkFatal code) = True"
| "closing_task (TkFatalSent code) = True"
| "closing_task (TkClose code) = True"
| "closing_task (TkCloseSent code) = True"
| "closing_task _ = False"

definition carried :: "WebrtcConn \<Rightarrow> bool" where
  "carried c \<longleftrightarrow> cs_closed c \<or> (\<exists>t\<in>set (tasks c). closing_task t)"

text \<open>
  Three parts: the watcher goes on to wait for the close only after the establishment; it
  ends, without a close, only with a teardown; a teardown is carried on.
\<close>

definition limbo_ok :: "WebrtcConn \<Rightarrow> bool" where
  "limbo_ok c \<longleftrightarrow>
     (watcher c = WatchClose \<longrightarrow> established c)
     \<and> (watcher c = WatchDone \<longrightarrow> cs_closed c \<or> tearing_down c)
     \<and> (tearing_down c \<longrightarrow> carried c)"

definition kept_guard :: "WebrtcConn \<Rightarrow> conn_ev \<Rightarrow> bool" where
  "kept_guard c e \<longleftrightarrow> conn_guard c e \<and> (\<forall>t. e = CvAbandon t \<longrightarrow> \<not> close_call t)"

lemma limbo_frame [simp]:
  "limbo_ok (c\<lparr>control_out := x1\<rparr>) = limbo_ok c" "limbo_ok (c\<lparr>conn_flow := x2\<rparr>) = limbo_ok c"
  "limbo_ok (c\<lparr>dg_rx := x3\<rparr>) = limbo_ok c" "limbo_ok (c\<lparr>hello_sent := x4\<rparr>) = limbo_ok c"
  "limbo_ok (c\<lparr>hello_received := x5\<rparr>) = limbo_ok c" "limbo_ok (c\<lparr>inc_queue := x6\<rparr>) = limbo_ok c"
  "limbo_ok (c\<lparr>inc_staged := x7\<rparr>) = limbo_ok c" "limbo_ok (c\<lparr>control_writer_live := x8\<rparr>) = limbo_ok c"
  "limbo_ok (c\<lparr>handed_out := x9\<rparr>) = limbo_ok c" "limbo_ok (c\<lparr>stream_seq := x10\<rparr>) = limbo_ok c"
  "limbo_ok (c\<lparr>conn_streams := x11\<rparr>) = limbo_ok c" "limbo_ok (c\<lparr>inc_notified := x12\<rparr>) = limbo_ok c"
  "limbo_ok (c\<lparr>pc_close_calls := x13\<rparr>) = limbo_ok c"
  by (simp_all add: limbo_ok_def carried_def)

lemma limbo_helpers [simp]:
  "limbo_ok (control_send m ok c) = limbo_ok c" "limbo_ok (pc_close c) = limbo_ok c" "limbo_ok (hand_out i c) = limbo_ok c"
  "limbo_ok (on_flow_conn g c) = limbo_ok c" "limbo_ok (put_conn_stream s c) = limbo_ok c"
  by (simp_all add: control_send_def pc_close_def hand_out_def on_flow_conn_def put_conn_stream_def)

lemma limbo_moves [simp]:
  "limbo_ok c \<Longrightarrow> limbo_ok (spawn t c)" "limbo_ok c \<Longrightarrow> limbo_ok (mark err c)" "limbo_ok c \<Longrightarrow> limbo_ok (fatal code msg c)"
  "limbo_ok c \<Longrightarrow> limbo_ok (check_and_flush c)"
  by (auto simp: limbo_ok_def carried_def spawn_def mark_def mark_swap_def mark_store_def fatal_def check_and_flush_def
      hello_check_def flush_staged_def)

lemma limbo_finish [simp]: "limbo_ok c \<Longrightarrow> \<not> closing_task t \<Longrightarrow> limbo_ok (finish_task t c)"
proof -
  have "closing_task u \<Longrightarrow> \<not> closing_task t \<Longrightarrow> u \<in> set ts \<Longrightarrow> u \<in> set (remove1 t ts)" for u ts
    by (metis in_set_remove1)
  then show "limbo_ok c \<Longrightarrow> \<not> closing_task t \<Longrightarrow> limbo_ok (finish_task t c)"
    unfolding limbo_ok_def carried_def finish_task_def by auto
qed

lemma limbo_closed: "watcher d = WatchClose \<longrightarrow> established d \<Longrightarrow> cs_closed d \<Longrightarrow> limbo_ok d"
  by (simp add: limbo_ok_def carried_def)

lemma marked_closed [simp]:
  "cs_closed (mark err c)" "watcher (mark err c) = watcher c" "established (mark err c) = established c"
  by (simp_all add: mark_def mark_swap_def mark_store_def)

lemma limbo_fatals [simp]: "limbo_ok c \<Longrightarrow> limbo_ok (fatals calls c)"
  by (induction calls c rule: fatals.induct) simp_all

lemma limbo_stream [simp]: "limbo_ok c \<Longrightarrow> limbo_ok (stream_event i e c)"
  by (simp add: stream_event_def Let_def split: option.split)

lemma limbo_mark_torn [simp]: "limbo_ok c \<Longrightarrow> limbo_ok (mark err (c\<lparr>tearing_down := True\<rparr>))"
  by (rule limbo_closed) (simp_all add: limbo_ok_def)

text \<open>The tasks that end a connection, and the events that start a teardown.\<close>

lemma limbo_endings [simp]:
  assumes "limbo_ok c"
  shows "limbo_ok (fatal_send code ready ok c)" "limbo_ok (fatal_finish code c)" "limbo_ok (unsupported_finish ok c)"
    "limbo_ok (close_begin code c)" "limbo_ok (send_close_and_flush code op ok c)" "limbo_ok (snd (close_finish code r c))"
    "limbo_ok (reserved_channel_lost which st c)"
proof -
  have w: "watcher c = WatchClose \<longrightarrow> established c" "watcher c = WatchDone \<longrightarrow> cs_closed c \<or> tearing_down c"
    using assms by (simp_all add: limbo_ok_def)
  show "limbo_ok (fatal_send code ready ok c)" "limbo_ok (send_close_and_flush code op ok c)" "limbo_ok (close_begin code c)"
    using w by (simp_all add: fatal_send_def send_close_and_flush_def close_begin_def spawn_def control_send_def finish_task_def)
      (simp_all add: limbo_ok_def carried_def)
  have m: "limbo_ok (mark err (finish_task t c))" "limbo_ok (mark err ((control_send m ok (finish_task t c))\<lparr>tearing_down := True\<rparr>))"
    for err t m ok
    using w by (intro limbo_closed; simp add: control_send_def finish_task_def)+
  then show "limbo_ok (fatal_finish code c)" "limbo_ok (unsupported_finish ok c)" "limbo_ok (snd (close_finish code r c))"
    by (simp_all add: fatal_finish_def unsupported_finish_def close_finish_def)
  show "limbo_ok (reserved_channel_lost which st c)"
    using assms by (simp add: reserved_channel_lost_def)
qed

lemma limbo_watch:
  assumes "limbo_ok c" and "watch_ready c b"
  shows "limbo_ok (watch_step b c)"
proof (cases b)
  case BrTimeout
  with assms show ?thesis
    by (auto simp: watch_step_def watch_ready_def fatal_def spawn_def limbo_ok_def carried_def split: watch.splits)
qed (use assms in \<open>auto simp: watch_step_def watch_ready_def on_flow_conn_def limbo_ok_def carried_def split: watch.splits\<close>)

lemma limbo_step:
  assumes "limbo_ok c" and "kept_guard c e"
  shows "limbo_ok (conn_step c e)"
proof (cases e)
  case (CvWatch b)
  with assms limbo_watch show ?thesis by (simp add: kept_guard_def)
next
  case (CvAbandon t)
  with assms have "\<not> closing_task t" by (cases t) (simp_all add: kept_guard_def)
  with CvAbandon assms(1) show ?thesis by (cases t) (simp_all add: call_abandon_def)
qed (use assms(1) in \<open>simp_all add: send_hello_def send_hello_finish_def on_control_def on_hello_def handle_incoming_def
       new_conn_stream_def surface_def inc_push_def inc_stage_def accept_stream_def inc_pop_def
       open_begin_def open_established_def open_slot_def open_channel_def open_ready_def control_writer_def
       on_datagram_def receive_datagram_def Let_def
       split: option.split list.split sum.split poll.split prod.split ControlMsg.split\<close>)

interpretation limbo: machine conn_step kept_guard limbo_ok
  by unfold_locales (rule limbo_step)

section \<open>The property\<close>

text \<open>The steps of a connection's own tasks that end it.\<close>

fun ending_step :: "conn_ev \<Rightarrow> bool" where
  "ending_step (CvWatch b) = True"
| "ending_step (CvFatalSend code ready ok) = True"
| "ending_step (CvFatalFinish code) = True"
| "ending_step (CvCloseSend code op ok) = True"
| "ending_step (CvCloseFinish code r) = True"
| "ending_step _ = False"

definition ends_within :: "nat \<Rightarrow> WebrtcConn \<Rightarrow> bool" where
  "ends_within n c \<longleftrightarrow>
     (\<exists>es. length es \<le> n \<and> list_all ending_step es \<and> legal conn_step conn_guard c es \<and> cs_closed (foldl conn_step c es))"

lemma ends_by:
  "length es \<le> n \<Longrightarrow> list_all ending_step es \<Longrightarrow> legal conn_step conn_guard c es \<Longrightarrow> cs_closed (foldl conn_step c es)
    \<Longrightarrow> ends_within n c"
  unfolding ends_within_def by blast

lemma task_ends:
  assumes "t \<in> set (tasks c)" and "closing_task t"
  shows "ends_within 2 c"
proof (cases t)
  case (TkFatal code)
  with assms(1) show ?thesis
    by (intro ends_by [of "[CvFatalSend code DcOpen True, CvFatalFinish code]"])
       (simp_all add: fatal_send_def fatal_finish_def spawn_def pc_close_def)
next
  case (TkFatalSent code)
  with assms(1) show ?thesis
    by (intro ends_by [of "[CvFatalFinish code]"]) (simp_all add: fatal_finish_def pc_close_def)
next
  case (TkClose code)
  with assms(1) show ?thesis
    by (intro ends_by [of "[CvCloseSend code True True, CvCloseFinish code (Inr ())]"])
       (simp_all add: send_close_and_flush_def close_finish_def spawn_def pc_close_def)
next
  case (TkCloseSent code)
  with assms(1) show ?thesis
    by (intro ends_by [of "[CvCloseFinish code (Inr ())]"]) (simp_all add: close_finish_def pc_close_def)
qed (use assms(2) in simp_all)

lemma timeout_ends:
  assumes "watcher c = WatchHello" and "\<not> tearing_down c"
  shows "ends_within 3 c"
  using assms
  by (intro ends_by [of "[CvWatch BrTimeout, CvFatalSend EcTimeout DcOpen True, CvFatalFinish EcTimeout]"])
     (simp_all add: watch_ready_def watch_step_def fatal_def fatal_send_def fatal_finish_def spawn_def pc_close_def)

text \<open>
  C12: A connection is never stuck half open: over every run in which no caller drops the future
  of a close, a connection is open for its application (established, with no teardown begun),
  or closed, or its own tasks close it, in at most three steps, each of which can be taken
  now: the watcher's timeout before the HELLO exchange, the task of a fatal error, the close.
\<close>

theorem no_limbo:
  assumes "legal conn_step kept_guard (WebrtcConn_new a) es" and "c = foldl conn_step (WebrtcConn_new a) es"
  shows "(established c \<and> \<not> tearing_down c) \<or> cs_closed c \<or> ends_within 3 c"
proof -
  have "limbo_ok (WebrtcConn_new a)" by (simp add: WebrtcConn_new_def limbo_ok_def)
  then have ok: "limbo_ok c" using limbo.run_inv [OF _ assms(1)] assms(2) by blast
  have more: "ends_within 2 c \<Longrightarrow> ends_within 3 c" unfolding ends_within_def by (meson le_trans numeral_le_iff semiring_norm(69,72) order_refl)
  show ?thesis
  proof (cases "tearing_down c")
    case True
    with ok have "carried c" by (simp add: limbo_ok_def)
    with task_ends more show ?thesis by (auto simp: carried_def)
  next
    case False
    with ok timeout_ends [of c] show ?thesis by (cases "watcher c") (auto simp: limbo_ok_def)
  qed
qed

definition rejecting :: WebrtcConn where
  "rejecting = foldl conn_step (WebrtcConn_new here) [CvControlOpen, CvControl []]"

theorem no_limbo_witness:
  "\<not> established rejecting \<and> \<not> cs_closed rejecting \<and> ends_within 3 rejecting"
proof -
  have "legal conn_step kept_guard (WebrtcConn_new here) [CvControlOpen, CvControl []]" by (simp add: kept_guard_def)
  from no_limbo [OF this, of rejecting] have "(established rejecting \<and> \<not> tearing_down rejecting) \<or> cs_closed rejecting \<or> ends_within 3 rejecting"
    by (simp add: rejecting_def)
  moreover have "\<not> established rejecting" "\<not> cs_closed rejecting"
    by (simp_all add: rejecting_def WebrtcConn_new_def send_hello_def on_control_def decode_control_def fatal_def spawn_def)
  ultimately show ?thesis by blast
qed

section \<open>A close whose future is dropped\<close>

text \<open>
  The caller of \<open>close\<close> gives up while it waits (a timeout, as \<open>api.rs\<close> proposes): the flag of
  the teardown stays set, nothing marks the connection, and from then on a fatal error is
  reported to nobody.
\<close>

lemma abandoned_close_mutes:
  assumes "\<not> cs_closed c" and "tasks c = []" and "t = TkClose code \<or> t = TkCloseSent code"
    and "d = foldl conn_step c (if t = TkClose code then [CvClose code, CvAbandon t] else [CvClose code, CvCloseSend code op ok, CvAbandon t])"
  shows "\<not> cs_closed d" and "tasks d = []" and "tearing_down d" and "fatal code' msg d = d" and "reserved_channel_lost which st d = d"
proof -
  have d: "\<not> cs_closed d \<and> tasks d = [] \<and> tearing_down d"
    using assms by (auto simp: close_begin_def send_close_and_flush_def call_abandon_def spawn_def finish_task_def control_send_def)
  then show "\<not> cs_closed d" "tasks d = []" "tearing_down d" "fatal code' msg d = d" "reserved_channel_lost which st d = d"
    by (simp_all add: fatal_def reserved_channel_lost_def)
qed

end
