(* ===== verification/KpsCloseWait.thy ===== *)
theory KpsCloseWait
  imports KpsConnLimbo
begin

text \<open>
  The two waits of \<open>send_close_and_flush\<close> (\<open>src/libs/rust/kps/src/conn.rs\<close>): for the control
  channel to open, and for its buffer to drain. Each is a loop that looks, compares the clock
  with its deadline and sleeps; the looks are an argument.
\<close>

section \<open>The loops\<close>

text \<open>
  What a turn of the loop sees: whether to go on waiting, and the clock in milliseconds. The
  value is the number of sleeps, \<open>None\<close> while the loop still waits after all the looks.
\<close>

fun wait_while :: "nat \<Rightarrow> (bool \<times> nat) list \<Rightarrow> nat option" where
  "wait_while deadline [] = None"
| "wait_while deadline ((busy, now) # looks) =
     (if busy \<and> now < deadline then map_option Suc (wait_while deadline looks) else Some 0)"

definition POLL_SLEEP :: nat where
  "POLL_SLEEP = 5"

definition CLOSE_WAIT :: nat where
  "CLOSE_WAIT = 250"

text \<open>
  Both loops: \<open>start\<close> is the clock when the function was called, \<open>state\<close> the channel after the
  first loop, \<open>sent\<close> the clock after the send.
\<close>

definition close_sleeps :: "nat \<Rightarrow> (bool \<times> nat) list \<Rightarrow> dc_state \<Rightarrow> nat \<Rightarrow> (bool \<times> nat) list \<Rightarrow> nat option" where
  "close_sleeps start opens state sent drains =
     (case wait_while (start + CLOSE_WAIT) opens of
        None \<Rightarrow> None
      | Some n \<Rightarrow>
          if state = DcOpen then map_option (\<lambda>k. n + k) (wait_while (sent + CLOSE_WAIT) drains) else Some n)"

section \<open>Close is prompt\<close>

text \<open>A sleep lasts at least its time: the clock at the k-th look.\<close>

definition sleeps_last :: "nat \<Rightarrow> (bool \<times> nat) list \<Rightarrow> bool" where
  "sleeps_last start looks \<longleftrightarrow> (\<forall>k < length looks. start + k * POLL_SLEEP \<le> snd (looks ! k))"

lemma sleeps_last_Cons:
  "sleeps_last start ((busy, now) # looks) \<longleftrightarrow> start \<le> now \<and> sleeps_last (start + POLL_SLEEP) looks"
  by (auto simp: sleeps_last_def All_less_Suc2 algebra_simps)

lemma wait_while_ends:
  assumes "sleeps_last start looks" and "n < length looks" and "deadline \<le> start + n * POLL_SLEEP"
  shows "\<exists>k \<le> n. wait_while deadline looks = Some k"
  using assms
proof (induction n arbitrary: start looks)
  case 0
  then show ?case by (cases looks) (auto simp: sleeps_last_Cons)
next
  case (Suc n)
  then obtain busy now rest where l: "looks = (busy, now) # rest" by (cases looks) auto
  show ?case
  proof (cases "busy \<and> now < deadline")
    case True
    have "\<exists>k \<le> n. wait_while deadline rest = Some k"
      using Suc.prems by (intro Suc.IH [of "start + POLL_SLEEP"]) (simp_all add: l sleeps_last_Cons)
    with True show ?thesis by (auto simp: l)
  next
    case False
    then show ?thesis by (auto simp: l)
  qed
qed

text \<open>Whatever the channel does, the loops end, after fifty sleeps each at the most.\<close>

theorem close_prompt:
  assumes "sleeps_last start opens" and "sleeps_last sent drains" and "50 < length opens" and "50 < length drains"
  shows "\<exists>n \<le> 100. close_sleeps start opens state sent drains = Some n"
proof -
  obtain a where a: "a \<le> 50" "wait_while (start + CLOSE_WAIT) opens = Some a"
    using wait_while_ends [OF assms(1,3)] by (auto simp: POLL_SLEEP_def CLOSE_WAIT_def)
  obtain b where b: "b \<le> 50" "wait_while (sent + CLOSE_WAIT) drains = Some b"
    using wait_while_ends [OF assms(2,4)] by (auto simp: POLL_SLEEP_def CLOSE_WAIT_def)
  from a b show ?thesis by (simp add: close_sleeps_def)
qed

text \<open>The first loop goes on while the channel is \<open>Connecting\<close>: it ends early only when it is not.\<close>

lemma wait_while_early:
  assumes "wait_while deadline looks = Some n"
  shows "n < length looks \<and> (\<forall>k < n. fst (looks ! k) \<and> snd (looks ! k) < deadline)
    \<and> (\<not> fst (looks ! n) \<or> deadline \<le> snd (looks ! n))"
  using assms
proof (induction deadline looks arbitrary: n rule: wait_while.induct)
  case (2 deadline busy now looks)
  then show ?case by (cases n) (auto simp: less_Suc_eq_0_disj split: if_splits)
qed simp

end
