(* ===== verification/KpsServer.thy ===== *)
theory KpsServer
  imports KpsListenerProps KpsConnClose KpsDialer
begin

text \<open>
  A listener together with its WebRTC connections: the pump creates them (\<open>spawn_pc\<close> of
  \<open>src/libs/rust/kps/src/listener.rs\<close>), the state callback of a PeerConnection takes its
  connection out of the slot and waits for its establishment (\<open>wait_established\<close> of \<open>conn.rs\<close>),
  and only then it goes to the accept queue. The listener and every connection are the
  machines of their own theories, so what holds of them holds here.
\<close>

section \<open>The server as a machine\<close>

record Server =
  sv_listener :: Listener
  sv_conns :: "nat \<rightharpoonup> WebrtcConn"

text \<open>
  A step of the listener that touches no connection; \<open>WebrtcConn::new\<close> in \<open>spawn_pc\<close>, and the
  registration of the callback after it; a step of a connection; a call of the state callback;
  the task that it spawned, with the branch that its \<open>select!\<close> takes when both are ready.
\<close>

datatype server_ev =
    SsListener listener_ev
  | SsCreate
  | SsRegister
  | SsConn nat conn_ev
  | SsChange nat pc_change
  | SsSurface nat bool

fun alone :: "listener_ev \<Rightarrow> bool" where
  "alone LvRegister = False"
| "alone (LvChange i ch) = False"
| "alone (LvSurface i ok) = False"
| "alone _ = True"

definition create_conn :: "Server \<Rightarrow> Server" where
  "create_conn v =
     (case pump (sv_listener v) of
        PumpSpawn u i pkt from \<Rightarrow> v\<lparr>sv_conns := (sv_conns v)(i \<mapsto> WebrtcConn_new from)\<rparr>
      | _ \<Rightarrow> v)"

definition state_callback :: "nat \<Rightarrow> pc_change \<Rightarrow> Server \<Rightarrow> Server" where
  "state_callback i change v =
     (let v1 = v\<lparr>sv_listener := pc_state_change i change (sv_listener v)\<rparr>
      in if pcs (sv_listener v) i \<noteq> None \<and> (change = ChClosed \<or> change = ChFailed)
         then v1\<lparr>sv_conns := (sv_conns v)(i := map_option (mark None) (sv_conns v i))\<rparr> else v1)"

definition surface_conn :: "nat \<Rightarrow> bool \<Rightarrow> Server \<Rightarrow> Server" where
  "surface_conn i hello_first v =
     (case sv_conns v i of
        None \<Rightarrow> v
      | Some c \<Rightarrow>
          (case wait_established hello_first c of
             Pending \<Rightarrow> v
           | Ready r \<Rightarrow> v\<lparr>sv_listener := pc_surface i (r = Inr ()) (sv_listener v)\<rparr>))"

fun server_step :: "(bytes \<Rightarrow> bool) \<Rightarrow> (bytes \<Rightarrow> bytes option) \<Rightarrow> Server \<Rightarrow> server_ev \<Rightarrow> Server" where
  "server_step m u v (SsListener e) = v\<lparr>sv_listener := listener_step m u (sv_listener v) e\<rparr>"
| "server_step m u v SsCreate = create_conn v"
| "server_step m u v SsRegister = v\<lparr>sv_listener := spawn_register (sv_listener v)\<rparr>"
| "server_step m u v (SsConn i e) = v\<lparr>sv_conns := (sv_conns v)(i := map_option (\<lambda>c. conn_step c e) (sv_conns v i))\<rparr>"
| "server_step m u v (SsChange i ch) = state_callback i ch v"
| "server_step m u v (SsSurface i b) = surface_conn i b v"

definition spawning :: "Listener \<Rightarrow> nat option" where
  "spawning s = (case pump s of PumpSpawn u i pkt a \<Rightarrow> Some i | _ \<Rightarrow> None)"

fun server_guard :: "Server \<Rightarrow> server_ev \<Rightarrow> bool" where
  "server_guard v (SsListener e) \<longleftrightarrow> alone e \<and> listener_guard (sv_listener v) e"
| "server_guard v SsCreate \<longleftrightarrow> (\<forall>i. spawning (sv_listener v) = Some i \<longrightarrow> sv_conns v i = None)"
| "server_guard v SsRegister \<longleftrightarrow>
     (\<forall>i. spawning (sv_listener v) = Some i \<longrightarrow> sv_conns v i \<noteq> None) \<and> listener_guard (sv_listener v) LvRegister"
| "server_guard v (SsConn i e) \<longleftrightarrow> (\<exists>c. sv_conns v i = Some c \<and> conn_guard c e)"
| "server_guard v (SsChange i ch) \<longleftrightarrow> True"
| "server_guard v (SsSurface i b) \<longleftrightarrow>
     (\<exists>c r. sv_conns v i = Some c \<and> wait_established b c = Ready r
        \<and> listener_guard (sv_listener v) (LvSurface i (r = Inr ())))"

section \<open>What a connection keeps\<close>

definition keeps :: "WebrtcConn \<Rightarrow> WebrtcConn \<Rightarrow> bool" where
  "keeps c d \<longleftrightarrow> remote d = remote c \<and> (established c \<longrightarrow> established d)"

lemma keeps_frame [simp]:
  "keeps c (d\<lparr>tasks := x1\<rparr>) = keeps c d" "keeps c (d\<lparr>control_out := x2\<rparr>) = keeps c d"
  "keeps c (d\<lparr>conn_flow := x3\<rparr>) = keeps c d" "keeps c (d\<lparr>tearing_down := x4\<rparr>) = keeps c d"
  "keeps c (d\<lparr>watcher := x5\<rparr>) = keeps c d" "keeps c (d\<lparr>dg_rx := x6\<rparr>) = keeps c d"
  "keeps c (d\<lparr>hello_sent := x7\<rparr>) = keeps c d" "keeps c (d\<lparr>hello_received := x8\<rparr>) = keeps c d"
  "keeps c (d\<lparr>inc_queue := x9\<rparr>) = keeps c d" "keeps c (d\<lparr>inc_staged := x10\<rparr>) = keeps c d"
  "keeps c (d\<lparr>control_writer_live := x11\<rparr>) = keeps c d" "keeps c (d\<lparr>handed_out := x12\<rparr>) = keeps c d"
  "keeps c (d\<lparr>stream_seq := x13\<rparr>) = keeps c d" "keeps c (d\<lparr>conn_streams := x14\<rparr>) = keeps c d"
  "keeps c (d\<lparr>inc_notified := x15\<rparr>) = keeps c d" "keeps c (d\<lparr>pc_close_calls := x16\<rparr>) = keeps c d"
  by (simp_all add: keeps_def)

lemma keeps_helpers [simp]:
  "keeps c c" "keeps c (spawn t d) = keeps c d" "keeps c (finish_task t d) = keeps c d" "keeps c (fatal code msg d) = keeps c d"
  "keeps c (control_send m ok d) = keeps c d" "keeps c (pc_close d) = keeps c d" "keeps c (on_flow_conn g d) = keeps c d"
  "keeps c (put_conn_stream s d) = keeps c d" "keeps c (hand_out i d) = keeps c d" "keeps c (mark err d) = keeps c d"
  "keeps c d \<Longrightarrow> keeps c (check_and_flush d)"
  by (simp_all add: keeps_def spawn_def finish_task_def fatal_def control_send_def pc_close_def on_flow_conn_def put_conn_stream_def
      hand_out_def mark_def mark_swap_def mark_store_def check_and_flush_def hello_check_def flush_staged_def)

lemma keeps_fatals [simp]: "keeps c (fatals calls d) = keeps c d"
  by (induction calls d rule: fatals.induct) simp_all

lemma keeps_stream [simp]: "keeps c (stream_event i e d) = keeps c d"
  by (simp add: stream_event_def Let_def split: option.split)

lemma keeps_step: "keeps c (conn_step c e)"
  by (cases e)
     (simp_all add: conn_defs(2-5) new_conn_stream_def handle_incoming_def surface_def inc_push_def inc_stage_def
       accept_stream_def inc_pop_def fatal_send_def fatal_finish_def watch_step_def open_begin_def
       open_established_def open_slot_def open_channel_def open_ready_def call_abandon_def close_begin_def
       close_finish_def send_close_and_flush_def unsupported_finish_def reserved_channel_lost_def control_writer_def
       on_datagram_def receive_datagram_def Let_def
       split: option.split list.split sum.split poll.split prod.split ControlMsg.split watch.split watch_branch.split
         conn_task.split)

section \<open>The invariant\<close>

text \<open>
  A connection is reachable on its own machine; a registered one has the address of the first
  packet that named its ufrag; what is queued or accepted is established.
\<close>

definition conns_ok :: "nat \<Rightarrow> (nat \<rightharpoonup> WebrtcConn) \<Rightarrow> bool" where
  "conns_ok n K \<longleftrightarrow> (\<forall>i c. K i = Some c \<longrightarrow> conn_reachable c \<and> i < n)"

definition slots_match :: "(SocketAddr \<times> string) list \<Rightarrow> (nat \<rightharpoonup> PcSlot) \<Rightarrow> (nat \<rightharpoonup> WebrtcConn) \<Rightarrow> bool" where
  "slots_match L P K \<longleftrightarrow>
     (\<forall>i p. P i = Some p \<longrightarrow> (\<exists>c. K i = Some c \<and> remote c = ps_remote p) \<and> (ps_remote p, ps_ufrag p) \<in> set L)"

lemma slots_matchD:
  assumes "slots_match L P K" and "P i = Some p" and "K i = Some c"
  shows "remote c = ps_remote p" "(ps_remote p, ps_ufrag p) \<in> set L"
  using assms unfolding slots_match_def by fastforce+

definition accepted_ok :: "accepted set \<Rightarrow> (nat \<rightharpoonup> WebrtcConn) \<Rightarrow> bool" where
  "accepted_ok Q K \<longleftrightarrow> (\<forall>i. AcWebrtc i \<in> Q \<longrightarrow> (\<exists>c. K i = Some c \<and> established c))"

definition spawn_match :: "pump_state \<Rightarrow> (nat \<rightharpoonup> WebrtcConn) \<Rightarrow> bool" where
  "spawn_match w K \<longleftrightarrow> (\<forall>u i pkt a c. w = PumpSpawn u i pkt a \<longrightarrow> K i = Some c \<longrightarrow> remote c = a)"

definition server_inv :: "Server \<Rightarrow> bool" where
  "server_inv v \<longleftrightarrow>
     listener_inv (sv_listener v) \<and> conns_ok (next_pc (sv_listener v)) (sv_conns v)
     \<and> slots_match (stun_seen (sv_listener v)) (pcs (sv_listener v)) (sv_conns v)
     \<and> accepted_ok (set (accepted_conns (sv_listener v) @ accept_queue (sv_listener v))) (sv_conns v)
     \<and> spawn_match (pump (sv_listener v)) (sv_conns v)"

text \<open>What a step of the listener alone leaves as it was.\<close>

lemma alone_step:
  assumes "alone e"
  shows "pcs (listener_step m u s e) = pcs s" "set (stun_seen s) \<subseteq> set (stun_seen (listener_step m u s e))"
    "next_pc s \<le> next_pc (listener_step m u s e)"
    "AcWebrtc i \<in> set (accepted_conns (listener_step m u s e) @ accept_queue (listener_step m u s e)) \<longleftrightarrow>
       AcWebrtc i \<in> set (accepted_conns s @ accept_queue s)"
    "pump (listener_step m u s e) = PumpSpawn f i pkt a \<Longrightarrow> pump s = PumpSpawn f i pkt a \<or> i = next_pc s"
  using assms
  by (cases e;
      auto simp: pump_receive_def pump_receive_failed_def pump_lookup_def pump_spawned_def pump_learn_def pump_shutdown_def
        quic_accepted_def listener_accept_def listener_close_def close_all_def pc_recv_def quic_poll_recv_def
        pc_inbox_dropped_def deliver_quic_def Let_def
        split: pump_state.splits option.splits list.splits prod.splits if_splits)+

text \<open>Connections that move on their own, and connections that come.\<close>

lemma invD:
  assumes "server_inv v"
  shows "listener_inv (sv_listener v)" "conns_ok (next_pc (sv_listener v)) (sv_conns v)"
    "slots_match (stun_seen (sv_listener v)) (pcs (sv_listener v)) (sv_conns v)"
    "accepted_ok (set (accepted_conns (sv_listener v) @ accept_queue (sv_listener v))) (sv_conns v)"
    "spawn_match (pump (sv_listener v)) (sv_conns v)"
  using assms by (simp_all add: server_inv_def)

lemma server_inv_alone:
  assumes "server_inv v" and "alone e" and "listener_guard (sv_listener v) e"
  shows "server_inv (v\<lparr>sv_listener := listener_step m u (sv_listener v) e\<rparr>)"
proof -
  note inv = invD [OF assms(1)]
  note a = alone_step [OF assms(2), where m = m and u = u and s = "sv_listener v"]
  let ?t = "listener_step m u (sv_listener v) e"
  have "listener_inv ?t" using listener_step_inv [OF inv(1) assms(3)] .
  moreover have "conns_ok (next_pc ?t) (sv_conns v)" using inv(2) a(3) by (fastforce simp: conns_ok_def)
  moreover have "slots_match (stun_seen ?t) (pcs ?t) (sv_conns v)" using inv(3) a(1,2) by (auto simp: slots_match_def)
  moreover have "accepted_ok (set (accepted_conns ?t @ accept_queue ?t)) (sv_conns v)"
    using inv(4) a(4) unfolding accepted_ok_def by blast
  moreover have "spawn_match (pump ?t) (sv_conns v)"
    using inv(2,5) a(5) unfolding spawn_match_def conns_ok_def by (metis less_irrefl)
  ultimately show ?thesis by (simp add: server_inv_def)
qed

lemma server_inv_conn:
  assumes "server_inv v" and "sv_conns v i = Some c" and "conn_guard c e"
  shows "server_inv (v\<lparr>sv_conns := (sv_conns v)(i \<mapsto> conn_step c e)\<rparr>)"
proof -
  note inv = invD [OF assms(1)]
  let ?K = "(sv_conns v)(i \<mapsto> conn_step c e)"
  have k: "remote (conn_step c e) = remote c" "established c \<Longrightarrow> established (conn_step c e)"
    using keeps_step [of c e] by (simp_all add: keeps_def)
  have "conn_reachable c" using inv(2) assms(2) by (simp add: conns_ok_def)
  then have "conn_reachable (conn_step c e)" using conn_reachable_run [of c "[e]"] assms(3) by simp
  then have "conns_ok (next_pc (sv_listener v)) ?K" using inv(2) assms(2) by (simp add: conns_ok_def)
  moreover have "slots_match (stun_seen (sv_listener v)) (pcs (sv_listener v)) ?K"
    using inv(3) assms(2) k(1) by (fastforce simp: slots_match_def)
  moreover have "accepted_ok (set (accepted_conns (sv_listener v) @ accept_queue (sv_listener v))) ?K"
    using inv(4) assms(2) k(2) unfolding accepted_ok_def by (metis fun_upd_apply option.inject)
  moreover have "spawn_match (pump (sv_listener v)) ?K"
    using inv(5) assms(2) k(1) by (auto simp: spawn_match_def)
  ultimately show ?thesis using inv(1) by (simp add: server_inv_def)
qed

lemma server_inv_create:
  assumes "server_inv v" and "server_guard v SsCreate"
  shows "server_inv (create_conn v)"
proof (cases "pump (sv_listener v)")
  case (PumpSpawn f i pkt a)
  note inv = invD [OF assms(1)]
  have new: "sv_conns v i = None" using assms(2) PumpSpawn by (simp add: spawning_def)
  have "i < next_pc (sv_listener v)" using inv(1) PumpSpawn by (simp add: listener_inv_def)
  moreover have "conn_reachable (WebrtcConn_new a)" by (rule conn_new_reachable)
  ultimately have "conns_ok (next_pc (sv_listener v)) ((sv_conns v)(i \<mapsto> WebrtcConn_new a))"
    using inv(2) by (simp add: conns_ok_def)
  moreover have "slots_match (stun_seen (sv_listener v)) (pcs (sv_listener v)) ((sv_conns v)(i \<mapsto> WebrtcConn_new a))"
    using inv(3) new by (fastforce simp: slots_match_def)
  moreover have "accepted_ok (set (accepted_conns (sv_listener v) @ accept_queue (sv_listener v))) ((sv_conns v)(i \<mapsto> WebrtcConn_new a))"
    using inv(4) new unfolding accepted_ok_def by (metis fun_upd_apply option.distinct(1))
  moreover have "spawn_match (pump (sv_listener v)) ((sv_conns v)(i \<mapsto> WebrtcConn_new a))"
    using PumpSpawn by (simp add: spawn_match_def WebrtcConn_new_def)
  ultimately show ?thesis using inv(1) PumpSpawn by (simp add: create_conn_def server_inv_def)
qed (use assms(1) in \<open>simp_all add: create_conn_def\<close>)

lemma server_inv_register:
  assumes "server_inv v" and "server_guard v SsRegister"
  shows "server_inv (v\<lparr>sv_listener := spawn_register (sv_listener v)\<rparr>)"
proof (cases "pump (sv_listener v)")
  case (PumpSpawn f i pkt a)
  note inv = invD [OF assms(1)]
  obtain c where c: "sv_conns v i = Some c" using assms(2) PumpSpawn by (auto simp: spawning_def)
  then have "remote c = a" using inv(5) PumpSpawn by (simp add: spawn_match_def)
  moreover have "(a, f) \<in> set (stun_seen (sv_listener v))" using inv(1) PumpSpawn by (simp add: listener_inv_def)
  moreover have "listener_inv (spawn_register (sv_listener v))"
    using listener_step_inv [OF inv(1), of LvRegister] assms(2) by simp
  ultimately show ?thesis
    using inv(2-5) c PumpSpawn by (auto simp: spawn_register_def server_inv_def slots_match_def)
qed (use assms(1) in \<open>simp_all add: spawn_register_def\<close>)

lemma server_inv_change:
  assumes "server_inv v"
  shows "server_inv (state_callback i ch v)"
proof -
  note inv = invD [OF assms]
  let ?t = "pc_state_change i ch (sv_listener v)"
  have same: "next_pc ?t = next_pc (sv_listener v)" "stun_seen ?t = stun_seen (sv_listener v)" "pump ?t = pump (sv_listener v)"
    "accept_queue ?t = accept_queue (sv_listener v)" "accepted_conns ?t = accepted_conns (sv_listener v)"
    by (simp_all add: pc_state_change_def split: option.split pc_change.split)
  have "slots_match L (pcs ?t) K" if "slots_match L (pcs (sv_listener v)) K" for L K
    using that by (auto simp: pc_state_change_def slots_match_def split: option.split pc_change.split)
  moreover have "listener_inv ?t" using listener_step_inv [OF inv(1), of "LvChange i ch"] by simp
  ultimately have v1: "server_inv (v\<lparr>sv_listener := ?t\<rparr>)" using inv by (simp add: server_inv_def same)
  show ?thesis
  proof (cases "sv_conns v i")
    case (Some c)
    then show ?thesis using v1 server_inv_conn [OF v1, of i c "CvMark None"] by (simp add: state_callback_def Let_def)
  next
    case None
    then have "(sv_conns v)(i := None) = sv_conns v" by auto
    with v1 None show ?thesis by (simp add: state_callback_def Let_def)
  qed
qed

lemma wait_ok: "wait_established b c = Ready (Inr x) \<Longrightarrow> established c"
  by (auto simp: wait_established_def split: if_splits)

lemma server_inv_surface:
  assumes "server_inv v" and "server_guard v (SsSurface i b)"
  shows "server_inv (surface_conn i b v)"
proof -
  note inv = invD [OF assms(1)]
  obtain c r where c: "sv_conns v i = Some c" "wait_established b c = Ready r"
    and g: "listener_guard (sv_listener v) (LvSurface i (r = Inr ()))" using assms(2) by auto
  let ?t = "pc_surface i (r = Inr ()) (sv_listener v)"
  obtain p where p: "pcs (sv_listener v) i = Some p" using g by auto
  have "listener_inv ?t" using listener_step_inv [OF inv(1) g] by simp
  moreover have "accepted_ok (set (accepted_conns ?t @ accept_queue ?t)) (sv_conns v)"
    using inv(4) c wait_ok [of b c] by (auto simp: pc_surface_def p accepted_ok_def Let_def)
  moreover have "slots_match (stun_seen ?t) (pcs ?t) (sv_conns v)"
    using inv(3) p by (auto simp: pc_surface_def slots_match_def Let_def)
  ultimately show ?thesis
    using inv(2,5) by (auto simp: surface_conn_def c server_inv_def pc_surface_def p Let_def)
qed

lemma server_step_inv:
  assumes "server_inv v" and "server_guard v e"
  shows "server_inv (server_step m u v e)"
proof (cases e)
  case (SsConn i ev)
  with assms show ?thesis by (auto intro: server_inv_conn)
next
  case (SsListener ev)
  with assms server_inv_alone [of v ev] show ?thesis by simp
next
  case SsRegister
  with assms server_inv_register [of v] show ?thesis by simp
qed (use assms server_inv_create server_inv_change server_inv_surface in \<open>simp_all del: server_guard.simps\<close>)

interpretation server: machine "server_step m u" server_guard server_inv for m u
  by unfold_locales (rule server_step_inv)


section \<open>What \<open>accept\<close> yields\<close>

definition new_server :: "SocketAddr \<Rightarrow> string \<Rightarrow> Server" where
  "new_server local hash = \<lparr>sv_listener = listen_state local hash, sv_conns = Map.empty\<rparr>"

lemma new_server_inv: "server_inv (new_server local hash)"
  using listen_inv [of local hash]
  by (simp add: server_inv_def new_server_def) (simp add: conns_ok_def slots_match_def accepted_ok_def spawn_match_def listen_state_def)

text \<open>Only a packet that the pump receives adds to the ufrags that were named.\<close>

lemma server_seen_step:
  assumes "x \<in> set (stun_seen (sv_listener (server_step m u v e)))"
  shows "x \<in> set (stun_seen (sv_listener v)) \<or>
    (\<exists>d src. e = SsListener (LvReceive d src) \<and> fst x = canonical src \<and> m (take 1500 d)
       \<and> extract_ufrag u (take 1500 d) = Some (snd x))"
proof (cases e)
  case SsCreate
  with assms show ?thesis by (auto simp: create_conn_def split: pump_state.splits)
next
  case (SsListener le)
  with assms seen_step [of x m u "sv_listener v" le] show ?thesis by simp
next
  case SsRegister
  with assms seen_step [of x m u "sv_listener v" LvRegister] show ?thesis by simp
next
  case (SsChange i ch)
  with assms seen_step [of x m u "sv_listener v" "LvChange i ch"] show ?thesis
    by (auto simp: state_callback_def Let_def split: if_splits)
next
  case (SsSurface i b)
  with assms seen_step [of x m u "sv_listener v" "LvSurface i ok" for ok] show ?thesis
    by (auto simp: surface_conn_def split: option.splits poll.splits)
qed (use assms in simp)

lemma server_seen_run:
  "x \<in> set (stun_seen (sv_listener (foldl (server_step m u) v es))) \<Longrightarrow> x \<in> set (stun_seen (sv_listener v)) \<or>
    (\<exists>d src. SsListener (LvReceive d src) \<in> set es \<and> fst x = canonical src \<and> m (take 1500 d)
       \<and> extract_ufrag u (take 1500 d) = Some (snd x))"
  by (induction es arbitrary: v) (fastforce dest: server_seen_step)+


text \<open>A guest: its request, its connection with the HELLO exchange, the state change, and \<open>accept\<close>.\<close>

definition guest_serve :: "server_ev list" where
  "guest_serve =
     [SsListener (LvReceive [0, 97] guest_addr), SsListener LvLookup, SsCreate, SsRegister,
      SsListener (LvSpawned True), SsListener LvLearn]
     @ map (SsConn 0) greet @ [SsChange 0 ChConnected, SsSurface 0 True, SsListener (LvAccept False)]"

definition porch :: Server where
  "porch = new_server \<lparr>sa_ip = V6 0, sa_port = 4433\<rparr> ''uEiA''"

lemma guest_serve_run:
  "legal (server_step ex_is_message ex_username) server_guard porch guest_serve"
  "accepted_conns (sv_listener (foldl (server_step ex_is_message ex_username) porch guest_serve)) = [AcWebrtc 0]"
  by (simp_all add: guest_serve_def greet_def porch_def new_server_def listen_state_def pump_receive_def ex_ufrag pump_lookup_def
      create_conn_def spawning_def spawn_register_def pump_spawned_def pump_learn_def deliver_def empty_inbox_def
      state_callback_def pc_state_change_def surface_conn_def pc_surface_def listener_accept_def conn_defs Let_def)


section \<open>The other side\<close>

text \<open>\<open>dial_webrtc\<close> returns a connection under the same condition: the wait for the HELLO exchange ended well.\<close>

lemma dial_yields_established:
  assumes "conn_reachable c" and "wait_established b c = Ready (da_established ans)"
    and "dial_webrtc C dec sock ufrag ans addr = (Inr d, pc_closed)"
  shows "established c \<and> hello_sent c \<and> hello_received c \<and> \<not> pc_closed"
proof -
  have ok: "da_established ans = Inr () \<and> \<not> pc_closed"
    using assms(3) by (auto simp: dial_webrtc_def split: sum.splits)
  then have "established c" using assms(2) wait_ok [of b c] by simp
  with ok conn_reachable_inv [OF assms(1)] show ?thesis by (simp add: conn_inv_def hello_ok_def)
qed

end
