(* ===== verification/KpsPairStep.thy ===== *)
theory KpsPairStep
  imports KpsPairInv KpsConnClose
begin

text \<open>
  The invariant of the pair and its preservation. \<open>dir_ok c d\<close> is what holds in the direction
  from \<open>c\<close> to \<open>d\<close>: what \<open>d\<close> has heard and been told, the channels it is still to hear of, and
  the frames on the streams that have both ends.
\<close>

section \<open>The invariant\<close>

definition end_ok :: "WebrtcConn \<Rightarrow> bool" where
  "end_ok c \<longleftrightarrow> conn_inv c \<and> tally_ok (conn_flow c) (conn_streams c) \<and> greeting_ok c
     \<and> (\<forall>i s. conn_streams c i = Some s \<longrightarrow> report_ok s)"

definition heard_ok :: "WebrtcConn \<Rightarrow> WebrtcConn \<Rightarrow> nat \<Rightarrow> bool" where
  "heard_ok c d k \<longleftrightarrow> k \<le> length (control_out c) \<and> (hello_received d \<longleftrightarrow> greeting \<in> set (take k (control_out c)))"

definition told_ok :: "WebrtcConn \<Rightarrow> WebrtcConn \<Rightarrow> bool" where
  "told_ok c d \<longleftrightarrow>
     peer_max_data (conn_flow d) \<le> local_max_data (conn_flow c)
     \<and> peer_max_streams (conn_flow d) \<le> advertised_max_streams (conn_flow c)
     \<and> peer_init_stream_data (conn_flow d) \<le> max_stream_data DEFAULT_FLOW_LIMITS"

definition announced_ok :: "WebrtcConn \<Rightarrow> WebrtcConn \<Rightarrow> u64 option list \<Rightarrow> bool" where
  "announced_ok c d pend \<longleftrightarrow>
     length pend + unat (peer_opened_streams (conn_flow d)) + count_list (tasks c) TkOpenChannel \<le> slots_total c"

definition joined_ok :: "WebrtcConn \<Rightarrow> WebrtcConn \<Rightarrow> (u64 \<times> u64) list \<Rightarrow> bool" where
  "joined_ok c d J \<longleftrightarrow> distinct (map fst J)
     \<and> (\<forall>x\<in>set J. \<exists>s t fs. conn_streams c (fst x) = Some s \<and> conn_streams d (snd x) = Some t
          \<and> wire_out s = arrived t @ fs)"

definition pending_ids :: "u64 option list \<Rightarrow> u64 list" where
  "pending_ids pend = concat (map (\<lambda>x. case x of None \<Rightarrow> [] | Some i \<Rightarrow> [i]) pend)"

definition silent_ok :: "WebrtcConn \<Rightarrow> u64 option list \<Rightarrow> (u64 \<times> u64) list \<Rightarrow> bool" where
  "silent_ok c pend J \<longleftrightarrow>
     (\<forall>i s. conn_streams c i = Some s \<longrightarrow> i \<notin> fst ` set J \<longrightarrow> arrived s = [])
     \<and> distinct (pending_ids pend) \<and> set (pending_ids pend) \<subseteq> dom (conn_streams c) - fst ` set J"

definition dir_ok :: "WebrtcConn \<Rightarrow> WebrtcConn \<Rightarrow> nat \<Rightarrow> u64 option list \<Rightarrow> (u64 \<times> u64) list \<Rightarrow> bool" where
  "dir_ok c d k pend J \<longleftrightarrow>
     heard_ok c d k \<and> told_ok c d \<and> announced_ok c d pend \<and> joined_ok c d J \<and> silent_ok c pend J"

definition pair_inv :: "Pair \<Rightarrow> bool" where
  "pair_inv p \<longleftrightarrow> end_ok (near p) \<and> end_ok (far p)
     \<and> dir_ok (near p) (far p) (far_heard p) (far_coming p) (joined p)
     \<and> dir_ok (far p) (near p) (near_heard p) (near_coming p) (map prod.swap (joined p))"

lemma pair_inv_turn [simp]: "pair_inv (turn p) = pair_inv p"
  by (auto simp: pair_inv_def)

lemma end_okD:
  assumes "end_ok c"
  shows "conn_inv c" "tally_ok (conn_flow c) (conn_streams c)" "greeting_ok c" "conn_streams c i = Some s \<Longrightarrow> report_ok s"
  using assms by (simp_all add: end_ok_def)

lemma end_ok_streams:
  assumes "end_ok c"
  shows "finite (dom (conn_streams c))" and "flow_inv (conn_flow c)"
    and "local_limits (conn_flow c) = DEFAULT_FLOW_LIMITS"
  using end_okD(1) [OF assms] by (auto simp: conn_inv_def streams_ok_def hello_ok_def)

section \<open>Bytes under way\<close>

lemma joined_total:
  assumes "finite (dom m)" and "distinct (map fst J)" and "fst ` set J \<subseteq> dom m"
    and rest: "\<And>i v. m i = Some v \<Longrightarrow> i \<notin> fst ` set J \<Longrightarrow> g v = (0 :: nat)"
  shows "map_total g m = (\<Sum>x\<in>set J. g (the (m (fst x))))"
proof -
  have inj: "inj_on fst (set J)" using assms(2) by (simp add: distinct_map)
  have "map_total g m = (\<Sum>i\<in>fst ` set J. g (the (m i)))"
    unfolding map_total_def using assms(1,3) rest by (intro sum.mono_neutral_right) auto
  also have "\<dots> = (\<Sum>x\<in>set J. g (the (m (fst x))))" using inj by (rule sum.reindex_cong) simp_all
  finally show ?thesis .
qed

lemma joined_total_le:
  assumes "finite (dom m)" and "distinct (map snd J)" and "snd ` set J \<subseteq> dom m"
  shows "(\<Sum>x\<in>set J. g (the (m (snd x))) :: nat) \<le> map_total g m"
proof -
  have inj: "inj_on snd (set J)" using assms(2) by (simp add: distinct_map)
  have "(\<Sum>x\<in>set J. g (the (m (snd x)))) = (\<Sum>i\<in>snd ` set J. g (the (m i)))"
    using inj by (intro sum.reindex_cong [symmetric]) simp_all
  also have "\<dots> \<le> map_total g m"
    unfolding map_total_def using assms(1,3) by (intro sum_mono2) auto
  finally show ?thesis .
qed

lemma swapped_joined:
  assumes "joined_ok d c (map prod.swap J)"
  shows "distinct (map snd J)"
    and "x \<in> set J \<Longrightarrow> \<exists>s t fs. conn_streams d (snd x) = Some s \<and> conn_streams c (fst x) = Some t \<and> wire_out s = arrived t @ fs"
proof -
  have "map fst (map prod.swap J) = map snd J" by simp
  then show "distinct (map snd J)" using assms by (simp add: joined_ok_def del: map_map)
  assume "x \<in> set J"
  then have "prod.swap x \<in> set (map prod.swap J)" by simp
  with assms show "\<exists>s t fs. conn_streams d (snd x) = Some s \<and> conn_streams c (fst x) = Some t \<and> wire_out s = arrived t @ fs"
    unfolding joined_ok_def by fastforce
qed

text \<open>What arrived at \<open>c\<close>, and \<open>n\<close> more bytes of one stream, are on the wire of \<open>d\<close>.\<close>

lemma bytes_underway:
  assumes c: "end_ok c" and d: "end_ok d" and out: "joined_ok c d J" and back_dir: "joined_ok d c (map prod.swap J)"
    and silent: "silent_ok c pend J"
    and more: "n = 0 \<or> (\<exists>x\<in>set J. arrived_bytes (the (conn_streams c (fst x))) + n \<le> wired (the (conn_streams d (snd x))))"
  shows "map_total arrived_bytes (conn_streams c) + n \<le> map_total wired (conn_streams d)"
proof -
  let ?a = "\<lambda>x. arrived_bytes (the (conn_streams c (fst x)))" and ?w = "\<lambda>x. wired (the (conn_streams d (snd x)))"
  have le: "?a x \<le> ?w x" if "x \<in> set J" for x
    using swapped_joined(2) [OF back_dir that] by (auto simp: arrived_bytes_def wired_def)
  have "fst ` set J \<subseteq> dom (conn_streams c)" using out by (fastforce simp: joined_ok_def)
  moreover have "arrived_bytes v = 0" if "conn_streams c i = Some v" "i \<notin> fst ` set J" for i v
    using silent that by (simp add: silent_ok_def arrived_bytes_def)
  ultimately have "map_total arrived_bytes (conn_streams c) = (\<Sum>x\<in>set J. ?a x)"
    using out end_ok_streams(1) [OF c] by (intro joined_total) (simp_all add: joined_ok_def)
  moreover have "(\<Sum>x\<in>set J. ?a x) + n \<le> (\<Sum>x\<in>set J. ?w x)"
    using more
  proof
    assume "n = 0"
    with le show ?thesis by (simp add: sum_mono)
  next
    assume "\<exists>x\<in>set J. ?a x + n \<le> ?w x"
    then obtain x where x: "x \<in> set J" "?a x + n \<le> ?w x" by blast
    have "(\<Sum>y\<in>set J - {x}. ?a y) \<le> (\<Sum>y\<in>set J - {x}. ?w y)" using le by (intro sum_mono) simp
    with x show ?thesis by (simp add: sum.remove [OF _ x(1)])
  qed
  moreover have "snd ` set J \<subseteq> dom (conn_streams d)" using out by (fastforce simp: joined_ok_def)
  then have "(\<Sum>x\<in>set J. ?w x) \<le> map_total wired (conn_streams d)"
    using end_ok_streams(1) [OF d] swapped_joined(1) [OF back_dir] by (intro joined_total_le) simp_all
  ultimately show ?thesis by linarith
qed

text \<open>The same against the window that \<open>c\<close> enforces.\<close>

lemma window_covers:
  assumes c: "end_ok c" and d: "end_ok d" and out: "joined_ok c d J" and back_dir: "joined_ok d c (map prod.swap J)"
    and silent: "silent_ok c pend J" and told: "told_ok c d"
    and more: "n = 0 \<or> (\<exists>x\<in>set J. arrived_bytes (the (conn_streams c (fst x))) + n \<le> wired (the (conn_streams d (snd x))))"
  shows "unat (conn_received (conn_flow c)) + n \<le> unat (peer_max_data (conn_flow d))"
    and "unat (conn_received (conn_flow c)) + n \<le> unat (local_max_data (conn_flow c))"
proof -
  have "unat (conn_received (conn_flow c)) \<le> map_total arrived_bytes (conn_streams c)"
    using end_okD(2) [OF c] by (simp add: tally_ok_def)
  then show "unat (conn_received (conn_flow c)) + n \<le> unat (peer_max_data (conn_flow d))"
    using bytes_underway [OF c d out back_dir silent more] wired_within [OF end_okD(1,2) [OF d]] by linarith
  then show "unat (conn_received (conn_flow c)) + n \<le> unat (local_max_data (conn_flow c))"
    using told by (simp add: told_ok_def word_le_nat_alt)
qed

section \<open>No credit before the HELLO\<close>

lemma no_credit_before_hello:
  assumes c: "end_ok c" and d: "end_ok d" and out: "dir_ok c d k pend J" and inn: "dir_ok d c k' pend' (map prod.swap J)"
    and "greeting \<notin> set (control_out c)"
  shows "advert_tx (conn_flow c) = []"
proof -
  have "\<not> hello_received d"
    using out assms(5) by (auto simp: dir_ok_def heard_ok_def dest: in_set_takeD)
  then have zero: "peer_max_data (conn_flow d) = 0" "peer_max_streams (conn_flow d) = 0"
    using end_okD(1) [OF d] by (simp_all add: conn_inv_def hello_ok_def)
  have "unat (conn_received (conn_flow c)) + 0 \<le> unat (peer_max_data (conn_flow d))"
    using out inn by (intro window_covers(1) [OF c d, of J pend]) (simp_all add: dir_ok_def)
  then have "conn_received (conn_flow c) = 0" using zero by (simp add: unat_eq_0)
  moreover have "unat (peer_opened_streams (conn_flow c)) \<le> slots_total d"
    using inn by (simp add: dir_ok_def announced_ok_def)
  then have "peer_opened_streams (conn_flow c) = 0"
    using slots_total_bound(1) [OF end_okD(1) [OF d]] zero(2) by (simp add: unat_eq_0)
  ultimately show ?thesis using end_okD(2) [OF c] by (simp add: tally_ok_def adverts_ok_def)
qed

section \<open>One side moves\<close>

lemma joined_sender: "joined_ok c d J \<Longrightarrow> wires_grow c c' \<Longrightarrow> joined_ok c' d J"
  unfolding joined_ok_def wires_grow_def by (meson append_assoc) fastforce

lemma joined_receiver: "joined_ok c d J \<Longrightarrow> arrivals_same d d' \<Longrightarrow> joined_ok c d' J"
  unfolding joined_ok_def arrivals_same_def by fastforce

lemma pending_ids_simps [simp]:
  "pending_ids [] = []" "pending_ids (xs @ ys) = pending_ids xs @ pending_ids ys"
  "pending_ids [None] = []" "pending_ids [Some i] = [i]"
  by (simp_all add: pending_ids_def)

lemma silent_keep:
  assumes "silent_ok c pend J" and "wires_grow c d" and "arrivals_same c d"
  shows "silent_ok d pend J"
proof -
  have "arrived t = []" if "conn_streams d i = Some t" "i \<notin> fst ` set J" for i t
  proof (cases "conn_streams c i")
    case None
    with that assms(2) show ?thesis by (simp add: wires_grow_def)
  next
    case (Some s)
    with that assms(1,3) show ?thesis by (fastforce simp: silent_ok_def arrivals_same_def)
  qed
  moreover have "dom (conn_streams c) \<subseteq> dom (conn_streams d)" using assms(2) by (fastforce simp: wires_grow_def)
  then have "set (pending_ids pend) \<subseteq> dom (conn_streams d) - fst ` set J"
    using assms(1) unfolding silent_ok_def by blast
  ultimately show ?thesis using assms(1) by (simp add: silent_ok_def)
qed

lemma silent_add:
  assumes "silent_ok c pend J" and "silent_ok d pend J" and "joined_ok c e J"
    and "conn_streams c i = None" and "conn_streams d i \<noteq> None"
  shows "silent_ok d (pend @ [Some i]) J"
proof -
  have "i \<notin> set (pending_ids pend)" using assms(1,4) by (auto simp: silent_ok_def)
  moreover have "i \<notin> fst ` set J" using assms(3,4) by (fastforce simp: joined_ok_def)
  ultimately show ?thesis using assms(2,5) by (auto simp: silent_ok_def)
qed

text \<open>The direction from the side that moves, and the direction towards it.\<close>

lemma dir_forward:
  assumes dir: "dir_ok c d k pend J" and ctl: "control_out c' = control_out c @ ms"
    and grow: "grants_grow (conn_flow c) (conn_flow c')" and wires: "wires_grow c c'" and arr: "arrivals_same c c'"
    and slots: "count_list (tasks c') TkOpenChannel + length new + slots_total c \<le> count_list (tasks c) TkOpenChannel + slots_total c'"
    and new: "new = [] \<or> new = [None] \<or> (\<exists>i. new = [Some i] \<and> conn_streams c i = None \<and> conn_streams c' i \<noteq> None)"
  shows "dir_ok c' d k (pend @ new) J"
proof -
  have keep: "silent_ok c' pend J" using dir silent_keep [OF _ wires arr] by (simp add: dir_ok_def)
  have "silent_ok c' (pend @ new) J"
    using new
  proof (elim disjE exE conjE)
    fix i assume "new = [Some i]" "conn_streams c i = None" "conn_streams c' i \<noteq> None"
    with dir keep silent_add [of c pend J c' d i] show ?thesis by (simp add: dir_ok_def)
  qed (use keep in \<open>simp_all add: silent_ok_def\<close>)
  moreover have "heard_ok c' d k" using dir ctl by (simp add: dir_ok_def heard_ok_def)
  moreover have "told_ok c' d" using dir grow by (auto simp: dir_ok_def told_ok_def grants_grow_def intro: order_trans)
  moreover have "announced_ok c' d (pend @ new)" using dir slots by (simp add: dir_ok_def announced_ok_def)
  moreover have "joined_ok c' d J" using dir joined_sender [OF _ wires] by (simp add: dir_ok_def)
  ultimately show ?thesis by (simp add: dir_ok_def)
qed

lemma dir_towards:
  assumes dir: "dir_ok d c k pend J" and "hello_received c' = hello_received c" and "told_ok d c'"
    and "peer_opened_streams (conn_flow c') = peer_opened_streams (conn_flow c)" and "joined_ok d c' J"
  shows "dir_ok d c' k pend J"
  using assms by (simp add: dir_ok_def heard_ok_def announced_ok_def)

lemma told_same:
  assumes "told_ok d c" and "peer_max_data (conn_flow c') = peer_max_data (conn_flow c)"
    and "peer_max_streams (conn_flow c') = peer_max_streams (conn_flow c)"
    and "peer_init_stream_data (conn_flow c') = peer_init_stream_data (conn_flow c)"
  shows "told_ok d c'"
  using assms by (simp add: told_ok_def)

lemma end_step:
  assumes c: "end_ok c" and g: "conn_guard c e"
    and quiet: "greeting \<notin> set (control_out c) \<Longrightarrow> advert_tx (conn_flow c) = []"
    and rep: "\<And>i s. conn_streams (conn_step c e) i = Some s \<Longrightarrow> report_ok s"
  shows "end_ok (conn_step c e)" and "grants_grow (conn_flow c) (conn_flow (conn_step c e))"
    and "wires_grow c (conn_step c e)"
proof -
  note inv = end_okD(1) [OF c] and tally = end_okD(2) [OF c]
  have eff: "conn_effect (from_peer e) c (conn_step c e)" by (rule conn_step_effect [OF inv g])
  show "grants_grow (conn_flow c) (conn_flow (conn_step c e))" using tally_effect [OF eff inv tally] by blast
  show "wires_grow c (conn_step c e)" by (rule effect_wires [OF eff inv])
  show "end_ok (conn_step c e)"
    using conn_step_inv [OF inv g] tally_effect [OF eff inv tally] greeting_step [OF inv tally end_okD(3) [OF c] g quiet] rep
    by (simp add: end_ok_def)
qed

lemma hello_received_own: "\<not> from_peer e \<Longrightarrow> hello_received (conn_step c e) = hello_received c"
  by (cases e) (simp_all add: conn_event_defs Let_def
       split: list.split option.split poll.split sum.split prod.split watch.split watch_branch.split conn_task.split)

section \<open>Own steps\<close>

lemma own_not_peer: "own_step e \<Longrightarrow> \<not> from_peer e"
  by (cases e rule: own_step.cases) auto

lemma pair_quiet:
  "pair_inv p \<Longrightarrow> greeting \<notin> set (control_out (near p)) \<Longrightarrow> advert_tx (conn_flow (near p)) = []"
  unfolding pair_inv_def by (blast intro: no_credit_before_hello)

lemma move_own:
  assumes inv: "pair_inv p" and g: "conn_guard (near p) e" and own: "\<not> from_peer e"
    and n: "length new \<le> of_bool (takes_slot e)"
    and new: "new = [] \<or> new = [None] \<or> (\<exists>i. new = [Some i] \<and> conn_streams (near p) i = None
                \<and> conn_streams (conn_step (near p) e) i \<noteq> None)"
  shows "pair_inv (p\<lparr>near := conn_step (near p) e, far_coming := far_coming p @ new\<rparr>)"
proof -
  let ?c = "near p" and ?d = "conn_step (near p) e"
  have c: "end_ok ?c" and f: "end_ok (far p)"
    and fwd: "dir_ok ?c (far p) (far_heard p) (far_coming p) (joined p)"
    and tow: "dir_ok (far p) ?c (near_heard p) (near_coming p) (map prod.swap (joined p))"
    using inv by (simp_all add: pair_inv_def)
  note ci = end_okD(1) [OF c]
  have eff: "conn_effect False ?c ?d" using conn_step_effect [OF ci g] own by simp
  have arr: "arrivals_same ?c ?d" by (rule effect_arrivals [OF eff ci])
  have wires: "wires_grow ?c ?d" by (rule effect_wires [OF eff ci])
  have rep: "report_ok s" if "conn_streams ?d i = Some s" for i s
    using wires arr that end_okD(4) [OF c, of i]
    by (cases "conn_streams ?c i") (fastforce simp: wires_grow_def arrivals_same_def)+
  note d = end_step [OF c g pair_quiet [OF inv] rep]
  have "dir_ok ?d (far p) (far_heard p) (far_coming p @ new) (joined p)"
  proof (rule dir_forward [OF fwd control_out_step d(2,3) arr _ new])
    show "count_list (tasks ?d) TkOpenChannel + length new + slots_total ?c
        \<le> count_list (tasks ?c) TkOpenChannel + slots_total ?d"
      using slot_balance [OF ci g] n by (simp del: conn_step.simps)
  qed
  moreover have "dir_ok (far p) ?d (near_heard p) (near_coming p) (map prod.swap (joined p))"
    using tow told_same [OF _ effect_peer_fields(1-3) [OF eff]] effect_peer_fields(4) [OF eff] joined_receiver [OF _ arr]
    by (intro dir_towards [OF tow hello_received_own [OF own]]) (simp_all add: dir_ok_def)
  ultimately show ?thesis using d(1) f by (simp add: pair_inv_def del: conn_step.simps)
qed

lemma opened_new:
  assumes "conn_inv c" and "conn_guard c (CvOpenChannel (Inr ready))"
  shows "conn_streams c (next_id_of c) = None" and "conn_streams (conn_step c (CvOpenChannel (Inr ready))) (next_id_of c) \<noteq> None"
proof -
  have "streams_ok (conn_flow c) (conn_streams c)" using assms(1) by (simp add: conn_inv_def)
  then show "conn_streams c (next_id_of c) = None" using assms(2) unfolding next_id_of_def by (intro new_id_fresh) simp_all
  show "conn_streams (conn_step c (CvOpenChannel (Inr ready))) (next_id_of c) \<noteq> None"
    by (simp add: open_channel_def new_conn_stream_def put_conn_stream_def next_id_of_def Let_def)
       (simp add: commit_stream_slot_def)
qed

section \<open>A control message arrives\<close>

lemma default_granted:
  assumes "end_ok d"
  shows "max_data DEFAULT_FLOW_LIMITS \<le> local_max_data (conn_flow d)"
    and "max_streams DEFAULT_FLOW_LIMITS \<le> advertised_max_streams (conn_flow d)"
proof -
  let ?f = "conn_flow d"
  have fi: "recv_inv ?f" "count_inv ?f" using end_ok_streams(2) [OF assms] by (simp_all add: flow_inv_def)
  note lim = end_ok_streams(3) [OF assms]
  have "local_max_data ?f = sat (conn_advertised_at ?f + max_data DEFAULT_FLOW_LIMITS)"
    using fi(1) lim unfolding recv_inv_def by metis
  moreover have "unat (conn_advertised_at ?f + max_data DEFAULT_FLOW_LIMITS)
      = unat (conn_advertised_at ?f) + unat (max_data DEFAULT_FLOW_LIMITS)"
    using recv_inv_bounds [OF fi(1)] lim by (intro unat_window_sum) auto
  moreover have "unat (max_data DEFAULT_FLOW_LIMITS) = 8388608" "unat (max_streams DEFAULT_FLOW_LIMITS) = 100"
    by (simp_all add: DEFAULT_FLOW_LIMITS_def push_bit_eq_mult)
  ultimately show "max_data DEFAULT_FLOW_LIMITS \<le> local_max_data ?f"
    and "max_streams DEFAULT_FLOW_LIMITS \<le> advertised_max_streams ?f"
    using count_inv_peer_bounds(3) [OF fi(2)] lim by (simp_all add: u64_simps sat_unat)
qed

lemma control_streams [simp]:
  "conn_streams (on_control m c) = conn_streams c"
  "peer_opened_streams (conn_flow (on_control m c)) = peer_opened_streams (conn_flow c)"
  by (simp_all add: on_control_def on_hello_def Let_def split: sum.split ControlMsg.split)
     (simp_all add: flow_op_defs)

lemma control_cases:
  assumes d: "end_ok d" and out: "dir_ok d c k pend J" and k: "k < length (control_out d)"
    and m: "m = control_out d ! k"
  obtains (hello) "m = greeting" "\<not> hello_received c"
    | (close) code where "m = encode_conn_close code" "m \<noteq> greeting"
    | (credit) "hello_received c" "credit_msg (conn_flow d) m" "m \<noteq> greeting"
proof -
  have "ctl_ok (conn_flow d) False (control_out d)" using end_okD(3) [OF d] by (simp add: greeting_ok_def)
  note cases = ctl_next [OF this k]
  have heard: "hello_received c \<longleftrightarrow> greeting \<in> set (take k (control_out d))"
    using out by (simp add: dir_ok_def heard_ok_def)
  show thesis
    using cases heard hello close credit credit_msg_not greeting_not(1) unfolding m by metis
qed

lemma control_arrives:
  assumes d: "end_ok d" and out: "dir_ok d c k pend J" and k: "k < length (control_out d)"
    and m: "m = control_out d ! k"
  shows "hello_received (on_control m c) \<longleftrightarrow> hello_received c \<or> m = greeting"
    and "told_ok d (on_control m c)" and "\<not> control_violation m c"
    and "decode_control m = Inr (CtlHello v l) \<Longrightarrow> v = WIRE_VERSION"
proof -
  have told: "told_ok d c" using out by (simp add: dir_ok_def)
  have g: "control_grammar data x \<longleftrightarrow> decode_control data = Inr x" for data x
    using decode_control_grammar [of data] by auto
  have "(hello_received (on_control m c) \<longleftrightarrow> hello_received c \<or> m = greeting) \<and> told_ok d (on_control m c)
      \<and> \<not> control_violation m c \<and> (\<forall>v l. decode_control m = Inr (CtlHello v l) \<longrightarrow> v = WIRE_VERSION)"
    using d out k m
  proof (cases rule: control_cases)
    case hello
    then show ?thesis
      using default_granted [OF d]
      by (simp add: on_control_def on_hello_def Let_def told_ok_def control_violation_def g) (simp add: on_peer_hello_def)
  next
    case (close code)
    have "decode_control m = Inr (CtlClose code)" using close control.dec_enc [of "CtlClose code"] by simp
    with close told show ?thesis
      by (auto simp: on_control_def told_ok_def control_violation_def g)
  next
    case credit
    from credit(2) consider (data) v where "m = encode_max_data v" "v \<le> MAX_OFFSET" "v \<le> local_max_data (conn_flow d)"
      | (streams) v where "m = encode_max_streams v" "v \<le> MAX_OFFSET" "v \<le> advertised_max_streams (conn_flow d)"
      by (auto simp: credit_msg_def)
    then show ?thesis
    proof cases
      case data
      then have "decode_control m = Inr (CtlMaxData v)" using control.dec_enc [of "CtlMaxData v"] by simp
      with data credit told show ?thesis
        by (simp add: on_control_def told_ok_def control_violation_def g on_peer_max_data_def)
    next
      case streams
      then have "decode_control m = Inr (CtlMaxStreams v)" using control.dec_enc [of "CtlMaxStreams v"] by simp
      with streams credit told show ?thesis
        by (simp add: on_control_def told_ok_def control_violation_def g on_peer_max_streams_def)
    qed
  qed
  then show "hello_received (on_control m c) \<longleftrightarrow> hello_received c \<or> m = greeting"
    and "told_ok d (on_control m c)" and "\<not> control_violation m c"
    and "decode_control m = Inr (CtlHello v l) \<Longrightarrow> v = WIRE_VERSION" by blast+
qed

lemma move_control:
  assumes inv: "pair_inv p" and k: "near_heard p < length (control_out (far p))"
  shows "pair_inv (side_step p SdControl)"
proof -
  let ?c = "near p" and ?m = "coming_message p"
  let ?d = "conn_step ?c (CvControl ?m)"
  have c: "end_ok ?c" and f: "end_ok (far p)"
    and fwd: "dir_ok ?c (far p) (far_heard p) (far_coming p) (joined p)"
    and tow: "dir_ok (far p) ?c (near_heard p) (near_coming p) (map prod.swap (joined p))"
    using inv by (simp_all add: pair_inv_def)
  have g: "conn_guard ?c (CvControl ?m)" by simp
  have rep: "report_ok s" if "conn_streams ?d i = Some s" for i s
    using that end_okD(4) [OF c, of i] by simp
  note d = end_step [OF c g pair_quiet [OF inv] rep]
  have arr: "arrivals_same ?c ?d" by (auto simp: arrivals_same_def)
  note got = control_arrives [OF f tow k refl, folded coming_message_def]
  have "dir_ok ?d (far p) (far_heard p) (far_coming p @ []) (joined p)"
    using slot_balance [OF end_okD(1) [OF c] g]
    by (intro dir_forward [OF fwd control_out_step d(2,3) arr]) (simp_all add: takes_slot_def del: conn_step.simps)
  moreover have "heard_ok (far p) ?d (Suc (near_heard p))"
    using tow got(1) k by (auto simp: dir_ok_def heard_ok_def take_Suc_conv_app_nth coming_message_def)
  then have "dir_ok (far p) ?d (Suc (near_heard p)) (near_coming p) (map prod.swap (joined p))"
    using tow got(2) joined_receiver [OF _ arr] by (simp add: dir_ok_def announced_ok_def)
  ultimately show ?thesis using d(1) f by (simp add: pair_inv_def)
qed

end
