(* ===== verification/KpsPairRun.thy ===== *)
theory KpsPairRun
  imports KpsPairStep
begin

text \<open>
  The arrival of a channel and of a frame keeps the invariant of the pair, and neither makes
  the receiving side complain; hence the invariant holds in every reachable pair.
\<close>

section \<open>A channel arrives\<close>

lemma channel_accepted:
  assumes d: "end_ok d" and tow: "dir_ok d c k pend J" and told: "told_ok c d" and "pend \<noteq> []"
  shows "peer_opened_streams (conn_flow c) < advertised_max_streams (conn_flow c)"
proof -
  have "unat (peer_opened_streams (conn_flow c)) < slots_total d"
    using tow assms(4) by (cases pend) (simp_all add: dir_ok_def announced_ok_def)
  also have "\<dots> \<le> unat (peer_max_streams (conn_flow d))" by (rule slots_total_bound(1) [OF end_okD(1) [OF d]])
  also have "\<dots> \<le> unat (advertised_max_streams (conn_flow c))" using told by (simp add: told_ok_def word_le_nat_alt)
  finally show ?thesis by (simp add: word_less_nat_alt)
qed

lemma incoming_value:
  assumes "peer_opened_streams (conn_flow c) < advertised_max_streams (conn_flow c)"
    and d: "d = handle_incoming ready c"
  obtains t where "conn_streams d = (conn_streams c)(next_id_of c \<mapsto> t)" and "arrived t = []" and "wire_out t = []" and "report_ok t"
    and "peer_opened_streams (conn_flow d) = peer_opened_streams (conn_flow c) + 1"
    and "peer_max_data (conn_flow d) = peer_max_data (conn_flow c)"
    and "peer_max_streams (conn_flow d) = peer_max_streams (conn_flow c)"
    and "peer_init_stream_data (conn_flow d) = peer_init_stream_data (conn_flow c)"
    and "hello_received d = hello_received c"
proof -
  let ?f = "(conn_flow c)\<lparr>peer_opened_streams := peer_opened_streams (conn_flow c) + 1\<rparr>"
  have "peer_stream_opened (conn_flow c) = (Inr (), ?f)" using assms(1) by (simp add: peer_stream_opened_def)
  then show thesis
    by (intro that [of "Stream_new True (tearing_down c \<or> cs_closed c) (ready = DcOpen) ?f"])
       (simp_all add: d handle_incoming_def new_conn_stream_def put_conn_stream_def spawn_def next_id_of_def Let_def)
qed

lemma pending_split:
  assumes "k < length pend"
  shows "pending_ids pend = pending_ids (take k pend) @ pending_ids [pend ! k] @ pending_ids (drop (Suc k) pend)"
  using id_take_nth_drop [OF assms] by (metis append_Cons append_Nil pending_ids_simps(2))

lemma fresh_id: "conn_inv c \<Longrightarrow> next_id (conn_flow c) < 18446744073709551615 \<Longrightarrow> conn_streams c (next_id_of c) = None"
  unfolding next_id_of_def by (rule new_id_fresh) (simp_all add: conn_inv_def)

lemma joined_more:
  assumes "joined_ok c d J" and "conn_streams c i = Some s" and "conn_streams d j = Some t" and "wire_out s = arrived t @ fs"
    and "i \<notin> fst ` set J"
  shows "joined_ok c d (J @ [(i, j)])"
  using assms by (auto simp: joined_ok_def)

lemma silent_take:
  assumes sil: "silent_ok c pend J" and ids: "pending_ids pend = xs @ j # ys" and rest: "pending_ids rest = xs @ ys"
  shows "silent_ok c rest (J @ [(j, i)])"
proof -
  have fst: "fst ` set (J @ [(j, i)]) = insert j (fst ` set J)" by simp
  have "distinct (xs @ ys)" and "j \<notin> set (xs @ ys)" and "set (xs @ ys) \<subseteq> dom (conn_streams c) - fst ` set J"
    using sil unfolding silent_ok_def ids by auto
  then have "set (xs @ ys) \<subseteq> dom (conn_streams c) - insert j (fst ` set J)" by blast
  with \<open>distinct (xs @ ys)\<close> sil show ?thesis unfolding silent_ok_def fst rest by blast
qed

lemma move_channel:
  assumes inv: "pair_inv p" and g: "side_guard p (SdChannel k ready)"
  shows "pair_inv (side_step p (SdChannel k ready))"
    and "fst (peer_stream_opened (conn_flow (near p))) = Inr ()"
proof -
  let ?c = "near p" and ?f = "far p" and ?J = "joined p" and ?I = "near_coming p"
  let ?d = "conn_step ?c (CvIncoming ready)" and ?rest = "take k ?I @ drop (Suc k) ?I"
  have c: "end_ok ?c" and f: "end_ok ?f"
    and fwd: "dir_ok ?c ?f (far_heard p) (far_coming p) ?J"
    and tow: "dir_ok ?f ?c (near_heard p) ?I (map prod.swap ?J)"
    using inv by (simp_all add: pair_inv_def)
  have k: "k < length ?I" and room: "conn_guard ?c (CvIncoming ready)" using g by simp_all
  have free: "conn_streams ?c (next_id_of ?c) = None" using fresh_id [OF end_okD(1) [OF c]] room by simp
  have less: "peer_opened_streams (conn_flow ?c) < advertised_max_streams (conn_flow ?c)"
    using fwd k by (intro channel_accepted [OF f tow]) (auto simp: dir_ok_def)
  then show ok: "fst (peer_stream_opened (conn_flow ?c)) = Inr ()" by (simp add: peer_stream_opened_def)
  obtain t where t: "conn_streams ?d = (conn_streams ?c)(next_id_of ?c \<mapsto> t)" "arrived t = []" "wire_out t = []" "report_ok t"
    and up: "peer_opened_streams (conn_flow ?d) = peer_opened_streams (conn_flow ?c) + 1"
    and same: "peer_max_data (conn_flow ?d) = peer_max_data (conn_flow ?c)"
      "peer_max_streams (conn_flow ?d) = peer_max_streams (conn_flow ?c)"
      "peer_init_stream_data (conn_flow ?d) = peer_init_stream_data (conn_flow ?c)"
    and heard: "hello_received ?d = hello_received ?c"
    by (rule incoming_value [OF less conn_step.simps(11)])
  have rep: "report_ok s" if "conn_streams ?d i = Some s" for i s
    using that t(1,4) end_okD(4) [OF c, of i] by (auto split: if_splits)
  note d = end_step [OF c room pair_quiet [OF inv] rep]
  have arr: "arrivals_same ?c ?d" using t(1) free by (auto simp: arrivals_same_def)
  have fwd': "dir_ok ?d ?f (far_heard p) (far_coming p @ []) ?J"
    using slot_balance [OF end_okD(1) [OF c] room]
    by (intro dir_forward [OF fwd control_out_step d(2,3) arr]) (simp_all add: takes_slot_def del: conn_step.simps)
  have "unat (peer_opened_streams (conn_flow ?c) + 1) = unat (peer_opened_streams (conn_flow ?c)) + 1"
    using less unat_u64_lt [of "advertised_max_streams (conn_flow ?c)"] by (simp add: nowrap word_less_nat_alt)
  moreover have "length ?rest + 1 = length ?I" using k by (simp add: min_def)
  moreover have "length ?I + unat (peer_opened_streams (conn_flow ?c)) + count_list (tasks ?f) TkOpenChannel \<le> slots_total ?f"
    using tow by (simp add: dir_ok_def announced_ok_def)
  ultimately have ann: "announced_ok ?f ?d ?rest" unfolding announced_ok_def up by linarith
  have told: "told_ok ?f ?d" using tow told_same [OF _ same] by (simp add: dir_ok_def)
  have hd: "heard_ok ?f ?d (near_heard p)" using tow heard by (simp add: dir_ok_def heard_ok_def)
  have jn: "joined_ok ?f ?d (map prod.swap ?J)" using tow joined_receiver [OF _ arr] by (simp add: dir_ok_def)
  have sil: "silent_ok ?f ?I (map prod.swap ?J)" using tow by (simp add: dir_ok_def)
  note split = pending_split [OF k]
  show "pair_inv (side_step p (SdChannel k ready))"
  proof (cases "?I ! k")
    case None
    have "silent_ok ?f ?rest (map prod.swap ?J)" using sil unfolding silent_ok_def split by auto
    with None ok d(1) f fwd' ann told hd jn show ?thesis by (simp add: pair_inv_def dir_ok_def)
  next
    case (Some j)
    let ?i = "next_id_of ?c"
    have j: "j \<in> set (pending_ids ?I)" unfolding split using Some by simp
    then obtain s where s: "conn_streams ?f j = Some s" and nj: "j \<notin> fst ` set (map prod.swap ?J)"
      using sil by (auto simp: silent_ok_def)
    have quiet: "arrived s = []" using sil s nj by (simp add: silent_ok_def)
    have ni: "?i \<notin> fst ` set ?J" using fwd free by (fastforce simp: dir_ok_def joined_ok_def)
    have "joined_ok ?d ?f (?J @ [(?i, j)])"
      using fwd' ni t(1,3) s quiet by (intro joined_more [of _ _ _ _ t _ s "[]"]) (simp_all add: dir_ok_def del: conn_step.simps)
    moreover have "silent_ok ?d (far_coming p) (?J @ [(?i, j)])"
    proof -
      have "?i \<notin> set (pending_ids (far_coming p))" using fwd free by (auto simp: dir_ok_def silent_ok_def)
      with fwd' show ?thesis by (auto simp: dir_ok_def silent_ok_def)
    qed
    moreover have "joined_ok ?f ?d (map prod.swap ?J @ [(j, ?i)])"
      using jn nj t(1,2) s by (intro joined_more [of _ _ _ _ s _ t "wire_out s"]) (simp_all del: conn_step.simps)
    moreover have "silent_ok ?f ?rest (map prod.swap ?J @ [(j, ?i)])"
      using split Some by (intro silent_take [OF sil, of "pending_ids (take k ?I)" j "pending_ids (drop (Suc k) ?I)"]) simp_all
    ultimately show ?thesis
      using Some ok d(1) f fwd' ann told hd by (simp add: pair_inv_def dir_ok_def del: conn_step.simps) 
  qed
qed

section \<open>A frame arrives\<close>

text \<open>The two ends of a joined stream are two ends of a link.\<close>

lemma joined_ends:
  assumes inv: "pair_inv p" and k: "k < length (joined p)"
  obtains s t where "conn_streams (far p) (snd (joined p ! k)) = Some s" and "conn_streams (near p) (fst (joined p ! k)) = Some t"
    and "far_end p k = load (far p) s" and "near_end p k = load (near p) t"
    and "end_inv (far_end p k)" and "end_inv (near_end p k)"
    and "chan_ok (far_end p k) (near_end p k)" and "chan_ok (near_end p k) (far_end p k)"
proof -
  let ?c = "near p" and ?f = "far p" and ?J = "joined p" and ?x = "joined p ! k"
  have c: "end_ok ?c" and f: "end_ok ?f"
    and fwd: "dir_ok ?c ?f (far_heard p) (far_coming p) ?J"
    and tow: "dir_ok ?f ?c (near_heard p) (near_coming p) (map prod.swap ?J)"
    using inv by (simp_all add: pair_inv_def)
  have x: "?x \<in> set ?J" using k by simp
  obtain s t fs where s: "conn_streams ?f (snd ?x) = Some s" and t: "conn_streams ?c (fst ?x) = Some t"
    and out: "wire_out s = arrived t @ fs"
    using swapped_joined(2) [of ?f ?c ?J ?x] tow x by (auto simp: dir_ok_def)
  obtain gs where inn: "wire_out t = arrived s @ gs" using fwd x s t by (fastforce simp: dir_ok_def joined_ok_def)
  have ends: "far_end p k = load ?f s" "near_end p k = load ?c t"
    using s t by (simp_all add: far_end_def near_end_def stream_at_def)
  have "end_inv (load ?f s)" and "end_inv (load ?c t)"
    using conn_inv_load(2) [OF end_okD(1) [OF f] s] conn_inv_load(2) [OF end_okD(1) [OF c] t] by blast+
  moreover have "chan_ok (load ?f s) (load ?c t)" "chan_ok (load ?c t) (load ?f s)"
    using out inn fwd tow end_ok_streams(3) [OF c] end_ok_streams(3) [OF f]
    by (simp_all add: chan_ok_def limits_of_def dir_ok_def told_ok_def)
  ultimately show thesis using s t ends by (intro that) simp_all
qed

lemma frame_accepted:
  assumes inv: "pair_inv p" and k: "k < length (joined p)" and can: "can_deliver (far_end p k) (near_end p k)"
  shows "fatal_calls (near_end p k) = []" and "fatal_calls (on_message (coming_frame p k) (near_end p k)) = []"
    and "\<exists>gs. wire_out (far_end p k) = arrived (near_end p k) @ coming_frame p k # gs"
    and "conn_streams (near p) (fst (joined p ! k)) \<noteq> None"
proof -
  let ?c = "near p" and ?f = "far p" and ?J = "joined p" and ?fr = "coming_frame p k"
  have c: "end_ok ?c" and f: "end_ok ?f"
    and fwd: "dir_ok ?c ?f (far_heard p) (far_coming p) ?J"
    and tow: "dir_ok ?f ?c (near_heard p) (near_coming p) (map prod.swap ?J)"
    using inv by (simp_all add: pair_inv_def)
  obtain s t where s: "conn_streams ?f (snd (?J ! k)) = Some s" and t: "conn_streams ?c (fst (?J ! k)) = Some t"
    and ends: "far_end p k = load ?f s" "near_end p k = load ?c t"
    and link: "end_inv (far_end p k)" "end_inv (near_end p k)"
      "chan_ok (far_end p k) (near_end p k)" "chan_ok (near_end p k) (far_end p k)"
    by (rule joined_ends [OF inv k])
  show "conn_streams ?c (fst (?J ! k)) \<noteq> None" using t by simp
  show quiet: "fatal_calls (near_end p k) = []"
    using end_okD(4) [OF c t] can ends by (simp add: report_ok_def can_deliver_def)
  show "\<exists>gs. wire_out (far_end p k) = arrived (near_end p k) @ ?fr # gs"
  proof -
    obtain fs where "wire_out (far_end p k) = arrived (near_end p k) @ fs" using link(3) by (auto simp: chan_ok_def)
    with can show ?thesis by (cases fs) (auto simp: can_deliver_def coming_frame_def next_frame_def)
  qed
  then have "arrived_bytes t + length (data_payload ?fr) \<le> wired s"
    using ends by (auto simp: arrived_bytes_def wired_def)
  then have "\<exists>y\<in>set ?J. arrived_bytes (the (conn_streams ?c (fst y))) + length (data_payload ?fr)
      \<le> wired (the (conn_streams ?f (snd y)))"
    using s t k by (intro bexI [of _ "?J ! k"]) simp_all
  then have "unat (conn_received (conn_flow ?c)) + length (data_payload ?fr) \<le> unat (local_max_data (conn_flow ?c))"
    using fwd tow by (intro window_covers(2) [OF c f, of ?J "far_coming p"]) (simp_all add: dir_ok_def)
  with next_frame_accepted [OF link can quiet] ends
  show "fatal_calls (on_message ?fr (near_end p k)) = []" by (simp add: coming_frame_def)
qed

lemma stream_event_peer:
  assumes "\<forall>op. e \<noteq> SvFlow op"
  shows "peer_max_data (conn_flow (stream_event i e c)) = peer_max_data (conn_flow c)"
    and "peer_max_streams (conn_flow (stream_event i e c)) = peer_max_streams (conn_flow c)"
    and "peer_init_stream_data (conn_flow (stream_event i e c)) = peer_init_stream_data (conn_flow c)"
    and "peer_opened_streams (conn_flow (stream_event i e c)) = peer_opened_streams (conn_flow c)"
proof -
  have rest: "rest_of (stream_step (load c s) e) = rest_of (load c s)"
    and lim: "limits_of (stream_step (load c s) e) = limits_of (load c s)" for s
    using assms by (intro rest.V_step limits.V_step; blast)+
  note r = rest_of_others [OF rest]
  show "peer_max_data (conn_flow (stream_event i e c)) = peer_max_data (conn_flow c)"
    and "peer_max_streams (conn_flow (stream_event i e c)) = peer_max_streams (conn_flow c)"
    and "peer_init_stream_data (conn_flow (stream_event i e c)) = peer_init_stream_data (conn_flow c)"
    and "peer_opened_streams (conn_flow (stream_event i e c)) = peer_opened_streams (conn_flow c)"
    using r(5-7) lim by (simp_all add: stream_event_def put_conn_stream_def limits_of_def Let_def split: option.split)
qed

lemma move_frame:
  assumes inv: "pair_inv p" and g: "side_guard p (SdFrame k)"
  shows "pair_inv (side_step p (SdFrame k))"
proof -
  let ?c = "near p" and ?f = "far p" and ?J = "joined p" and ?i = "fst (joined p ! k)" and ?fr = "coming_frame p k"
  let ?e = "CvStream ?i (SvMessage ?fr)"
  let ?d = "conn_step ?c ?e"
  have c: "end_ok ?c" and f: "end_ok ?f"
    and fwd: "dir_ok ?c ?f (far_heard p) (far_coming p) ?J"
    and tow: "dir_ok ?f ?c (near_heard p) (near_coming p) (map prod.swap ?J)"
    using inv by (simp_all add: pair_inv_def)
  have k: "k < length ?J" and can: "can_deliver (far_end p k) (near_end p k)" using g by simp_all
  note got = frame_accepted [OF inv k can]
  obtain t where t: "conn_streams ?c ?i = Some t" using got(4) by blast
  have near_t: "near_end p k = load ?c t" using t by (simp add: near_end_def stream_at_def)
  let ?u = "on_message ?fr (load ?c t)"
  have cg: "conn_guard ?c ?e" using t can near_t by (simp add: can_deliver_def)
  have id: "sh_id ?u = ?i" using conn_inv_load(1) [OF end_okD(1) [OF c] t] step_same_id(1) [of "load ?c t" "SvMessage ?fr"] by simp
  have d: "conn_streams ?d = (conn_streams ?c)(?i \<mapsto> ?u)"
    using t id by (simp add: stream_event_def put_conn_stream_def Let_def)
  have u: "arrived ?u = arrived t @ [?fr]" and ur: "report_ok ?u"
    using got(2) near_t by (simp_all add: on_message_def report_ok_def)
  have rep: "report_ok s" if "conn_streams ?d j = Some s" for j s
    using that ur end_okD(4) [OF c, of j] unfolding d by (auto split: if_splits)
  note st = end_step [OF c cg pair_quiet [OF inv] rep]
  have peer: "peer_max_data (conn_flow ?d) = peer_max_data (conn_flow ?c)"
    "peer_max_streams (conn_flow ?d) = peer_max_streams (conn_flow ?c)"
    "peer_init_stream_data (conn_flow ?d) = peer_init_stream_data (conn_flow ?c)"
    "peer_opened_streams (conn_flow ?d) = peer_opened_streams (conn_flow ?c)" "hello_received ?d = hello_received ?c"
    by (simp_all add: stream_event_peer)
  have "dir_ok ?d ?f (far_heard p) (far_coming p) ?J"
  proof -
    have "silent_ok ?d (far_coming p) ?J"
      using fwd k unfolding dir_ok_def silent_ok_def d by (auto split: if_splits)
    moreover have "joined_ok ?d ?f ?J" using fwd joined_sender [OF _ st(3)] by (simp add: dir_ok_def)
    moreover have "told_ok ?d ?f" using fwd st(2) by (auto simp: dir_ok_def told_ok_def grants_grow_def intro: order_trans)
    moreover have "heard_ok ?d ?f (far_heard p)" using fwd by (simp add: dir_ok_def heard_ok_def)
    moreover have "announced_ok ?d ?f (far_coming p)"
      using fwd slot_balance [OF end_okD(1) [OF c] cg] by (simp add: dir_ok_def announced_ok_def takes_slot_def)
    ultimately show ?thesis by (simp add: dir_ok_def)
  qed
  moreover have "joined_ok ?f ?d (map prod.swap ?J)"
  proof -
    have inj: "y = ?J ! k" if "y \<in> set ?J" "fst y = ?i" for y
      using fwd that k by (auto simp: dir_ok_def joined_ok_def distinct_map dest: inj_onD)
    obtain hs where hs: "wire_out (far_end p k) = arrived t @ ?fr # hs" using got(3) near_t by auto
    show ?thesis
      unfolding joined_ok_def
    proof (intro conjI ballI)
      show "distinct (map fst (map prod.swap ?J))" using tow by (simp add: dir_ok_def joined_ok_def)
      fix y assume "y \<in> set (map prod.swap ?J)"
      then obtain z where z: "z \<in> set ?J" "y = prod.swap z" by auto
      have "joined_ok ?f ?c (map prod.swap ?J)" using tow by (simp add: dir_ok_def)
      from swapped_joined(2) [OF this z(1)] obtain s v fs where
        sv: "conn_streams ?f (snd z) = Some s" "conn_streams ?c (fst z) = Some v" "wire_out s = arrived v @ fs" by blast
      show "\<exists>s v fs. conn_streams ?f (fst y) = Some s \<and> conn_streams ?d (snd y) = Some v \<and> wire_out s = arrived v @ fs"
      proof (cases "fst z = ?i")
        case True
        then have zk: "z = ?J ! k" using inj z(1) by blast
        then have "far_end p k = load ?f s" using sv(1) by (simp add: far_end_def stream_at_def)
        then have "wire_out s = arrived ?u @ hs" using hs u by simp
        with zk z sv(1) d show ?thesis by (auto simp del: conn_step.simps)
      next
        case False
        with z sv d show ?thesis by (auto simp del: conn_step.simps)
      qed
    qed
  qed
  then have "dir_ok ?f ?d (near_heard p) (near_coming p) (map prod.swap ?J)"
    using tow told_same [OF _ peer(1-3)] peer(4,5) by (intro dir_towards [OF tow]) (simp_all add: dir_ok_def del: conn_step.simps)
  ultimately show ?thesis using st(1) f by (simp add: pair_inv_def)
qed

section \<open>Every step\<close>

lemma side_step_inv:
  assumes inv: "pair_inv p" and g: "side_guard p e"
  shows "pair_inv (side_step p e)"
proof (cases e)
  case (SdOwn ev)
  with g move_own [OF inv _ own_not_peer, of ev "[]"] show ?thesis by simp
next
  case (SdOpened ready)
  have c: "conn_inv (near p)" using inv by (simp add: pair_inv_def end_ok_def)
  from SdOpened g opened_new [OF c, of ready] show ?thesis
    using move_own [OF inv, of "CvOpenChannel (Inr ready)" "[Some (next_id_of (near p))]"]
    by (simp add: takes_slot_def del: conn_step.simps)
next
  case SdOpenLost
  with g move_own [OF inv, of "CvAbandon TkOpenChannel" "[None]"] show ?thesis
    by (simp add: takes_slot_def)
next
  case SdControl
  with g move_control [OF inv] show ?thesis by simp
next
  case (SdChannel k ready)
  with g move_channel(1) [OF inv] show ?thesis by blast
next
  case (SdFrame k)
  with g move_frame [OF inv] show ?thesis by blast
qed

lemma pair_step_inv: "pair_inv p \<Longrightarrow> pair_guard p e \<Longrightarrow> pair_inv (pair_step p e)"
  using side_step_inv [of p] side_step_inv [of "turn p"] by (cases e) simp_all

interpretation pair: machine pair_step pair_guard pair_inv
  by unfold_locales (rule pair_step_inv)

lemma end_new: "end_ok (WebrtcConn_new a)"
  using conn_new_inv [of a]
  by (simp add: end_ok_def) (simp add: WebrtcConn_new_def ConnFlow_new_def tally_ok_def adverts_ok_def greeting_ok_def)

lemma pair_new_inv: "pair_inv (pair_new a b)"
  using end_new [of a] end_new [of b]
  by (simp add: pair_inv_def pair_new_def)
     (simp add: WebrtcConn_new_def ConnFlow_new_def dir_ok_def heard_ok_def told_ok_def announced_ok_def slots_total_def
       joined_ok_def silent_ok_def)

lemma pair_reachable_inv: "pair_reachable p \<Longrightarrow> pair_inv p"
  unfolding pair_reachable_def by (blast intro: pair.run_inv pair_new_inv)

section \<open>Turning the pair around\<close>

fun turn_ev :: "pair_ev \<Rightarrow> pair_ev" where
  "turn_ev (AtNear e) = AtFar e"
| "turn_ev (AtFar e) = AtNear e"

lemma turn_run:
  "legal pair_step pair_guard p es \<Longrightarrow>
     legal pair_step pair_guard (turn p) (map turn_ev es)
     \<and> foldl pair_step (turn p) (map turn_ev es) = turn (foldl pair_step p es)"
proof (induction es arbitrary: p)
  case (Cons e es)
  have "pair_guard (turn p) (turn_ev e) = pair_guard p e" and "pair_step (turn p) (turn_ev e) = turn (pair_step p e)"
    by (cases e; simp)+
  with Cons show ?case by simp
qed simp

lemma turn_reachable: "pair_reachable p \<Longrightarrow> pair_reachable (turn p)"
proof -
  have "turn (pair_new a b) = pair_new b a" for a b by (simp add: pair_new_def turn_def)
  then show "pair_reachable p \<Longrightarrow> pair_reachable (turn p)"
    unfolding pair_reachable_def using turn_run by metis
qed

lemma pair_reachable_run:
  assumes "pair_reachable p" and "legal pair_step pair_guard p es"
  shows "pair_reachable (foldl pair_step p es)"
proof -
  from assms(1) obtain a b fs where "legal pair_step pair_guard (pair_new a b) fs" "p = foldl pair_step (pair_new a b) fs"
    unfolding pair_reachable_def by blast
  moreover from this assms(2) have "legal pair_step pair_guard (pair_new a b) (fs @ es)" by (simp add: legal_append)
  ultimately show ?thesis unfolding pair_reachable_def by (metis foldl_append)
qed

end
