(* ===== verification/KpsPairProps.thy ===== *)
theory KpsPairProps
  imports KpsPairRun
begin

text \<open>
  The properties of two connections that talk to each other, over every interleaving of
  their tasks, callbacks, applications and of the arrivals between them.
\<close>

section \<open>A run\<close>

text \<open>Both greet; the far side opens a stream, which the near side accepts.\<close>

definition pair_greeted :: Pair where
  "pair_greeted = foldl pair_step (pair_new here here)
     [AtNear (SdOwn CvControlOpen), AtNear (SdOwn (CvHelloSent True)), AtFar (SdOwn CvControlOpen),
      AtFar (SdOwn (CvHelloSent True)), AtNear SdControl, AtFar SdControl]"

lemma new_limits [simp]: "local_limits (ConnFlow_new l) = l"
  by (simp add: ConnFlow_new_def)

lemma greeted_pair: "pair_greeted = (pair_new here here)\<lparr>near := greeted, far := greeted, near_heard := 1, far_heard := 1\<rparr>"
  unfolding pair_greeted_def greeted_value
  by (simp add: pair_new_def turn_def coming_message_def conn_defs fresh_conn_def hello_engine_def)

lemma greeted_pair_reachable: "pair_reachable pair_greeted"
proof -
  have "pair_reachable (pair_new here here)" unfolding pair_reachable_def by (intro exI [of _ here] exI [of _ "[]"]) simp
  then show ?thesis
    unfolding pair_greeted_def
    by (rule pair_reachable_run) (simp add: pair_new_def turn_def coming_message_def conn_defs)
qed

definition call_engine :: ConnFlow where
  "call_engine = hello_engine\<lparr>streams_opened := 1\<rparr>"

definition caller :: WebrtcStream where
  "caller = Stream_new False False True call_engine"

definition calling :: WebrtcConn where
  "calling = greeted\<lparr>conn_flow := sh_flow caller, conn_streams := [1 \<mapsto> caller], stream_seq := 1, handed_out := [1]\<rparr>"

lemma call_engine_facts:
  "reserve_stream_slot hello_engine = (Ready (Inr ()), hello_engine\<lparr>streams_reserved := 1\<rparr>)"
  "commit_stream_slot (hello_engine\<lparr>streams_reserved := 1\<rparr>) = call_engine" "next_id call_engine = 0"
  "streams_reserved hello_engine = 0" "next_id hello_engine = 0"
  by (simp_all add: call_engine_def guest_eval reserve_stream_slot_def commit_stream_slot_def)

lemma caller_facts:
  "caller\<lparr>sh_flow := sh_flow caller, is_teardown := False\<rparr> = caller" "sh_id caller = 1" "fatal_calls caller = []"
  "dc_open caller"
  by (simp_all add: caller_def call_engine_def guest_eval)

lemma new_channel [simp]: "dc_open (Stream_new pin td op f) = op" "\<not> dc_closed (Stream_new pin td op f)"
  by (simp_all add: Stream_new_def new_stream_def Let_def)

definition pair_called :: Pair where
  "pair_called = foldl pair_step pair_greeted
     [AtFar (SdOwn CvOpen), AtFar (SdOwn (CvOpenEstablished True)), AtFar (SdOwn CvOpenSlot), AtFar (SdOpened DcOpen),
      AtFar (SdOwn (CvOpenReady True 1)), AtNear (SdChannel 0 DcOpen), AtNear (SdOwn (CvSurface 1 True)),
      AtNear (SdOwn CvAccept)]"

lemma called_pair: "pair_called = pair_greeted\<lparr>near := visited, far := calling, joined := [(1, 1)]\<rparr>"
  unfolding pair_called_def greeted_pair visited_value calling_def
  by (simp add: pair_new_def turn_def greeted_value fresh_conn_def conn_defs call_engine_facts hello_engine_facts
      next_id_of_def Let_def wait_open_def caller_facts)
     (simp add: caller_def call_engine_facts guest_def)

lemma called_pair_reachable: "pair_reachable pair_called"
  unfolding pair_called_def
  by (rule pair_reachable_run [OF greeted_pair_reachable])
     (simp add: greeted_pair pair_new_def turn_def greeted_value fresh_conn_def conn_defs call_engine_facts hello_engine_facts
      next_id_of_def Let_def wait_open_def)

text \<open>The far side writes two bytes and sends them; the near side reads them; then the far side ends.\<close>

definition holding :: "WebrtcConn \<Rightarrow> WebrtcStream \<Rightarrow> WebrtcConn" where
  "holding c s = c\<lparr>conn_flow := sh_flow s, conn_streams := [1 \<mapsto> s]\<rparr>"

primrec calm :: "WebrtcStream \<Rightarrow> stream_ev list \<Rightarrow> bool" where
  "calm s [] = True"
| "calm s (e # es) \<longleftrightarrow> stream_guard s e \<and> (\<forall>op. e \<noteq> SvFlow op) \<and> (\<forall>data. e \<noteq> SvMessage data)
     \<and> fatal_calls (stream_step s e) = [] \<and> \<not> is_teardown (stream_step s e) \<and> calm (stream_step s e) es"

lemma load_holding:
  assumes "\<not> is_teardown s" and "\<not> tearing_down c" and "\<not> cs_closed c"
  shows "load (holding c s) s = s"
  using assms by (simp add: load_def holding_def)

lemma holding_step:
  assumes "\<not> is_teardown s" and "\<not> tearing_down c" and "\<not> cs_closed c" and "sh_id s = 1" and "fatal_calls (stream_step s e) = fatal_calls s"
  shows "stream_event 1 e (holding c s) = holding c (stream_step s e)"
proof -
  have "conn_streams (holding c s) 1 = Some s" by (simp add: holding_def)
  then show ?thesis
    using assms load_holding [OF assms(1-3)] step_same_id(1) [of s e]
    by (simp add: stream_event_def put_conn_stream_def Let_def del: step_same_id stream_step.simps) (simp add: holding_def)
qed

lemma holding_run:
  assumes "calm s es" and "\<not> is_teardown s" and "fatal_calls s = []" and "sh_id s = 1"
    and c: "\<not> tearing_down c" "\<not> cs_closed c" "1 \<in> set (handed_out c)"
  shows "legal pair_step pair_guard (p\<lparr>far := holding c s\<rparr>) (map (\<lambda>e. AtFar (SdOwn (CvStream 1 e))) es)
    \<and> foldl pair_step (p\<lparr>far := holding c s\<rparr>) (map (\<lambda>e. AtFar (SdOwn (CvStream 1 e))) es) = p\<lparr>far := holding c (foldl stream_step s es)\<rparr>"
  using assms(1-4)
proof (induction es arbitrary: s)
  case (Cons e es)
  let ?q = "p\<lparr>far := holding c s\<rparr>" and ?e = "AtFar (SdOwn (CvStream 1 e))"
  have st: "stream_event 1 e (holding c s) = holding c (stream_step s e)"
    using Cons.prems c by (intro holding_step) simp_all
  then have "pair_step ?q ?e = p\<lparr>far := holding c (stream_step s e)\<rparr>" by (simp add: turn_def comp_def)
  moreover have "pair_guard ?q ?e"
    using Cons.prems load_holding [OF Cons.prems(2) c(1,2)] c(3)
    by (auto simp: holding_def split: stream_ev.split)
  ultimately show ?case using Cons.IH [of "stream_step s e"] Cons.prems by simp
qed simp

definition talk :: "stream_ev list" where
  "talk = [SvWriterStart, SvWrite 7 [1, 2] (Ready (Inr ())) True, SvWriterSelect, SvWriterBuffer 0,
     SvWriterTransmit, SvWriterSent True]"

definition farewell :: "stream_ev list" where
  "farewell = [SvShutdown (Ready (Inr ())) True, SvWriterSelect, SvWriterBuffer 0, SvWriterTransmit, SvWriterSent True]"

lemmas pair_eval = caller_def call_engine_def guest_eval link_eval talk_def farewell_def

lemma calm_talk: "calm caller talk" "calm (foldl stream_step caller talk) farewell"
  by (simp_all add: pair_eval)

definition pair_spoken :: Pair where
  "pair_spoken = foldl pair_step pair_called (map (\<lambda>e. AtFar (SdOwn (CvStream 1 e))) talk)"

lemma spoken_pair:
  "pair_reachable pair_spoken" "pair_spoken = pair_called\<lparr>far := holding calling (foldl stream_step caller talk)\<rparr>"
proof -
  have c: "\<not> tearing_down calling" "\<not> cs_closed calling" "1 \<in> set (handed_out calling)" "\<not> is_teardown caller"
    by (simp_all add: calling_def greeted_value fresh_conn_def WebrtcConn_new_def caller_def Stream_new_def new_stream_def Let_def)
  have "pair_called = pair_called\<lparr>far := holding calling caller\<rparr>" by (simp add: called_pair holding_def calling_def)
  with holding_run [OF calm_talk(1) c(4) caller_facts(3,2) c(1-3), of pair_called] called_pair_reachable
  show "pair_reachable pair_spoken" "pair_spoken = pair_called\<lparr>far := holding calling (foldl stream_step caller talk)\<rparr>"
    unfolding pair_spoken_def by (metis pair_reachable_run)+
qed

lemma holding_ends:
  assumes "joined p = [(1, 1)]" and "near p = holding c t" and "far p = holding d s"
    and "\<not> is_teardown t" "\<not> tearing_down c" "\<not> cs_closed c" "\<not> is_teardown s" "\<not> tearing_down d" "\<not> cs_closed d"
  shows "near_end p 0 = t" and "far_end p 0 = s"
  using assms load_holding [of t c] load_holding [of s d]
  by (simp_all add: near_end_def far_end_def stream_at_def) (simp_all add: holding_def)

lemma holding_frame:
  assumes "joined p = [(1, 1)]" and "near p = holding c t" and "far p = holding d s"
    and "\<not> is_teardown t" "\<not> tearing_down c" "\<not> cs_closed c" "\<not> is_teardown s" "\<not> tearing_down d" "\<not> cs_closed d"
    and "can_deliver s t" and "fatal_calls (stream_step t (SvMessage (next_frame s t))) = fatal_calls t" and "sh_id t = 1"
  shows "pair_guard p (AtNear (SdFrame 0))"
    and "pair_step p (AtNear (SdFrame 0)) = p\<lparr>near := holding c (stream_step t (SvMessage (next_frame s t)))\<rparr>"
  using assms holding_ends [OF assms(1-9)] holding_step [OF assms(4-6,12,11)]
  by (simp_all add: coming_frame_def del: stream_step.simps)

text \<open>What the near stream is after the frame and a read, and after the end.\<close>

definition spoken :: WebrtcStream where
  "spoken = foldl stream_step caller talk"

definition heard :: WebrtcStream where
  "heard = stream_step guest (SvMessage [0, 1, 2])"

definition ended :: WebrtcStream where
  "ended = foldl stream_step spoken farewell"

lemma spoken_facts:
  "wire_out spoken = [[0, 1, 2]]" "accepted spoken = [1, 2]" "\<not> is_teardown spoken" "sh_id spoken = 1" "fatal_calls spoken = []"
  by (simp_all add: spoken_def pair_eval)

lemma heard_facts:
  "arrived heard = [[0, 1, 2]]" "inbuf heard = [[1, 2]]" "\<not> is_teardown heard" "sh_id heard = 1" "fatal_calls heard = []"
  "arrived guest = []" "\<not> is_teardown guest"
  by (simp_all add: heard_def pair_eval)

lemma near_conn: "\<not> tearing_down visited" "\<not> cs_closed visited" "visited = holding visited guest"
  "\<not> tearing_down calling" "\<not> cs_closed calling" "1 \<in> set (handed_out calling)" "1 \<in> set (handed_out visited)"
  by (simp_all add: visited_value calling_def greeted_value fresh_conn_def WebrtcConn_new_def holding_def)

definition pair_heard :: Pair where
  "pair_heard = pair_step pair_spoken (AtNear (SdFrame 0))"

lemma heard_pair: "pair_reachable pair_heard" "pair_heard = pair_spoken\<lparr>near := holding visited heard\<rparr>"
proof -
  have v: "joined pair_spoken = [(1, 1)]" "near pair_spoken = visited" "far pair_spoken = holding calling spoken"
    unfolding spoken_pair(2) called_pair by (simp_all add: spoken_def)
  note p = v(1) trans [OF v(2) near_conn(3)] v(3)
  have fr: "next_frame spoken guest = [0, 1, 2]" "can_deliver spoken guest"
    using spoken_facts(1) heard_facts(6) guest_facts(4) by (simp_all add: next_frame_def can_deliver_def)
  have "fatal_calls (stream_step guest (SvMessage (next_frame spoken guest))) = fatal_calls guest"
    using heard_facts(5) guest_facts(3) by (simp add: fr(1) heard_def)
  note f = holding_frame [OF p heard_facts(7) near_conn(1,2) spoken_facts(3) near_conn(4,5) fr(2) this guest_facts(2)]
  show "pair_heard = pair_spoken\<lparr>near := holding visited heard\<rparr>"
    using f(2) by (simp add: pair_heard_def heard_def fr(1))
  show "pair_reachable pair_heard"
    using pair_reachable_run [OF spoken_pair(1), of "[AtNear (SdFrame 0)]"] f(1) by (simp add: pair_heard_def del: pair_step.simps pair_guard.simps)
qed

text \<open>The near side reads the two bytes, the far side ends its direction, and the end arrives.\<close>

definition replete :: WebrtcStream where
  "replete = stream_step heard (SvRead 3 5)"

definition finished :: WebrtcStream where
  "finished = stream_step replete (SvMessage (next_frame ended replete))"

lemma finished_facts:
  "stream_guard heard (SvRead 3 5)" "fatal_calls replete = fatal_calls heard" "\<not> is_teardown replete" "sh_id replete = 1"
  "calm spoken farewell" "\<not> is_teardown ended" "can_deliver ended replete" "delivered replete = [1, 2]"
  "fatal_calls finished = fatal_calls replete" "fst (poll_read 3 (Suc 7) finished) = Ready (Inr [])"
  "\<not> is_teardown finished" "accepted ended = [1, 2]"
  using calm_talk(2)
  by (simp_all add: replete_def finished_def ended_def spoken_def heard_def pair_eval)

definition pair_read :: Pair where
  "pair_read = pair_step pair_heard (AtNear (SdOwn (CvStream 1 (SvRead 3 5))))"

definition pair_ended :: Pair where
  "pair_ended = pair_step (foldl pair_step pair_read (map (\<lambda>e. AtFar (SdOwn (CvStream 1 e))) farewell)) (AtNear (SdFrame 0))"

lemma near_holding_step:
  assumes "near p = holding c s" and "stream_guard s e" and "\<forall>op. e \<noteq> SvFlow op" "\<forall>data. e \<noteq> SvMessage data"
    and "fatal_calls (stream_step s e) = fatal_calls s" and "\<not> is_teardown s" "\<not> tearing_down c" "\<not> cs_closed c"
    and "1 \<in> set (handed_out c)" "sh_id s = 1"
  shows "pair_guard p (AtNear (SdOwn (CvStream 1 e)))"
    and "pair_step p (AtNear (SdOwn (CvStream 1 e))) = p\<lparr>near := holding c (stream_step s e)\<rparr>"
proof -
  have "conn_streams (holding c s) 1 = Some s" "handed_out (holding c s) = handed_out c" by (simp_all add: holding_def)
  with assms show "pair_guard p (AtNear (SdOwn (CvStream 1 e)))"
    using load_holding [OF assms(6-8)] by (auto split: stream_ev.split)
  show "pair_step p (AtNear (SdOwn (CvStream 1 e))) = p\<lparr>near := holding c (stream_step s e)\<rparr>"
    using holding_step [OF assms(6-8,10,5)] assms(1) by simp
qed

lemma read_pair: "pair_reachable pair_read" "pair_read = pair_spoken\<lparr>near := holding visited replete\<rparr>"
proof -
  have h: "near pair_heard = holding visited heard" by (simp add: heard_pair(2))
  note r = near_holding_step [OF h finished_facts(1) _ _ finished_facts(2) [unfolded replete_def] heard_facts(3)
      near_conn(1,2,7) heard_facts(4)]
  have r': "pair_guard pair_heard (AtNear (SdOwn (CvStream 1 (SvRead 3 5))))"
    "pair_read = pair_heard\<lparr>near := holding visited replete\<rparr>"
    using r unfolding pair_read_def replete_def by blast+
  show "pair_read = pair_spoken\<lparr>near := holding visited replete\<rparr>" using r'(2) by (simp add: heard_pair(2))
  show "pair_reachable pair_read"
    using pair_reachable_run [OF heard_pair(1), of "[AtNear (SdOwn (CvStream 1 (SvRead 3 5)))]"] r'(1)
    by (simp add: pair_read_def del: pair_step.simps pair_guard.simps)
qed

lemma ended_pair:
  "pair_reachable pair_ended" "pair_ended = pair_read\<lparr>near := holding visited finished, far := holding calling ended\<rparr>"
proof -
  let ?es = "map (\<lambda>e. AtFar (SdOwn (CvStream 1 e))) farewell" and ?p = "pair_read\<lparr>far := holding calling ended\<rparr>"
  have e: "pair_read\<lparr>far := holding calling spoken\<rparr> = pair_read"
    unfolding read_pair(2) spoken_pair(2) by (simp add: spoken_def)
  note h = holding_run [OF finished_facts(5) spoken_facts(3,5,4) near_conn(4-6), of pair_read, unfolded e]
  then have q: "foldl pair_step pair_read ?es = ?p" unfolding ended_def by blast
  have j: "joined ?p = [(1, 1)]" "near ?p = holding visited replete" "far ?p = holding calling ended"
    unfolding read_pair(2) spoken_pair(2) called_pair by simp_all
  note f = holding_frame [OF j finished_facts(3) near_conn(1,2) finished_facts(6) near_conn(4,5) finished_facts(7)
      finished_facts(9) [unfolded finished_def] finished_facts(4)]
  show "pair_ended = pair_read\<lparr>near := holding visited finished, far := holding calling ended\<rparr>"
    unfolding pair_ended_def q f(2) finished_def by simp
  have "pair_reachable (foldl pair_step pair_read ?es)" using pair_reachable_run [OF read_pair(1)] h by blast
  from pair_reachable_run [OF this, of "[AtNear (SdFrame 0)]"] show "pair_reachable pair_ended"
    using f(1) unfolding pair_ended_def q by simp
qed

section \<open>One direction\<close>

lemma pair_ends:
  assumes "pair_reachable p" and "k < length (joined p)"
  shows "end_inv (far_end p k)" "end_inv (near_end p k)" "chan_ok (far_end p k) (near_end p k)" "chan_ok (near_end p k) (far_end p k)"
  using joined_ends [OF pair_reachable_inv [OF assms(1)] assms(2)] by blast+

lemma next_control_sound:
  assumes "pair_inv p" and "side_guard p SdControl"
  shows "\<not> control_violation (coming_message p) (near p)"
    and "decode_control (coming_message p) = Inr (CtlHello v l) \<Longrightarrow> v = WIRE_VERSION"
proof -
  have f: "end_ok (far p)" and d: "dir_ok (far p) (near p) (near_heard p) (near_coming p) (map prod.swap (joined p))"
    using assms(1) by (simp_all add: pair_inv_def)
  have k: "near_heard p < length (control_out (far p))" using assms(2) by simp
  note a = control_arrives [OF f d k refl]
  show "\<not> control_violation (coming_message p) (near p)" using a(3) by (simp add: coming_message_def)
  show "decode_control (coming_message p) = Inr (CtlHello v l) \<Longrightarrow> v = WIRE_VERSION"
    using a(4) by (simp add: coming_message_def)
qed

lemma drained_at_eof:
  assumes "end_inv t" and "fst (poll_read w (Suc cap) t) = Ready (Inr [])"
  shows "inbuf t = [] \<and> \<not> read_cancel t \<and> peer_reset t = None \<and> peer_fin t"
proof -
  have "[] \<notin> set (inbuf t)" using end_invD(2) [OF assms(1)] by (simp add: state_ok_def flags_ok_def)
  with assms(2) show ?thesis
    by (auto simp: poll_read_def Let_def min_def split: list.splits option.splits if_splits)
qed

lemma credit_chain:
  assumes "pair_inv p"
  shows "unat (conn_received (conn_flow (near p))) \<le> map_total wired (conn_streams (far p))"
    and "map_total wired (conn_streams (far p)) \<le> unat (peer_max_data (conn_flow (far p)))"
    and "told_ok (near p) (far p)"
proof -
  let ?c = "near p" and ?f = "far p" and ?J = "joined p"
  have c: "end_ok ?c" and f: "end_ok ?f"
    and fwd: "dir_ok ?c ?f (far_heard p) (far_coming p) ?J"
    and tow: "dir_ok ?f ?c (near_heard p) (near_coming p) (map prod.swap ?J)"
    using assms by (simp_all add: pair_inv_def)
  have "unat (conn_received (conn_flow ?c)) \<le> map_total arrived_bytes (conn_streams ?c)"
    using end_okD(2) [OF c] by (simp add: tally_ok_def)
  moreover have "map_total arrived_bytes (conn_streams ?c) + 0 \<le> map_total wired (conn_streams ?f)"
    using fwd tow by (intro bytes_underway [OF c f, of ?J "far_coming p" 0]) (simp_all add: dir_ok_def)
  ultimately show "unat (conn_received (conn_flow ?c)) \<le> map_total wired (conn_streams ?f)" by simp
  show "map_total wired (conn_streams ?f) \<le> unat (peer_max_data (conn_flow ?f))"
    using wired_within [OF end_okD(1,2) [OF f]] .
  show "told_ok ?c ?f" using fwd by (simp add: dir_ok_def)
qed

section \<open>The properties\<close>

text \<open>Before the greetings arrive, and when the far side's channel is announced.\<close>

definition pair_hello :: Pair where
  "pair_hello = foldl pair_step (pair_new here here)
     [AtNear (SdOwn CvControlOpen), AtNear (SdOwn (CvHelloSent True)), AtFar (SdOwn CvControlOpen),
      AtFar (SdOwn (CvHelloSent True))]"

definition pair_announced :: Pair where
  "pair_announced = foldl pair_step pair_greeted
     [AtFar (SdOwn CvOpen), AtFar (SdOwn (CvOpenEstablished True)), AtFar (SdOwn CvOpenSlot), AtFar (SdOpened DcOpen)]"

lemma hello_pair_reachable: "pair_reachable pair_hello" "side_guard pair_hello SdControl"
proof -
  have "pair_reachable (pair_new here here)" unfolding pair_reachable_def by (intro exI [of _ here] exI [of _ "[]"]) simp
  then show "pair_reachable pair_hello"
    unfolding pair_hello_def by (rule pair_reachable_run) (simp add: pair_new_def turn_def conn_defs)
  show "side_guard pair_hello SdControl" by (simp add: pair_hello_def pair_new_def turn_def conn_defs)
qed

lemma announced_pair_reachable: "pair_reachable pair_announced" "side_guard pair_announced (SdChannel 0 DcOpen)"
proof -
  show "pair_reachable pair_announced"
    unfolding pair_announced_def
    by (rule pair_reachable_run [OF greeted_pair_reachable])
       (simp add: greeted_pair pair_new_def turn_def greeted_value fresh_conn_def conn_defs call_engine_facts next_id_of_def
         Let_def wait_open_def)
  show "side_guard pair_announced (SdChannel 0 DcOpen)"
    unfolding pair_announced_def
    by (simp add: greeted_pair pair_new_def turn_def greeted_value fresh_conn_def conn_defs call_engine_facts next_id_of_def
         Let_def wait_open_def)
qed

lemma spoken_frame: "side_guard pair_spoken (SdFrame 0)"
proof -
  have v: "joined pair_spoken = [(1, 1)]" "near pair_spoken = visited" "far pair_spoken = holding calling spoken"
    unfolding spoken_pair(2) called_pair by (simp_all add: spoken_def)
  note e = holding_ends [OF v(1) trans [OF v(2) near_conn(3)] v(3) heard_facts(7) near_conn(1,2) spoken_facts(3) near_conn(4,5)]
  have "can_deliver spoken guest" using spoken_facts(1) heard_facts(6) guest_facts(4) by (simp add: can_deliver_def)
  then show ?thesis using v(1) by (simp add: e)
qed



text \<open>
  C10: Bytes arrive in order and without loss or duplication on every stream of a pair of
  connections: what one application has read is a prefix of what the other application's
  writes accepted, unless its channel was closed in the middle of the stream.
\<close>

theorem pair_bytes_in_order:
  assumes "pair_reachable p" and "k < length (joined p)" and "fatal_calls (near_end p k) = []"
  shows "\<exists>rest. accepted (far_end p k) = delivered (near_end p k) @ rest"
  using delivered_in_order [OF pair_ends(1-3) [OF assms(1,2)] assms(3)] .

lemma witness_ends:
  "0 < length (joined pair_read)" "near_end pair_read 0 = replete" "far_end pair_read 0 = spoken"
  "0 < length (joined pair_ended)" "near_end pair_ended 0 = finished" "far_end pair_ended 0 = ended"
proof -
  have r: "joined pair_read = [(1, 1)]" "near pair_read = holding visited replete" "far pair_read = holding calling spoken"
    unfolding read_pair(2) spoken_pair(2) called_pair by (simp_all add: spoken_def)
  then show "0 < length (joined pair_read)" "near_end pair_read 0 = replete" "far_end pair_read 0 = spoken"
    using holding_ends [OF r finished_facts(3) near_conn(1,2) spoken_facts(3) near_conn(4,5)] by simp_all
  have e: "joined pair_ended = [(1, 1)]" "near pair_ended = holding visited finished" "far pair_ended = holding calling ended"
    unfolding ended_pair(2) using r by simp_all
  then show "0 < length (joined pair_ended)" "near_end pair_ended 0 = finished" "far_end pair_ended 0 = ended"
    using holding_ends [OF e finished_facts(11) near_conn(1,2) finished_facts(6) near_conn(4,5)] by simp_all
qed

theorem pair_bytes_in_order_witness:
  "delivered (near_end pair_read 0) = [1, 2] \<and> (\<exists>rest. [1, 2] = delivered (near_end pair_read 0) @ rest)"
proof -
  have "fatal_calls (near_end pair_read 0) = []"
    using finished_facts(2) heard_facts(5) by (simp add: witness_ends)
  from pair_bytes_in_order [OF read_pair(1) witness_ends(1) this] show ?thesis
    using finished_facts(8) spoken_facts(2) by (simp add: witness_ends)
qed



text \<open>
  C4: Credit is conserved across a pair of connections, at any moment of any run: a side
  never believes it may send more bytes, open more streams, or start a stream with a larger
  window, than the other side enforces; and the bytes the other side has counted are bytes
  this side has put on the wire, within the credit it was told of.
\<close>

theorem pair_credit_conserved:
  assumes "pair_reachable p" and "q = p \<or> q = turn p"
  shows "unat (conn_received (conn_flow (near q))) \<le> map_total wired (conn_streams (far q))
     \<and> map_total wired (conn_streams (far q)) \<le> unat (peer_max_data (conn_flow (far q)))
     \<and> peer_max_data (conn_flow (far q)) \<le> local_max_data (conn_flow (near q))
     \<and> peer_max_streams (conn_flow (far q)) \<le> advertised_max_streams (conn_flow (near q))
     \<and> peer_init_stream_data (conn_flow (far q)) \<le> max_stream_data DEFAULT_FLOW_LIMITS"
proof -
  have "pair_inv q" using assms pair_reachable_inv turn_reachable by blast
  from credit_chain [OF this] show ?thesis by (simp add: told_ok_def)
qed

theorem pair_credit_conserved_witness:
  "conn_received (conn_flow (near pair_ended)) = 2 \<and> 2 \<le> map_total wired (conn_streams (far pair_ended))"
proof -
  have "conn_received (conn_flow (near pair_ended)) = 2"
    unfolding ended_pair(2) by (simp add: holding_def finished_def replete_def heard_def ended_def spoken_def pair_eval)
  with pair_credit_conserved [OF ended_pair(1) disjI1 [OF refl]] show ?thesis by simp
qed

end
