(* ===== verification/KpsCommands.thy ===== *)
theory KpsCommands
  imports KpsDialer
begin

text \<open>
  \<open>src/libs/rust/kps-dial/src/main.rs\<close> and \<open>src/libs/rust/kps-server/src/main.rs\<close>: the flag
  parsers of the echo client and server, and the client's run over what its calls returned.
  A process exit is a value: the code and the line on standard error.
\<close>

section \<open>Flags\<close>

datatype exit = Exit nat string

definition split_arg :: "string \<Rightarrow> string \<times> string option" where
  "split_arg arg =
     (let s = dropWhile (\<lambda>c. c = CHR ''-'') arg
      in case split_once (CHR ''='') s of Some (n, v) \<Rightarrow> (n, Some v) | None \<Rightarrow> (s, None))"

definition take_value :: "string \<Rightarrow> string \<Rightarrow> string option \<Rightarrow> string list \<Rightarrow> exit + (string \<times> string list)" where
  "take_value prog name inline rest =
     (case inline of
        Some v \<Rightarrow> Inr (v, rest)
      | None \<Rightarrow> (case rest of [] \<Rightarrow> Inl (Exit 2 (prog @ '': -'' @ name @ '' requires a value'')) | v # vs \<Rightarrow> Inr (v, vs)))"

lemma take_value_shrinks: "take_value prog name inline rest = Inr (v, rest') \<Longrightarrow> length rest' \<le> length rest"
  by (auto simp: take_value_def split: option.splits list.splits)

record ServerFlags =
  sf_listen :: string
  sf_key :: string
  sf_ip :: string

definition server_defaults :: ServerFlags where
  "server_defaults = \<lparr>sf_listen = '':0'', sf_key = ''kps.key'', sf_ip = ''''\<rparr>"

definition set_server_flag :: "string \<Rightarrow> (string \<Rightarrow> ServerFlags \<Rightarrow> ServerFlags) option" where
  "set_server_flag name =
     (if name = ''listen'' then Some (\<lambda>v f. f\<lparr>sf_listen := v\<rparr>)
      else if name = ''key'' then Some (\<lambda>v f. f\<lparr>sf_key := v\<rparr>)
      else if name = ''ip'' then Some (\<lambda>v f. f\<lparr>sf_ip := v\<rparr>)
      else None)"

function server_flags :: "string list \<Rightarrow> ServerFlags \<Rightarrow> exit + ServerFlags" where
  "server_flags [] f = Inr f"
| "server_flags (arg # rest) f =
     (case set_server_flag (fst (split_arg arg)) of
        None \<Rightarrow> Inl (Exit 2 (''server: unknown flag -'' @ fst (split_arg arg)))
      | Some upd \<Rightarrow>
          (case take_value ''server'' (fst (split_arg arg)) (snd (split_arg arg)) rest of
             Inl e \<Rightarrow> Inl e
           | Inr (v, rest') \<Rightarrow> server_flags rest' (upd v f)))"
  by pat_completeness auto
termination
  by (relation "measure (\<lambda>(args, f). length args)") (auto dest: take_value_shrinks simp: less_Suc_eq_le)

text \<open>
  The client's flags. The timeout is kept in nanoseconds, as a \<open>Duration\<close> is; the floating
  point reading of the text and its conversion (which panics on what is not a duration) are
  an argument.
\<close>

record DialFlags =
  df_addr :: string
  df_transport :: string
  df_message :: string
  df_timeout :: nat
  df_close_code :: u32
  df_datagram :: bool
  df_repeat :: nat

definition dial_defaults :: DialFlags where
  "dial_defaults =
     \<lparr>df_addr = '''', df_transport = ''quic'', df_message = ''hello-kps'', df_timeout = 15000000000, df_close_code = 0,
      df_datagram = False, df_repeat = 1\<rparr>"

definition trim_end :: "char \<Rightarrow> string \<Rightarrow> string" where
  "trim_end c s = rev (dropWhile (\<lambda>x. x = c) (rev s))"

definition set_dial_flag ::
  "(string \<Rightarrow> nat option) \<Rightarrow> string \<Rightarrow> (string \<Rightarrow> DialFlags \<Rightarrow> exit + DialFlags) option" where
  "set_dial_flag duration name =
     (if name = ''addr'' then Some (\<lambda>v f. Inr (f\<lparr>df_addr := v\<rparr>))
      else if name = ''transport'' then Some (\<lambda>v f. Inr (f\<lparr>df_transport := v\<rparr>))
      else if name = ''message'' then Some (\<lambda>v f. Inr (f\<lparr>df_message := v\<rparr>))
      else if name = ''timeout'' then
        Some (\<lambda>v f. case duration (trim_end (CHR ''s'') v) of
                      None \<Rightarrow> Inl (Exit 101 ''panic: cannot convert float seconds to Duration'')
                    | Some ns \<Rightarrow> Inr (f\<lparr>df_timeout := ns\<rparr>))
      else if name = ''closecode'' then
        Some (\<lambda>v f. Inr (f\<lparr>df_close_code := (case parse_uint (2 ^ 32) v of None \<Rightarrow> 0 | Some n \<Rightarrow> of_nat n)\<rparr>))
      else if name = ''repeat'' then
        Some (\<lambda>v f. Inr (f\<lparr>df_repeat := (case parse_uint (2 ^ 64) v of None \<Rightarrow> 1 | Some n \<Rightarrow> n)\<rparr>))
      else None)"

function dial_flags :: "(string \<Rightarrow> nat option) \<Rightarrow> string list \<Rightarrow> DialFlags \<Rightarrow> exit + DialFlags" where
  "dial_flags duration [] f = Inr f"
| "dial_flags duration (arg # rest) f =
     (if fst (split_arg arg) = ''datagram''
      then dial_flags duration rest
             (f\<lparr>df_datagram := (case snd (split_arg arg) of Some v \<Rightarrow> v = ''true'' | None \<Rightarrow> True)\<rparr>)
      else case set_dial_flag duration (fst (split_arg arg)) of
        None \<Rightarrow> Inl (Exit 2 (''dial: unknown flag -'' @ fst (split_arg arg)))
      | Some upd \<Rightarrow>
          (case take_value ''dial'' (fst (split_arg arg)) (snd (split_arg arg)) rest of
             Inl e \<Rightarrow> Inl e
           | Inr (v, rest') \<Rightarrow> (case upd v f of Inl e \<Rightarrow> Inl e | Inr f' \<Rightarrow> dial_flags duration rest' f')))"
  by pat_completeness auto
termination
  by (relation "measure (\<lambda>(d, args, f). length args)") (auto dest: take_value_shrinks simp: less_Suc_eq_le)

section \<open>The client's run\<close>

text \<open>A call under \<open>timeout\<close>.\<close>

datatype 'a timed = TimedOut | Done "string + 'a"

text \<open>
  What the calls returned: the attempts of the datagram loop up to its deadline (whether the
  send worked, and what was received within 300 ms), and the calls on the stream.
\<close>

record DialCalls =
  cl_dial :: "unit timed"
  cl_attempts :: "(bool \<times> bytes timed) list"
  cl_open :: "unit timed"
  cl_write :: "unit timed"
  cl_close_write :: "string + unit"
  cl_read :: "bytes timed"

text \<open>How the process ends: its exit code, the bytes printed, and the close of the connection.\<close>

record DialEnd =
  de_exit :: nat
  de_stdout :: bytes
  de_stderr :: string
  de_close :: "ErrorCode option"

definition fail :: "nat \<Rightarrow> string \<Rightarrow> DialEnd" where
  "fail code msg = \<lparr>de_exit = code, de_stdout = [], de_stderr = msg, de_close = None\<rparr>"

definition finish :: "u32 \<Rightarrow> bytes \<Rightarrow> DialEnd" where
  "finish close_code out =
     \<lparr>de_exit = 0, de_stdout = out, de_stderr = '''',
      de_close = Some (if close_code > 0 then from_wire close_code else EcNone)\<rparr>"

fun datagram_loop :: "DialFlags \<Rightarrow> (bool \<times> bytes timed) list \<Rightarrow> DialEnd" where
  "datagram_loop f [] = fail 1 ''datagram: no echo within timeout''"
| "datagram_loop f ((sent, got) # later) =
     (if \<not> sent then datagram_loop f later
      else case got of
        Done (Inr bytes) \<Rightarrow>
          if bytes \<noteq> str_bytes (df_message f)
          then (fail 1 ''datagram echo mismatch'')\<lparr>de_stdout := bytes\<rparr>
          else finish (df_close_code f) bytes
      | _ \<Rightarrow> datagram_loop f later)"

definition call_failed :: "string \<Rightarrow> 'a timed \<Rightarrow> DialEnd option" where
  "call_failed what r =
     (case r of
        TimedOut \<Rightarrow> Some (fail 1 (what @ '': timed out''))
      | Done (Inl e) \<Rightarrow> Some (fail 1 (what @ '': '' @ e))
      | Done (Inr _) \<Rightarrow> None)"

definition payload :: "DialFlags \<Rightarrow> bytes" where
  "payload f = concat (replicate (df_repeat f) (str_bytes (df_message f)))"

definition stream_echo :: "DialFlags \<Rightarrow> DialCalls \<Rightarrow> DialEnd" where
  "stream_echo f c =
     (case call_failed ''open stream'' (cl_open c) of Some e \<Rightarrow> e | None \<Rightarrow>
     (case call_failed ''write'' (cl_write c) of Some e \<Rightarrow> e | None \<Rightarrow>
     (case cl_close_write c of Inl e \<Rightarrow> fail 1 (''close write: '' @ e) | Inr _ \<Rightarrow>
     (case cl_read c of
        Done (Inr echoed) \<Rightarrow>
          if echoed \<noteq> payload f
          then fail 1 (''dial: echo mismatch: sent '' @ show_nat (length (payload f)) @ '' bytes, got ''
                        @ show_nat (length echoed) @ '' bytes'')
          else finish (df_close_code f)
                 (if df_repeat f > 1 then str_bytes (''echoed '' @ show_nat (length echoed) @ '' bytes OK'') else echoed)
      | TimedOut \<Rightarrow> fail 1 ''read: timed out''
      | Done (Inl e) \<Rightarrow> fail 1 (''read: '' @ e)))))"

definition dial_main :: "DialFlags \<Rightarrow> DialCalls \<Rightarrow> DialEnd" where
  "dial_main f c =
     (if df_addr f = '''' then fail 2 ''dial: -addr is required''
      else if df_transport f \<noteq> ''quic'' \<and> df_transport f \<noteq> ''webrtc''
      then fail 2 (''dial: unknown transport '' @ str_debug (df_transport f))
      else case call_failed ''dial'' (cl_dial c) of
        Some e \<Rightarrow> e
      | None \<Rightarrow> if df_datagram f then datagram_loop f (cl_attempts c) else stream_echo f c)"

section \<open>What the exit code says\<close>

text \<open>The first datagram that came back after a send that worked.\<close>

fun first_echo :: "(bool \<times> bytes timed) list \<Rightarrow> bytes option" where
  "first_echo [] = None"
| "first_echo ((sent, got) # later) =
     (if sent then (case got of Done (Inr b) \<Rightarrow> Some b | _ \<Rightarrow> first_echo later) else first_echo later)"

lemma datagram_loop_exit: "de_exit (datagram_loop f as) = 0 \<longleftrightarrow> first_echo as = Some (str_bytes (df_message f))"
  by (induction f as rule: datagram_loop.induct) (auto simp: fail_def finish_def split: timed.split sum.split)

lemma call_failed_simps [simp]:
  "call_failed what (Done (Inr x)) = None" "call_failed what r = None \<longleftrightarrow> (\<exists>x. r = Done (Inr x))"
  by (auto simp: call_failed_def split: timed.splits sum.splits)

lemma from_wire_0 [simp]: "from_wire 0 = EcNone"
  by (simp add: from_wire_def)

lemma ends [simp]:
  "de_close (finish code out) = Some (from_wire code)" "de_exit (finish code out) = 0"
  "de_close (fail n msg) = None" "de_exit (fail n msg) = n"
  by (simp_all add: finish_def fail_def word_gt_0)

lemma call_failed_ends: "call_failed what r = Some e \<Longrightarrow> de_exit e = 1 \<and> de_close e = None"
  by (auto simp: call_failed_def split: timed.splits sum.splits)

lemma stream_echo_exit:
  "de_exit (stream_echo f c) = 0 \<longleftrightarrow>
     cl_open c = Done (Inr ()) \<and> cl_write c = Done (Inr ()) \<and> cl_close_write c = Inr () \<and> cl_read c = Done (Inr (payload f))"
  by (auto simp: stream_echo_def dest: call_failed_ends split: option.split sum.split timed.split)

lemma ends_clean:
  "de_close (stream_echo f c) = (if de_exit (stream_echo f c) = 0 then Some (from_wire (df_close_code f)) else None)"
  "de_close (datagram_loop f as) = (if de_exit (datagram_loop f as) = 0 then Some (from_wire (df_close_code f)) else None)"
proof -
  show "de_close (stream_echo f c) = (if de_exit (stream_echo f c) = 0 then Some (from_wire (df_close_code f)) else None)"
    by (auto simp: stream_echo_def dest: call_failed_ends split: option.split sum.split timed.split)
  show "de_close (datagram_loop f as) = (if de_exit (datagram_loop f as) = 0 then Some (from_wire (df_close_code f)) else None)"
    by (induction f as rule: datagram_loop.induct) (auto split: timed.split sum.split)
qed

text \<open>
  The echo client exits with 0 exactly when the echo matches: it was given an address and
  a known transport, the connection came up, and either the first datagram that came back is
  the message, or the stream was opened, written and closed and the bytes read from it up to
  its end are the message, repeated as asked; and then, and only then, it closes the
  connection, with the code it was given.
\<close>

theorem echo_exit_exact:
  "(de_exit (dial_main f c) = 0 \<longleftrightarrow>
     df_addr f \<noteq> '''' \<and> df_transport f \<in> {''quic'', ''webrtc''} \<and> cl_dial c = Done (Inr ())
     \<and> (if df_datagram f then first_echo (cl_attempts c) = Some (str_bytes (df_message f))
        else cl_open c = Done (Inr ()) \<and> cl_write c = Done (Inr ()) \<and> cl_close_write c = Inr ()
          \<and> cl_read c = Done (Inr (payload f))))
   \<and> (de_close (dial_main f c) =
        (if de_exit (dial_main f c) = 0 then Some (from_wire (df_close_code f)) else None))"
proof (cases "df_addr f = [] \<or> (df_transport f \<noteq> ''quic'' \<and> df_transport f \<noteq> ''webrtc'')")
  case True
  then show ?thesis by (auto simp: dial_main_def fail_def)
next
  case False
  then have addr: "df_addr f \<noteq> []" and tr: "\<not> (df_transport f \<noteq> ''quic'' \<and> df_transport f \<noteq> ''webrtc'')" by blast+
  show ?thesis
  proof (cases "call_failed ''dial'' (cl_dial c)")
    case None
    then have up: "cl_dial c = Done (Inr ())" by simp
    have main: "dial_main f c = (if df_datagram f then datagram_loop f (cl_attempts c) else stream_echo f c)"
      using addr tr None by (simp only: dial_main_def option.case if_False simp_thms)
    show ?thesis
      unfolding main using addr tr up ends_clean(1) [of f c] ends_clean(2) [of f "cl_attempts c"]
      by (simp add: datagram_loop_exit stream_echo_exit)
  next
    case (Some e)
    then have "cl_dial c \<noteq> Done (Inr ())" and "de_exit e = 1" and "de_close e = None"
      using call_failed_ends by auto
    moreover have "dial_main f c = e"
      using addr tr Some by (simp only: dial_main_def option.case if_False simp_thms)
    ultimately show ?thesis by simp
  qed
qed

theorem echo_exit_exact_witness:
  "de_exit (dial_main (dial_defaults\<lparr>df_addr := ''127.0.0.1:1:u''\<rparr>)
     \<lparr>cl_dial = Done (Inr ()), cl_attempts = [], cl_open = Done (Inr ()), cl_write = Done (Inr ()),
      cl_close_write = Inr (), cl_read = Done (Inr (str_bytes ''hello-kps''))\<rparr>) = 0"
  using echo_exit_exact [of "dial_defaults\<lparr>df_addr := ''127.0.0.1:1:u''\<rparr>"
     "\<lparr>cl_dial = Done (Inr ()), cl_attempts = [], cl_open = Done (Inr ()), cl_write = Done (Inr ()),
      cl_close_write = Inr (), cl_read = Done (Inr (str_bytes ''hello-kps''))\<rparr>"]
  by (simp add: dial_defaults_def payload_def)

end
