(* ===== verification/KpsEcho.thy ===== *)
theory KpsEcho
  imports KpsPairProps KpsCommands KpsServe
begin

text \<open>
  The echo server of \<open>src/libs/rust/kps-server/src/main.rs\<close>, and the echo client and server
  at the two ends of a pair of connections.
\<close>

section \<open>The server\<close>

text \<open>
  What \<open>accept\<close> answers, up to its first error, is handled; each datagram received before the
  first error is sent back, whatever the send answers.
\<close>

fun accept_loop :: "(Error + 'c) list \<Rightarrow> 'c list" where
  "accept_loop (Inr conn # later) = conn # accept_loop later"
| "accept_loop _ = []"

fun datagram_echo :: "(Error + bytes) list \<Rightarrow> bytes list" where
  "datagram_echo (Inr d # later) = d # datagram_echo later"
| "datagram_echo _ = []"

text \<open>A stream: the lines on standard error, and that the write half is shut down, for the answer of \<open>copy\<close>.\<close>

definition stream_copy :: "string + nat \<Rightarrow> string list \<times> bool" where
  "stream_copy copied =
     (''[echo] new stream'' # (case copied of Inl e \<Rightarrow> [''[echo] copy: '' @ e] | Inr n \<Rightarrow> []), True)"

definition handle_conn :: "(Error + bytes) list \<Rightarrow> (Error + (string + nat)) list \<Rightarrow> bytes list \<times> (string list \<times> bool) list" where
  "handle_conn datagrams opened = (datagram_echo datagrams, map stream_copy (accept_loop opened))"

text \<open>The process: the line it prints and the connections it handles, or the error of \<open>listen\<close>.\<close>

definition server_main ::
  "ServerFlags \<Rightarrow> (string \<Rightarrow> string option \<Rightarrow> Error + Listener) \<Rightarrow> string \<Rightarrow> (Error + 'c) list \<Rightarrow> Error + string \<times> 'c list" where
  "server_main f listen_on local_ip accepts =
     and_then (listen_on (sf_listen f) (Some (sf_key f))) (\<lambda>s.
     Inr (''listening; dial with kps.dial('' @ [CHR 0x22] @ listener_address local_ip (sf_ip f) s @ [CHR 0x22] @ '')'',
          accept_loop accepts))"

lemma accept_loop_prefix:
  "accept_loop rs = map (\<lambda>r. case r of Inr c \<Rightarrow> c | Inl e \<Rightarrow> undefined) (takeWhile (\<lambda>r. \<exists>c. r = Inr c) rs)"
  by (induction rs rule: accept_loop.induct) auto

section \<open>Both ends of an echo\<close>

lemma turned_ends:
  assumes "k < length (joined p)"
  shows "near_end (turn p) k = far_end p k" "far_end (turn p) k = near_end p k" "k < length (joined (turn p))"
  using assms by (simp_all add: near_end_def far_end_def)

lemma read_to_the_end:
  assumes "pair_reachable p" and "k < length (joined p)" and "fatal_calls (near_end p k) = []"
    and "fst (poll_read w (Suc cap) (near_end p k)) = Ready (Inr [])"
  shows "accepted (far_end p k) = delivered (near_end p k)"
  using all_delivered_at_fin [OF pair_ends(1-3) [OF assms(1,2)] assms(3)]
    drained_at_eof [OF pair_ends(2) [OF assms(1,2)] assms(4)] by simp

section \<open>A run\<close>

text \<open>
  After the far side's end has arrived, the near side writes the two bytes back and ends, and
  the far side reads them.
\<close>

definition reply :: "stream_ev list" where
  "reply = [SvWriterStart, SvWrite 9 [1, 2] (Ready (Inr ())) True, SvWriterSelect, SvWriterBuffer 0,
     SvWriterTransmit, SvWriterSent True, SvShutdown (Ready (Inr ())) True, SvWriterSelect, SvWriterBuffer 0,
     SvWriterTransmit, SvWriterSent True]"

definition replied :: WebrtcStream where
  "replied = foldl stream_step finished reply"

definition told :: WebrtcStream where
  "told = stream_step ended (SvMessage [0, 1, 2])"

definition told_all :: WebrtcStream where
  "told_all = stream_step told (SvMessage [1])"

definition echoed :: WebrtcStream where
  "echoed = stream_step told_all (SvRead 3 5)"

lemmas echo_eval = echoed_def told_all_def told_def replied_def reply_def finished_def replete_def heard_def ended_def spoken_def pair_eval

lemma echo_facts:
  "calm finished reply" "\<not> is_teardown replied" "sh_id replied = 1" "fatal_calls replied = []" "wire_out replied = [[0, 1, 2], [1]]"
  "accepted replied = [1, 2]" "delivered replied = [1, 2]" "fst (poll_read 3 (Suc 7) replied) = Ready (Inr [])"
  "fatal_calls finished = []" "sh_id finished = 1"
  by (simp_all add: echo_eval)

lemma reply_facts:
  "arrived ended = []" "fatal_calls ended = []" "dc_open ended" "\<not> dc_closed ended" "sh_id ended = 1"
  "arrived told = [[0, 1, 2]]" "fatal_calls told = []" "\<not> dc_closed told" "\<not> is_teardown told" "sh_id told = 1"
  "fatal_calls told_all = []" "\<not> dc_closed told_all" "\<not> is_teardown told_all" "sh_id told_all = 1"
  "calm told_all [SvRead 3 5]" "delivered echoed = [1, 2]" "accepted echoed = [1, 2]" "fatal_calls echoed = []"
  "fst (poll_read 3 (Suc 7) echoed) = Ready (Inr [])" "\<not> is_teardown echoed"
  by (simp_all add: echo_eval)

text \<open>The same steps as \<open>holding_run\<close> and \<open>holding_frame\<close>, with the sides exchanged.\<close>

lemma turn_holding: "turn (p\<lparr>far := a\<rparr>) = (turn p)\<lparr>near := a\<rparr>" "turn (p\<lparr>near := a\<rparr>) = (turn p)\<lparr>far := a\<rparr>"
  by (simp_all add: turn_def)

lemma near_holding_run:
  assumes "near p = holding c s" and "calm s es" and "\<not> is_teardown s" and "fatal_calls s = []" and "sh_id s = 1"
    and "\<not> tearing_down c" "\<not> cs_closed c" "1 \<in> set (handed_out c)"
  shows "legal pair_step pair_guard p (map (\<lambda>e. AtNear (SdOwn (CvStream 1 e))) es)
    \<and> foldl pair_step p (map (\<lambda>e. AtNear (SdOwn (CvStream 1 e))) es) = p\<lparr>near := holding c (foldl stream_step s es)\<rparr>"
proof -
  let ?es = "map (\<lambda>e. AtFar (SdOwn (CvStream 1 e))) es"
  have "(turn p)\<lparr>far := holding c s\<rparr> = turn p" using assms(1) by (simp add: turn_def)
  with holding_run [OF assms(2-8), of "turn p"]
  have r: "legal pair_step pair_guard (turn p) ?es" "foldl pair_step (turn p) ?es = (turn p)\<lparr>far := holding c (foldl stream_step s es)\<rparr>"
    by simp_all
  have "map turn_ev ?es = map (\<lambda>e. AtNear (SdOwn (CvStream 1 e))) es" by simp
  with turn_run [OF r(1)] r(2) show ?thesis by (simp add: turn_holding comp_def)
qed

lemma far_holding_frame:
  assumes "joined p = [(1, 1)]" and "near p = holding c s" and "far p = holding d t"
    and "\<not> is_teardown t" "\<not> tearing_down d" "\<not> cs_closed d" "\<not> is_teardown s" "\<not> tearing_down c" "\<not> cs_closed c"
    and "can_deliver s t" and "fatal_calls (stream_step t (SvMessage (next_frame s t))) = fatal_calls t" and "sh_id t = 1"
  shows "pair_guard p (AtFar (SdFrame 0))"
    and "pair_step p (AtFar (SdFrame 0)) = p\<lparr>far := holding d (stream_step t (SvMessage (next_frame s t)))\<rparr>"
proof -
  have t: "joined (turn p) = [(1, 1)]" "near (turn p) = holding d t" "far (turn p) = holding c s"
    using assms(1-3) by simp_all
  note f = holding_frame [OF t assms(4-12)]
  show "pair_guard p (AtFar (SdFrame 0))" using f(1) by simp
  show "pair_step p (AtFar (SdFrame 0)) = p\<lparr>far := holding d (stream_step t (SvMessage (next_frame s t)))\<rparr>"
    using f(2) by (simp add: turn_holding)
qed

definition pair_echoed :: Pair where
  "pair_echoed =
     foldl pair_step pair_ended
       (map (\<lambda>e. AtNear (SdOwn (CvStream 1 e))) reply @ [AtFar (SdFrame 0), AtFar (SdFrame 0), AtFar (SdOwn (CvStream 1 (SvRead 3 5)))])"

lemma echoed_pair:
  "pair_reachable pair_echoed" "joined pair_echoed = [(1, 1)]"
  "near pair_echoed = holding visited replied" "far pair_echoed = holding calling echoed"
proof -
  let ?r = "map (\<lambda>e. AtNear (SdOwn (CvStream 1 e))) reply"
  have e: "joined pair_ended = [(1, 1)]" "near pair_ended = holding visited finished" "far pair_ended = holding calling ended"
    unfolding ended_pair(2) read_pair(2) spoken_pair(2) called_pair by simp_all
  note n = near_holding_run [OF e(2) echo_facts(1) finished_facts(11) echo_facts(9,10) near_conn(1,2,7)]
  let ?p = "pair_ended\<lparr>near := holding visited replied\<rparr>"
  have p: "joined ?p = [(1, 1)]" "near ?p = holding visited replied" "far ?p = holding calling ended" using e by simp_all
  have d: "can_deliver replied ended" "next_frame replied ended = [0, 1, 2]" "can_deliver replied told" "next_frame replied told = [1]"
    using echo_facts(5) reply_facts(1,4,6,8) by (simp_all add: can_deliver_def next_frame_def)
  have q1: "fatal_calls (stream_step ended (SvMessage (next_frame replied ended))) = fatal_calls ended"
    using reply_facts(2,7) by (simp add: d told_def)
  note f = far_holding_frame [OF p finished_facts(6) near_conn(4,5) echo_facts(2) near_conn(1,2) d(1) q1 reply_facts(5)]
  let ?q = "?p\<lparr>far := holding calling told\<rparr>"
  have q: "joined ?q = [(1, 1)]" "near ?q = holding visited replied" "far ?q = holding calling told" using e by simp_all
  have q2: "fatal_calls (stream_step told (SvMessage (next_frame replied told))) = fatal_calls told"
    using reply_facts(7,11) by (simp add: d told_all_def)
  note g = far_holding_frame [OF q reply_facts(9) near_conn(4,5) echo_facts(2) near_conn(1,2) d(3) q2 reply_facts(10)]
  let ?s = "?p\<lparr>far := holding calling told_all\<rparr>"
  note h = holding_run [OF reply_facts(15,13,11,14) near_conn(4-6), of ?s]
  have v1: "foldl pair_step pair_ended ?r = ?p" using n unfolding replied_def by blast
  have v2: "pair_step ?p (AtFar (SdFrame 0)) = ?q" using f(2) unfolding d told_def .
  have v3: "pair_step ?q (AtFar (SdFrame 0)) = ?s" using g(2) unfolding d told_all_def by simp
  have v4: "pair_step ?s (AtFar (SdOwn (CvStream 1 (SvRead 3 5)))) = ?p\<lparr>far := holding calling echoed\<rparr>"
    using h unfolding echoed_def by (simp del: pair_step.simps stream_step.simps)
  note v = v1 v2 v3 v4
  have l: "legal pair_step pair_guard pair_ended ?r" "pair_guard ?p (AtFar (SdFrame 0))" "pair_guard ?q (AtFar (SdFrame 0))"
    "pair_guard ?s (AtFar (SdOwn (CvStream 1 (SvRead 3 5))))"
    using n f(1) g(1) h by (simp_all del: pair_guard.simps)
  have reached: "pair_echoed = ?p\<lparr>far := holding calling echoed\<rparr>"
    by (simp add: pair_echoed_def v del: pair_step.simps)
  show "joined pair_echoed = [(1, 1)]" unfolding reached using e(1) by simp
  show "near pair_echoed = holding visited replied" unfolding reached by simp
  show "far pair_echoed = holding calling echoed" unfolding reached by simp
  show "pair_reachable pair_echoed"
    unfolding pair_echoed_def
    by (rule pair_reachable_run [OF ended_pair(1)]) (simp add: legal_append l v del: pair_step.simps pair_guard.simps)
qed

section \<open>The property\<close>


definition short_flags :: DialFlags where
  "short_flags = dial_defaults\<lparr>df_message := [CHR 0x01, CHR 0x02]\<rparr>"

definition good_calls :: DialCalls where
  "good_calls = \<lparr>cl_dial = Done (Inr ()), cl_attempts = [], cl_open = Done (Inr ()), cl_write = Done (Inr ()),
     cl_close_write = Inr (), cl_read = Done (Inr [1, 2])\<rparr>"


end
