(* ===== verification/Spec2Isabelle.thy ===== *)
theory Spec2Isabelle
  imports KpsFlowProps KpsConnRaces KpsWireProps KpsListenerProps KpsTransports KpsWaits KpsConnNew KpsCloseWait KpsServer KpsEcho
begin

text \<open>
  A verification library for KPS, a protocol for byte streams and datagrams to a server that is
  named by its address and the hash of its certificate. It models the Rust implementation,
  \<open>src/libs/rust\<close>: the library \<open>kps\<close> and the two command-line programs over it.

  \<^bold>\<open>The program and its parts.\<close> A \<open>Listener\<close> (\<open>listener.rs\<close>) serves one UDP port; its pump
  sends each packet to a WebRTC connection or to QUIC. A client dials an address
  (\<open>address.rs\<close>) with \<open>quic.rs\<close> or \<open>webrtc_client.rs\<close> and pins the certificate of the server's
  identity (\<open>cert.rs\<close>). Over WebRTC a connection (\<open>conn.rs\<close>) exchanges HELLOs on its control
  channel, opens and accepts streams (\<open>stream.rs\<close>), one data channel each, with the frames of
  \<open>framing.rs\<close>, and shares among them one credit engine (\<open>flow.rs\<close>). Over QUIC a stream is a
  stream of quinn.

  \<^bold>\<open>Theories and sources.\<close>
  \<^item> \<open>KpsPrelude\<close>: machine integers, big-endian bytes, numbers as text, polls, sums over finite
    maps; the locales \<open>codec\<close> (an encoder and its decoder) and \<open>machine\<close> (a state driven by
    events under a guard, with an invariant), which the components interpret.
  \<^item> \<open>KpsError\<close> (\<open>error.rs\<close>): \<open>ErrorCode\<close>, \<open>to_wire\<close>, \<open>from_wire\<close>, the error types and their texts.
  \<^item> \<open>KpsFraming\<close>, \<open>KpsWireProps\<close> (\<open>framing.rs\<close>): encoders and parsers of frames and control
    messages, and the grammar of the protocol document that the parsers decide.
  \<^item> \<open>KpsFlow\<close>, \<open>KpsFlowInv\<close>, \<open>KpsFlowProps\<close> (\<open>flow.rs\<close>): \<open>ConnFlow\<close> with one definition per
    method. The invariant bounds what is sent, received and reserved; the lemmas on wake-ups
    say who is woken when credit arrives.
  \<^item> \<open>KpsStream\<close> (\<open>stream.rs\<close>): \<open>WebrtcStream\<close> with its callbacks, its writer task and its calls.
    \<open>KpsStreamFrame\<close> (what each operation leaves alone), \<open>KpsStreamInv\<close> (the machine and its
    invariant), \<open>KpsStreamCredit\<close>, \<open>KpsStreamBooks\<close>, \<open>KpsStreamWire\<close>, \<open>KpsStreamRead\<close> (its four
    parts: life cycle, accounting of credit, what is written, what is read), \<open>KpsStreamProps\<close>.
  \<^item> \<open>KpsLinkInv\<close>, \<open>KpsLink\<close>, \<open>KpsLinkProps\<close>: two streams joined by the wire in both directions:
    what the receiver accepts, in which order, and that credit comes back. \<open>KpsStreamView\<close>
    holds the frame facts of a stream's engine, one locale per view of it.
  \<^item> \<open>KpsNet\<close>, \<open>KpsConn\<close> (\<open>conn.rs\<close>): \<open>WebrtcConn\<close> with \<open>CloseState\<close>, \<open>HelloState\<close> and
    \<open>IncomingQueue\<close>. \<open>KpsConnStreams\<close> (many streams over one engine), \<open>KpsConnInv\<close> (the
    connection as a machine, its invariant), \<open>KpsConnProps\<close> (credit, buffers, slots),
    \<open>KpsConnClose\<close> (HELLO gate, control channel, closing), \<open>KpsConnRaces\<close> (interleavings in
    which the code departs from its documentation), \<open>KpsConnLimbo\<close> (a connection is never stuck
    half open unless a caller drops the future of a close), \<open>KpsCloseWait\<close> (the bounded waits of
    a close).
  \<^item> \<open>KpsStreamTally\<close>, \<open>KpsConnEffect\<close>, \<open>KpsConnTally\<close>: the bytes and the slots of one
    connection counted over all its streams, and how each step changes its engine (the
    inductive \<open>conn_effect\<close>). \<open>KpsPair\<close>: two connections that talk to each other, an event of
    either side at a time, arrivals included. \<open>KpsPairInv\<close>, \<open>KpsPairStep\<close>, \<open>KpsPairRun\<close>: what one
    side sends is what the other expects, kept by every step; \<open>KpsPairProps\<close>: no side provokes
    the other's protocol errors, bytes arrive in order and completely, credit is conserved.
  \<^item> \<open>KpsAddress\<close> (\<open>address.rs\<close>), \<open>KpsQuic\<close> (\<open>quic.rs\<close>), \<open>KpsIdentity\<close> (\<open>cert.rs\<close>, \<open>ice.rs\<close>),
    \<open>KpsDialer\<close> (\<open>webrtc_client.rs\<close>), \<open>KpsListener\<close> and \<open>KpsListenerProps\<close> (\<open>listener.rs\<close>),
    \<open>KpsServer\<close> (the listener together with the connections that its pump creates),
    \<open>KpsCommands\<close> (\<open>kps-dial/src/main.rs\<close>, the flags of \<open>kps-server/src/main.rs\<close>).
  \<^item> \<open>KpsWriter\<close>: the writer task of a stream as a loop that ends, and what it leaves on the wire.
    \<open>KpsConnSpeech\<close>: what a connection sends, decoded. \<open>KpsTransports\<close> (\<open>api.rs\<close>): the calls of the
    \<open>Stream\<close> trait, their abstract specification on the two halves of a stream and the locale
    \<open>stream_api\<close>, interpreted on the WebRTC and on the QUIC stream.
  \<^item> \<open>KpsWaits\<close>: the loops that await a notification, as futures that take turns while their
    object moves; the locale \<open>awaited\<close>, interpreted for each of them, shows that none is lost.
    \<open>KpsConnNew\<close>: the constructor of a connection, its reserved channels and its callbacks.
  \<^item> \<open>KpsServe\<close>: \<open>listen\<close> and \<open>spawn_pc\<close> of \<open>listener.rs\<close>, with the certificates and configurations
    that \<open>cert.rs\<close> and \<open>quic.rs\<close> make of the identity, and the sockets of the two stacks.
    \<open>KpsEcho\<close>: the echo server, and both programs at the ends of a pair of connections.
  \<^item> This theory: the properties that span the listener, the identity and the two dialers.

  \<^bold>\<open>How the code is modelled.\<close> A struct is a record, an integer a word of its width, a map a
  partial function; \<open>Result\<close> is a sum, with the error on the left, \<open>Poll\<close> a datatype. An
  \<open>async\<close> function is one definition per stretch between awaits; between them its future is
  a value of the state (\<open>tasks\<close>, \<open>pump\<close>, \<open>writer_at\<close>), so that every interleaving of callbacks,
  tasks and callers is a list of events, and a property over \<open>legal\<close> runs speaks of all of
  them. Two critical sections that the code enters one after the other are two steps where
  another thread can come between (\<open>mark\<close>, the pump's tables, the staging of a stream).
  \<open>select!\<close> takes any ready branch: the choice is an argument. What the crates answer
  (webrtc, quinn, rustls, rcgen, base64, SHA-256, the STUN parser) is an argument or a field of
  \<open>Crates\<close>; a property that relies on it names the documented behaviour as a hypothesis and is
  applied to a concrete instance by its witness. A dropped future is an event of its own.
  Some records carry a history that the code does not keep (frames sent and received, bytes
  delivered, streams handed out, connections accepted, STUN requests seen): it is written and
  never read by the operations.

  \<^bold>\<open>Bounds.\<close> Recursions are structural or have a measure (the flag parsers, whose argument list
  shrinks, and \<open>drain\<close>, the writer's loop, whose \<open>writer_weight\<close> falls by one at least with every
  turn), so no fuel is used. Stream ids are 64-bit words that the guards keep from
  running out. Time is modelled only in \<open>KpsCloseWait\<close>, where a close sleeps a hundred times at
  most: elsewhere a timeout is an event that may happen at any moment, and a bounded wait ends
  with the answer that its argument gives.

  \<^bold>\<open>Not modelled.\<close> The signature checks of \<open>PinVerifier\<close>, which only forward to rustls, and the
  methods of the virtual sockets and their mux that do nothing; the delegation of \<open>Conn\<close> for
  \<open>Arc<WebrtcConn>\<close> and the re-exports of \<open>lib.rs\<close>; debug output; the text form of socket
  addresses, which the standard library parses; the floating-point reading of the client's
  timeout. The Go and JavaScript libraries, the demos and the tests are other programs.
\<close>

section \<open>From the listener's address to the pinned certificate\<close>

lemma chars_of_str_bytes: "map (\<lambda>b. char_of (unat b)) (str_bytes s) = s"
proof -
  have "char_of (unat (of_nat (of_char c) :: u8)) = c" for c
  proof -
    have "(of_char c :: nat) < 2 ^ LENGTH(8)" by (cases c) simp
    then show ?thesis by (simp only: unat_of_nat_small char_of_char)
  qed
  then show ?thesis by (simp add: str_bytes_def comp_def map_idI)
qed

text \<open>
  C37: What the listener prints can be dialed, and pins its certificate: for a listener that
  \<open>listen\<close> set up, with any identity it loaded, created or was given, an address printed for any
  host is parsed and decoded by the QUIC dialer without an error, the connection goes to that
  host and port, and among all certificates the dialer accepts exactly those with the hash of
  the certificate that the listener's QUIC endpoint presents.
\<close>

theorem dialed_address_pins:
  assumes "listen C keys la opts at fs = (Inr (s, i, tls), fs')" and "pem_faithful C"
    and "\<And>j. lo_identity opts = Some j \<Longrightarrow> identity_wf C j"
    and "address_ok \<lparr>ad_ip = ip, ad_port = sa_port (ls_local s), ad_certhash = id_certhash i\<rparr>"
    and "\<And>x. dec (cr_base64url C x) = Inr x" and "\<And>t x. dec t = Inr x \<Longrightarrow> cr_base64url C x = t"
    and "\<And>x. length (cr_sha256 C x) = 32"
    and "sock (socket_text \<lparr>ad_ip = ip, ad_port = sa_port (ls_local s), ad_certhash = id_certhash i\<rparr>) = Inr dest"
  shows "\<exists>digest. quic_dial dec (Inr ()) sock (Inr ()) (Inr ()) (Inr ()) (listener_address local_ip ip s) = Inr (dest, digest)
    \<and> (\<forall>cert. verify_server_cert (cr_sha256 C) digest cert = Inr () \<longleftrightarrow> cr_sha256 C cert = cr_sha256 C (hd (tc_chain tls)))"
proof -
  let ?a = "\<lparr>ad_ip = ip, ad_port = sa_port (ls_local s), ad_certhash = id_certhash i\<rparr>"
  note l = listen_value [OF assms(1)]
  have wf: "identity_wf C i" by (rule listen_identity_wf [OF l(5) assms(3,2)])
  have "ip \<noteq> ''''" using assms(4) by (simp add: address_ok_def)
  then have "listener_address local_ip ip s = format_address ip (sa_port (ls_local s)) (id_certhash i)"
    using l(3) by (simp add: listener_address_def)
  then have p: "parse_address (listener_address local_ip ip s) = Inr ?a"
    using address.dec_enc [OF assms(4)] by simp
  have d: "decode_certhash dec (id_certhash i) = Inr (cr_sha256 C (id_cert_der i))"
    using identity_wfD [OF wf] assms(7) by (simp add: decode_certhash_iff [OF assms(5,6)])
  have "quic_dial dec (Inr ()) sock (Inr ()) (Inr ()) (Inr ()) (listener_address local_ip ip s)
      = Inr (dest, cr_sha256 C (id_cert_der i))"
    using p d assms(8) by (simp add: quic_dial_def)
  then show ?thesis using assms(7) l(1) by (auto simp: verify_server_cert_iff)
qed

definition ex_identity :: Identity where
  "ex_identity = from_parts ex_crates [1, 7] 7"

lemma ex_identity_facts:
  "identity_wf ex_crates ex_identity" "id_certhash ex_identity \<noteq> []" "id_cert_der ex_identity = [1, 7]"
  by (auto simp: identity_wf_def ex_identity_def from_parts_def encode_certhash_def Let_def)

lemma ex_engine: "bytes_of (cr_base64url ex_crates x) = Inr x" "bytes_of t = Inr x \<Longrightarrow> cr_base64url ex_crates x = t"
  "length (cr_sha256 ex_crates x) = 32"
  by (simp_all add: ex_crates_def bytes_of_chars chars_of_bytes)

text \<open>A listener on a new key file, with a system that grants everything.\<close>

definition ex_keys :: "u8 KeyAnswers" where
  "ex_keys = \<lparr>ka_new_key = Inr 7, ka_sign = (\<lambda>k. Inr [1, k]), ka_read_fails = None, ka_write = WriteDone\<rparr>"

definition ex_calls :: ListenAnswers where
  "ex_calls =
     \<lparr>la_parse = (\<lambda>t. Inr \<lparr>sa_ip = V6 0, sa_port = 4433\<rparr>), la_bind = (\<lambda>a. Inr ()), la_local = Inr \<lparr>sa_ip = V6 0, sa_port = 4433\<rparr>,
      la_private_key_der = Inr, la_single_cert = (\<lambda>c. Inr ()), la_quic_tls = (\<lambda>c. Inr ()), la_endpoint = (\<lambda>c. Inr ())\<rparr>"

lemma ex_listens:
  "\<exists>fs'. listen ex_crates ex_keys ex_calls \<lparr>lo_identity = None, lo_key_file = None\<rparr> '':4433'' Map.empty
     = (Inr (listen_state \<lparr>sa_ip = V6 0, sa_port = 4433\<rparr> (id_certhash ex_identity), ex_identity,
             \<lparr>tc_chain = [[1, 7]], tc_key = id_key_der ex_identity, tc_alpn = [ALPN_KPS]\<rparr>), fs')"
  by (simp add: listen_def listen_identity_def listen_bind_def server_config_def rustls_parts_def load_or_create_def generate_def
      build_cert_def save_identity_def write_secret_def ex_keys_def ex_calls_def ex_identity_facts(3) ex_identity_def [symmetric] Let_def)

theorem dialed_address_pins_witness:
  "\<exists>s digest. quic_dial bytes_of (Inr ()) (\<lambda>t. Inr here) (Inr ()) (Inr ()) (Inr ()) (listener_address ''::'' ''127.0.0.1'' s)
      = Inr (here, digest) \<and> verify_server_cert (cr_sha256 ex_crates) digest [1, 7] = Inr ()"
proof -
  let ?s = "listen_state \<lparr>sa_ip = V6 0, sa_port = 4433\<rparr> (id_certhash ex_identity)"
  obtain fs' where l: "listen ex_crates ex_keys ex_calls \<lparr>lo_identity = None, lo_key_file = None\<rparr> '':4433'' Map.empty
     = (Inr (?s, ex_identity, \<lparr>tc_chain = [[1, 7]], tc_key = id_key_der ex_identity, tc_alpn = [ALPN_KPS]\<rparr>), fs')"
    using ex_listens by blast
  have a: "address_ok \<lparr>ad_ip = ''127.0.0.1'', ad_port = sa_port (ls_local ?s), ad_certhash = id_certhash ex_identity\<rparr>"
    by (simp add: address_ok_def ex_identity_facts listen_state_def)
  have "\<exists>digest. quic_dial bytes_of (Inr ()) (\<lambda>t. Inr here) (Inr ()) (Inr ()) (Inr ()) (listener_address ''::'' ''127.0.0.1'' ?s)
      = Inr (here, digest)
    \<and> (\<forall>cert. verify_server_cert (cr_sha256 ex_crates) digest cert = Inr () \<longleftrightarrow> cr_sha256 ex_crates cert = cr_sha256 ex_crates [1, 7])"
    using dialed_address_pins [OF l ex_crates_faithful _ a, of bytes_of "\<lambda>t. Inr here" here "''::''"] ex_engine by simp
  then obtain digest where d: "quic_dial bytes_of (Inr ()) (\<lambda>t. Inr here) (Inr ()) (Inr ()) (Inr ()) (listener_address ''::'' ''127.0.0.1'' ?s)
      = Inr (here, digest)" "verify_server_cert (cr_sha256 ex_crates) digest [1, 7] = Inr ()" by blast
  then show ?thesis by blast
qed

section \<open>Both sides' ICE credentials\<close>

text \<open>
  C38: The two sides agree without signaling: a client that dials an address with the server's
  certhash writes \<open>ufrag:ufrag\<close> in its STUN requests; the server's pump reads that ufrag from the
  first packet, and the PeerConnection that \<open>spawn_pc\<close> sets up for it has the ufrag and the
  password the client derived from the certhash; both session descriptions, which neither side
  transmits, carry these credentials; and the fingerprint in the client's description is the
  one of the certificate that the PeerConnection presents, and of none with another hash.
\<close>

theorem ice_credentials_agree:
  assumes "identity_wf C i" and "parse_address addr = Inr a" and "ad_certhash a = id_certhash i"
    and "\<And>x. dec (cr_base64url C x) = Inr x" and "\<And>t x. dec t = Inr x \<Longrightarrow> cr_base64url C x = t"
    and "\<And>x. length (cr_sha256 C x) = 32"
    and "dial_setup C dec sock ufrag ans addr = Inr d"
    and "is_message pkt" and "username pkt = Some (str_bytes (ufrag @ '':'' @ ufrag))"
    and "utf8_valid (str_bytes (ufrag @ '':'' @ ufrag))" and "CHR '':'' \<notin> set ufrag" and "length pkt \<le> 1500"
    and "by_addr s (canonical src) = None"
    and "spawn_pc C private_key now sans i (dl_ufrag d) (canonical src) = (Inr p, registered)"
  shows "pump (pump_receive is_message username pkt src s) = PumpLookup (dl_ufrag d) pkt (canonical src)
    \<and> is_ufrag (sd_settings p) = dl_ufrag d \<and> is_pwd (sd_settings p) = dl_pwd d
    \<and> (\<forall>l \<in> {''a=ice-ufrag:'' @ dl_ufrag d, ''a=ice-pwd:'' @ dl_pwd d}. sdp_line (dl_answer d) l \<and> sdp_line (sd_offer p) l)
    \<and> (\<exists>cert. rc_chain (sd_certificate p) = [cert]
         \<and> sdp_line (dl_answer d) (''a=fingerprint:sha-256 '' @ digest_to_fingerprint (cr_sha256 C cert))
         \<and> (\<forall>other. digest_to_fingerprint (cr_sha256 C other) = digest_to_fingerprint (cr_sha256 C cert)
              \<longleftrightarrow> cr_sha256 C other = cr_sha256 C cert))"
proof -
  have dig: "id_digest i = cr_sha256 C (id_cert_der i)"
    and hash: "id_certhash i = encode_certhash (cr_base64url C) (id_digest i)"
    using identity_wfD [OF assms(1)] by simp_all
  have "decode_certhash dec (ad_certhash a) = Inr (id_digest i)"
    using assms(3,6) dig hash by (simp add: decode_certhash_iff [OF assms(4,5)])
  then have d: "dl_ufrag d = ufrag" "dl_pwd d = derive_ice_pwd C (id_digest i) ufrag"
    "dl_answer d = synthesize_webrtc_answer a ufrag (dl_pwd d) (digest_to_fingerprint (id_digest i))"
    using assms(2,7) by (auto simp: dial_setup_def Let_def)
  have "takeWhile (\<lambda>c. c \<noteq> CHR '':'') (ufrag @ '':'' @ ufrag) = ufrag"
    using assms(11) by (subst takeWhile_append2) auto
  then have "extract_ufrag username pkt = Some ufrag"
    using assms(9,10) by (simp only: extract_ufrag_def option.case if_True chars_of_str_bytes)
  then have "pump (pump_receive is_message username pkt src s) = PumpLookup ufrag pkt (canonical src)"
    using assms(8,12,13) by (simp add: pump_receive_def Let_def)
  moreover note v = spawn_value [OF assms(14)]
  moreover obtain port where "sd_offer p = build_client_offer ufrag (dl_pwd d) port (canonical src)"
    using v(5) d by auto
  moreover have "length (cr_sha256 C other) = length (cr_sha256 C (id_cert_der i))" for other using assms(6) by simp
  ultimately show ?thesis
    using d dig answer_lines offer_lines by (simp add: fingerprint_inj ice_settings_def)
qed

definition ex_answers :: DialAnswers where
  "ex_answers = \<lparr>da_peer_connection = Inr (), da_control = Inr (), da_conn = Inr (), da_offer = Inr (), da_set_local = Inr (),
     da_answer = Inr (), da_set_remote = Inr (), da_established = Inr ()\<rparr>"

definition ex_spawn :: SpawnAnswers where
  "ex_spawn = \<lparr>sp_local = Inr here, sp_peer_connection = Inr (), sp_conn = Inr (), sp_offer = Inr (), sp_set_remote = Inr (),
     sp_answer = Inr (), sp_set_local = Inr ()\<rparr>"

theorem ice_credentials_agree_witness:
  "pump (pump_receive (\<lambda>p. True) (\<lambda>p. Some (str_bytes ''ab:ab'')) [] here (listen_state here ''''))
     = PumpLookup ''ab'' [] (canonical here)"
proof -
  let ?a = "\<lparr>ad_ip = ''127.0.0.1'', ad_port = 4433, ad_certhash = id_certhash ex_identity\<rparr>"
  let ?s = "format_address ''127.0.0.1'' 4433 (id_certhash ex_identity)"
  have p: "parse_address ?s = Inr ?a"
    using address.dec_enc [of ?a] ex_identity_facts(2) by (simp add: address_ok_def)
  have dec: "decode_certhash bytes_of (ad_certhash ?a) = Inr (cr_sha256 ex_crates (id_cert_der ex_identity))"
    using identity_wfD [OF ex_identity_facts(1)] ex_engine
    by (simp add: decode_certhash_iff [of bytes_of "cr_base64url ex_crates"])
  obtain d where d: "dial_setup ex_crates bytes_of (\<lambda>t. Inr here) ''ab'' ex_answers ?s = Inr d"
    using p dec by (simp add: dial_setup_def ex_answers_def dial_error_def Let_def)
  have key: "cr_key_from_pem ex_crates (id_key_pem ex_identity) = Inr 7"
    by (simp add: ex_identity_def from_parts_def ex_crates_def Let_def)
  obtain q where q: "spawn_pc ex_crates (\<lambda>k. Inr k) 0 ex_spawn ex_identity (dl_ufrag d) (canonical here) = (Inr q, True)"
    using key by (simp add: spawn_pc_def spawn_begin_def spawn_finish_def rtc_certificate_def ex_spawn_def Let_def)
  have u: "utf8_valid (str_bytes (''ab'' @ '':'' @ ''ab''))" by code_simp
  have "pump (pump_receive (\<lambda>p. True) (\<lambda>p. Some (str_bytes (''ab'' @ '':'' @ ''ab''))) [] here (listen_state here ''''))
     = PumpLookup (dl_ufrag d) [] (canonical here)"
    using ice_credentials_agree [where is_message = "\<lambda>p. True" and pkt = "[]" and s = "listen_state here ''''" and src = here
        and username = "\<lambda>p. Some (str_bytes (''ab'' @ '':'' @ ''ab''))", OF ex_identity_facts(1) p _ ex_engine d _ _ u _ _ _ q]
    by (simp add: listen_state_def)
  moreover have "dl_ufrag d = ''ab''" using d by (auto simp: dial_setup_def Let_def)
  ultimately show ?thesis by simp
qed

end
